(* ===== verification/Ese_Prelude.thy ===== *)
theory Ese_Prelude
  imports Main "HOL-Library.Word"
begin

unbundle bit_operations_syntax

text \<open>
  Shared vocabulary of the development: names for the machine types of the sources
  (BYTE, USHORT, ULONG, QWORD), little-endian reads and writes on byte buffers, and generic
  facts on lists that are overwritten in place (memcpy, memmove and memset).
\<close>

section \<open>Machine types\<close>

type_synonym BYTE = "8 word"
type_synonym USHORT = "16 word"
type_synonym ULONG = "32 word"
type_synonym QWORD = "64 word"

named_theorems bitwise \<open>bit-level characterisations of the word operations of the model\<close>

declare bit_xor_iff [bitwise] bit_and_iff [bitwise] bit_or_iff [bitwise]
  bit_unsigned_iff [bitwise] bit_drop_bit_eq [bitwise]

lemma radix_eq_iff:
  fixes m k k' n n' :: nat
  assumes "n < m" and "n' < m"
  shows "m * k + n = m * k' + n' \<longleftrightarrow> k = k' \<and> n = n'"
proof
  assume eq: "m * k + n = m * k' + n'"
  have "k = (m * k + n) div m" and "k' = (m * k' + n') div m" using assms by simp_all
  with eq show "k = k' \<and> n = n'" by simp
qed simp

lemma bit_word_of_nat [bitwise]:
  "bit (word_of_nat k :: 'a::len word) n \<longleftrightarrow> n < LENGTH('a) \<and> bit k n"
  by transfer (simp add: bit_take_bit_iff bit_of_nat_iff_bit)

lemma bit_nat_bound: "n < 2 ^ l \<Longrightarrow> bit n m \<Longrightarrow> m < l" for n :: nat
proof (rule ccontr)
  assume n: "n < 2 ^ l" and "bit n m" and "\<not> m < l"
  from \<open>\<not> m < l\<close> have "(2 :: nat) ^ l \<le> 2 ^ m" by simp
  with n have "n < 2 ^ m" by linarith
  then have "n div 2 ^ m = 0" by simp
  with \<open>bit n m\<close> show False by (simp add: bit_iff_odd)
qed

section \<open>Buffers\<close>

text \<open>
  \<open>load_le\<close> is the integer a little-endian machine reads from a run of bytes, and
  \<open>store_le\<close> the bytes it writes. \<open>blit\<close> overwrites part of a buffer: the effect
  of memcpy, memmove and memset on the destination.
\<close>

definition load_le :: "BYTE list \<Rightarrow> 'a::len word" where
  "load_le bs = word_of_int (horner_sum uint (2 ^ 8) bs)"

definition store_le :: "nat \<Rightarrow> 'a::len word \<Rightarrow> BYTE list" where
  "store_le n w = map (\<lambda>k. ucast (drop_bit (8 * k) w)) [0..<n]"

definition blit :: "'a list \<Rightarrow> nat \<Rightarrow> 'a list \<Rightarrow> 'a list" where
  "blit bs k xs = take k bs @ xs @ drop (k + length xs) bs"

definition subbuf :: "nat \<Rightarrow> nat \<Rightarrow> 'a list \<Rightarrow> 'a list" where
  "subbuf k n bs = take n (drop k bs)"

lemma bit_load_le [bitwise]:
  "bit (load_le bs :: 'a::len word) n \<longleftrightarrow>
     n < LENGTH('a) \<and> n div 8 < length bs \<and> bit (bs ! (n div 8)) (n mod 8)"
  using bit_horner_sum_uint_exp_iff [of bs n]
  by (simp add: load_le_def bit_word_of_int_iff)

lemma length_store_le [simp]: "length (store_le n w) = n"
  by (simp add: store_le_def)

lemma nth_store_le [simp]: "k < n \<Longrightarrow> store_le n w ! k = ucast (drop_bit (8 * k) w)"
  by (simp add: store_le_def)

lemma load_store_le [simp]: "LENGTH('a) = 8 * n \<Longrightarrow> load_le (store_le n w) = (w :: 'a::len word)"
proof (rule bit_word_eqI)
  fix m assume n: "LENGTH('a) = 8 * n" and m: "m < LENGTH('a)"
  have "8 * (m div 8) + m mod 8 = m" and "m mod 8 < 8" by simp_all
  moreover have "m div 8 < n" using n m by linarith
  ultimately show "bit (load_le (store_le n w) :: 'a word) m = bit w m"
    using m by (simp add: bitwise add.commute del: mod_less_divisor)
qed

lemma store_load_le [simp]:
  assumes "length bs = n" and "LENGTH('a) = 8 * n"
  shows "store_le n (load_le bs :: 'a::len word) = bs"
proof (rule nth_equalityI)
  fix k assume "k < length (store_le n (load_le bs :: 'a word))"
  then have k: "k < n" by simp
  show "store_le n (load_le bs :: 'a word) ! k = bs ! k"
  proof (rule bit_word_eqI)
    fix m assume "m < LENGTH(8)"
    then show "bit (store_le n (load_le bs :: 'a word) ! k) m = bit (bs ! k) m"
      using k assms by (auto simp: bitwise)
  qed
qed (use assms in simp)

lemma length_blit [simp]: "k + length xs \<le> length bs \<Longrightarrow> length (blit bs k xs) = length bs"
  by (simp add: blit_def)

lemma length_subbuf [simp]: "length (subbuf k n bs) = min n (length bs - k)"
  by (simp add: subbuf_def)

lemma nth_subbuf [simp]: "i < n \<Longrightarrow> k + i < length bs \<Longrightarrow> subbuf k n bs ! i = bs ! (k + i)"
  by (simp add: subbuf_def)

lemma nth_blit:
  "k + length xs \<le> length bs \<Longrightarrow> i < length bs \<Longrightarrow>
   blit bs k xs ! i = (if k \<le> i \<and> i < k + length xs then xs ! (i - k) else bs ! i)"
  by (auto simp: blit_def nth_append min_def)

lemma subbuf_blit_same [simp]:
  "k + length xs \<le> length bs \<Longrightarrow> n = length xs \<Longrightarrow> subbuf k n (blit bs k xs) = xs"
  by (simp add: subbuf_def blit_def min_def)

lemma subbuf_blit_disjoint:
  assumes "k + length xs \<le> length bs" and "j + n \<le> k \<or> k + length xs \<le> j"
  shows "subbuf j n (blit bs k xs) = subbuf j n bs"
proof (rule nth_equalityI)
  show "length (subbuf j n (blit bs k xs)) = length (subbuf j n bs)"
    using assms(1) by simp
  fix i assume "i < length (subbuf j n (blit bs k xs))"
  with assms have "i < n" and "j + i < length bs" by auto
  with assms show "subbuf j n (blit bs k xs) ! i = subbuf j n bs ! i"
    by (auto simp: nth_blit)
qed

lemma blit_overwrite:
  assumes "k + length ys \<le> length bs" and "k \<le> j" and "j + length xs \<le> k + length ys"
  shows "blit (blit bs j xs) k ys = blit bs k ys"
  using assms by (intro nth_equalityI) (auto simp: nth_blit)

lemma blit_append:
  assumes "k + length xs + length ys \<le> length bs"
  shows "blit (blit bs k xs) (k + length xs) ys = blit bs k (xs @ ys)"
  using assms by (intro nth_equalityI) (auto simp: nth_blit nth_append)

lemma blit_blit_inside:
  assumes "k + length xs \<le> length bs" and "j + length ys \<le> length xs"
  shows "blit (blit bs k xs) (k + j) ys = blit bs k (blit xs j ys)"
  using assms by (intro nth_equalityI) (auto simp: nth_blit)

lemma blit_commute:
  assumes "k + length xs \<le> length bs" and "j + length ys \<le> length bs" and "k + length xs \<le> j \<or> j + length ys \<le> k"
  shows "blit (blit bs k xs) j ys = blit (blit bs j ys) k xs"
  using assms by (intro nth_equalityI) (auto simp: nth_blit)

lemma blit_same: "subbuf k (length xs) bs = xs \<Longrightarrow> blit bs k xs = bs"
proof -
  assume "subbuf k (length xs) bs = xs"
  then have "blit bs k xs = take k bs @ take (length xs) (drop k bs) @ drop (length xs) (drop k bs)"
    by (simp add: blit_def subbuf_def add.commute)
  then show ?thesis by (simp only: append_take_drop_id)
qed

lemma subbuf_0 [simp]: "subbuf 0 n bs = take n bs"
  by (simp add: subbuf_def)

lemma subbuf_zero_length [simp]: "subbuf k 0 bs = []"
  by (simp add: subbuf_def)

lemma subbuf_subbuf [simp]: "i + m \<le> n \<Longrightarrow> subbuf i m (subbuf k n bs) = subbuf (k + i) m bs"
  by (simp add: subbuf_def drop_take min_def add.commute)

lemma bit_load_subbuf:
  "bit (load_le (subbuf k n bs) :: 'a::len word) m \<longleftrightarrow>
     m < LENGTH('a) \<and> m div 8 < n \<and> k + m div 8 < length bs \<and> bit (bs ! (k + m div 8)) (m mod 8)"
  by (auto simp: bit_load_le)

text \<open>
  \<open>dw_at\<close>, \<open>qw_at\<close>, \<open>ow_at\<close> and \<open>yw_at\<close> index a buffer through a pointer to 4-, 8-, 16-
  and 32-byte integers, as \<open>pdw[ i ]\<close> does after the cast \<open>(ULONG *)pb\<close>.
\<close>

definition dw_at :: "BYTE list \<Rightarrow> nat \<Rightarrow> ULONG" where
  "dw_at pb i = load_le (subbuf (4 * i) 4 pb)"

definition qw_at :: "BYTE list \<Rightarrow> nat \<Rightarrow> QWORD" where
  "qw_at pb i = load_le (subbuf (8 * i) 8 pb)"

definition ow_at :: "BYTE list \<Rightarrow> nat \<Rightarrow> 128 word" where
  "ow_at pb i = load_le (subbuf (16 * i) 16 pb)"

definition yw_at :: "BYTE list \<Rightarrow> nat \<Rightarrow> 256 word" where
  "yw_at pb i = load_le (subbuf (32 * i) 32 pb)"

lemma set_subbuf_subset: "set (subbuf k n bs) \<subseteq> set bs"
  unfolding subbuf_def by (meson order_trans set_drop_subset set_take_subset)

end
