(* ===== verification/Xor_Algebra.thy ===== *)
theory Xor_Algebra
  imports Ese_Prelude
begin

unbundle bit_operations_syntax

text \<open>
  Exclusive-or sums over finite index sets and the parity of a word: the algebra in
  which the checksum routines are specified and compared. Words under exclusive or form
  a commutative monoid, so the library's \<open>comm_monoid_set\<close> gives the sum
  \<open>xor_sum.F\<close> with its splitting and reindexing laws.
\<close>

section \<open>Exclusive-or sums\<close>

interpretation xor_sum: comm_monoid_set "(XOR) :: 'a::len word \<Rightarrow> 'a word \<Rightarrow> 'a word" 0
  by unfold_locales (simp_all add: xor.assoc xor.commute)

abbreviation xsum :: "('i \<Rightarrow> 'a::len word) \<Rightarrow> 'i set \<Rightarrow> 'a word" where
  "xsum \<equiv> xor_sum.F"

text \<open>\<open>linear_xor h\<close>: the map \<open>h\<close> commutes with exclusive or.\<close>

locale xor_linear =
  fixes h :: "'a::len word \<Rightarrow> 'b::len word"
  assumes map_xor: "h (x XOR y) = h x XOR h y"
begin

lemma map_zero: "h 0 = 0"
  using map_xor [of 0 0] by simp

lemma map_xsum: "h (xsum f A) = xsum (\<lambda>i. h (f i)) A"
proof (cases "finite A")
  case True
  then show ?thesis by (induction A rule: finite_induct) (simp_all add: map_zero map_xor)
next
  case False
  then show ?thesis by (simp add: map_zero)
qed

end

lemma xsum_const: "finite A \<Longrightarrow> xsum (\<lambda>_. c) A = (if odd (card A) then c else 0)"
  by (induction A rule: finite_induct) auto

lemma xsum_sym_diff:
  assumes "finite A" and "finite B"
  shows "xsum f (A - B \<union> (B - A)) = xsum f A XOR xsum f B"
proof -
  have "xsum f A = xsum f (A - B) XOR xsum f (A \<inter> B)"
    using assms xor_sum.union_disjoint [of "A - B" "A \<inter> B" f] by (auto simp: Un_Diff_Int)
  moreover have "xsum f B = xsum f (B - A) XOR xsum f (A \<inter> B)"
    using assms xor_sum.union_disjoint [of "B - A" "B \<inter> A" f]
    by (auto simp: Un_Diff_Int inf.commute [of A B])
  moreover have "xsum f (A - B \<union> (B - A)) = xsum f (A - B) XOR xsum f (B - A)"
    using assms by (intro xor_sum.union_disjoint) auto
  ultimately show ?thesis
    by (simp add: xor.assoc xor.left_commute xor.commute)
qed

text \<open>Sums over an interval of indices, as the loops of the routines build them up.\<close>

lemma foldr_xsum: "foldr (\<lambda>i x. f i XOR x) [m..<n] 0 = xsum f {m..<n}"
proof -
  have "foldr (\<lambda>i x. f i XOR x) xs 0 = xsum f (set xs)" if "distinct xs" for xs
    using that by (induction xs) auto
  from this [of "[m..<n]"] show ?thesis by simp
qed

lemma xsum_split_at:
  fixes k m n :: nat
  shows "m \<le> k \<Longrightarrow> k \<le> n \<Longrightarrow> xsum f {m..<n} = xsum f {m..<k} XOR xsum f {k..<n}"
  using xor_sum.union_disjoint [of "{m..<k}" "{k..<n}" f] by (simp add: ivl_disj_un ivl_disj_int)

lemma xsum_4: "xsum f {k..<k + 4} = f k XOR f (k + 1) XOR f (k + 2) XOR f (k + 3)" for k :: nat
  by (simp add: numeral_eq_Suc atLeastLessThanSuc ac_simps)

lemma xsum_8: "xsum f {k..<k + 8} =
    f k XOR f (k + 1) XOR f (k + 2) XOR f (k + 3) XOR f (k + 4) XOR f (k + 5) XOR f (k + 6) XOR f (k + 7)"
  for k :: nat
  by (simp add: numeral_eq_Suc atLeastLessThanSuc ac_simps)

text \<open>Regrouping: a sum over all indices below \<open>c * n\<close> in blocks of \<open>c\<close>.\<close>

lemma xsum_blocks:
  fixes c n :: nat
  shows "xsum f {..<c * n} = xsum (\<lambda>m. xsum (\<lambda>l. f (c * m + l)) {..<c}) {..<n}"
proof (induction n)
  case 0
  then show ?case by simp
next
  case (Suc n)
  have "xsum f {..<c * Suc n} = xsum f {..<c * n} XOR xsum f {c * n..<c * n + c}"
    using xsum_split_at [of 0 "c * n" "c * n + c" f] by (simp add: atLeast0LessThan add.commute)
  moreover have "xsum f {c * n..<c * n + c} = xsum (\<lambda>l. f (c * n + l)) {..<c}"
    using xor_sum.atLeastLessThan_shift_bounds [of f 0 "c * n" c]
    by (simp add: atLeast0LessThan add.commute comp_def)
  ultimately show ?case by (simp add: Suc.IH lessThan_Suc xor.commute)
qed

section \<open>Sums over the set bits of a word\<close>

definition bitsum :: "(nat \<Rightarrow> 'b::len word) \<Rightarrow> 'a::len word \<Rightarrow> 'b word" where
  "bitsum c w = xsum c {n. bit w n}"

lemma finite_bits [simp, intro]: "finite {n. bit (w :: 'a::len word) n}"
  by (rule finite_subset [of _ "{..<LENGTH('a)}"]) (auto dest: bit_imp_le_length)

lemma bitsum_0 [simp]: "bitsum c 0 = 0"
  by (simp add: bitsum_def)

lemma bitsum_xor: "bitsum c (a XOR b) = bitsum c a XOR bitsum c b"
proof -
  have "{n. bit (a XOR b) n} = {n. bit a n} - {n. bit b n} \<union> ({n. bit b n} - {n. bit a n})"
    by (auto simp: bit_xor_iff)
  then show ?thesis by (simp add: bitsum_def xsum_sym_diff)
qed

interpretation bitsum: xor_linear "bitsum c" for c :: "nat \<Rightarrow> 'b::len word"
  by unfold_locales (rule bitsum_xor)

interpretation and_const: xor_linear "\<lambda>x. c AND x" for c :: "'a::len word"
  by unfold_locales (rule bit_word_eqI, auto simp: bitwise)

lemma bitsum_cong:
  "(\<And>n. bit w n \<Longrightarrow> c n = d n) \<Longrightarrow> bitsum c w = bitsum d w"
  unfolding bitsum_def by (rule xor_sum.cong) auto

lemma bitsum_and: "bitsum (\<lambda>n. m AND c n) w = m AND bitsum c w"
  by (simp add: bitsum_def and_const.map_xsum)

lemma bitsum_add: "bitsum (\<lambda>n. c n XOR d n) w = bitsum c w XOR bitsum d w"
  by (simp add: bitsum_def xor_sum.distrib)

section \<open>Parity\<close>

text \<open>
  \<open>par w\<close> says that an odd number of bits of \<open>w\<close> is set, and \<open>pmask w\<close> spreads
  that over a 32-bit mask. A constant selected by the mask is the sum of that constant
  over the set bits.
\<close>

definition par :: "'a::len word \<Rightarrow> bool" where
  "par w = odd (card {n. bit w n})"

definition pmask :: "'a::len word \<Rightarrow> ULONG" where
  "pmask w = (if par w then - 1 else 0)"

lemma and_pmask: "c AND pmask w = bitsum (\<lambda>_. c) w"
  by (simp add: pmask_def par_def bitsum_def xsum_const)

lemma pmask_bitsum: "pmask w = bitsum (\<lambda>_. - 1) w"
  using and_pmask [of "- 1" w] by simp

lemma pmask_xor: "pmask (a XOR b) = pmask a XOR pmask b"
  by (simp add: pmask_bitsum bitsum_xor)

interpretation pmask: xor_linear pmask
  by unfold_locales (rule pmask_xor)

lemma pmask_0 [simp]: "pmask 0 = 0"
  by (rule pmask.map_zero)

lemma par_zero [simp]: "\<not> par 0"
  by (simp add: par_def)

lemma par_pmask: "par w \<longleftrightarrow> pmask w = - 1"
  by (simp add: pmask_def)

lemma par_xor: "par (a XOR b) \<longleftrightarrow> par a \<noteq> par b"
  using pmask_xor [of a b] by (auto simp: pmask_def split: if_splits)

text \<open>Executable form: the parity as an alternating walk over the bit positions.\<close>

lemma card_bits_filter: "card {n. bit w n} = length (filter (bit w) [0..<LENGTH('a)])"
  for w :: "'a::len word"
proof -
  have "{n. bit w n} = set (filter (bit w) [0..<LENGTH('a)])"
    by (auto dest: bit_imp_le_length)
  then show ?thesis by (metis distinct_card distinct_filter distinct_upt)
qed

lemma par_code: "par w \<longleftrightarrow> odd (length (filter (bit w) [0..<LENGTH('a)]))"
  for w :: "'a::len word"
  by (simp add: par_def card_bits_filter)

section \<open>Linear maps are given by their values on single bits\<close>

lemma bit_xsum_exp:
  "finite A \<Longrightarrow> bit (xsum (\<lambda>b. 2 ^ b :: 'a::len word) A) n \<longleftrightarrow> n < LENGTH('a) \<and> n \<in> A"
  by (induction A rule: finite_induct) (auto simp: bit_xor_iff bit_exp_iff)

lemma bitsum_exp: "bitsum (\<lambda>b. 2 ^ b :: 'a word) w = w" for w :: "'a::len word"
proof (rule bit_word_eqI)
  fix n assume "n < LENGTH('a)"
  then show "bit (bitsum (\<lambda>b. 2 ^ b :: 'a word) w) n \<longleftrightarrow> bit w n"
    by (simp add: bitsum_def bit_xsum_exp)
qed

lemma bitsum_single: "n < LENGTH('a) \<Longrightarrow> bitsum c (2 ^ n :: 'a::len word) = c n"
proof -
  assume "n < LENGTH('a)"
  then have "{k. bit (2 ^ n :: 'a word) k} = {n}" by (auto simp: bit_exp_iff)
  then show ?thesis by (simp add: bitsum_def)
qed

lemma pmask_single: "n < LENGTH('a) \<Longrightarrow> pmask (2 ^ n :: 'a::len word) = - 1"
  by (simp add: pmask_bitsum bitsum_single)

context xor_linear
begin

lemma map_bits: "h w = bitsum (\<lambda>b. h (2 ^ b)) w"
proof -
  have "h (bitsum (\<lambda>b. 2 ^ b) w) = bitsum (\<lambda>b. h (2 ^ b)) w"
    unfolding bitsum_def by (rule map_xsum)
  then show ?thesis by (simp add: bitsum_exp)
qed

end

section \<open>Lanes\<close>

text \<open>
  \<open>lane k v\<close> is the \<open>k\<close>-th 32-bit part of a wider register: an element of the array
  view of a 64-bit integer, an \<open>__m128i\<close> or an \<open>__m256i\<close>.
\<close>

definition lane :: "nat \<Rightarrow> 'a::len word \<Rightarrow> ULONG" where
  "lane k v = ucast (drop_bit (32 * k) v)"

lemma bit_lane [bitwise]: "bit (lane k v) n \<longleftrightarrow> n < 32 \<and> bit v (32 * k + n)"
  by (auto simp: lane_def bit_unsigned_iff bit_drop_bit_eq)

lemma lane_xor: "lane k (a XOR b) = lane k a XOR lane k b"
  by (rule bit_word_eqI) (simp add: bitwise)

interpretation lane: xor_linear "lane k" for k
  by unfold_locales (rule lane_xor)

lemma lane_0 [simp]: "lane k 0 = 0"
  by (rule lane.map_zero)

lemma lane_load:
  assumes "8 * n = LENGTH('a::len)" and "k < n div 4" and "4 dvd n"
  shows "lane k (load_le (subbuf (n * i) n pb) :: 'a word) = dw_at pb (n div 4 * i + k)"
proof (rule bit_word_eqI)
  fix m assume "m < LENGTH(32)"
  then have m: "m < 32" by simp
  obtain q where q: "n = 4 * q" using assms(3) by blast
  have "(32 * k + m) div 8 = 4 * k + m div 8" and "(32 * k + m) mod 8 = m mod 8"
    by (simp_all add: div_add1_eq mod_add_left_eq [symmetric, of "32 * k"] mod_mult_left_eq [symmetric, of 32])
  moreover have "m div 8 < 4" using m by linarith
  ultimately show "bit (lane k (load_le (subbuf (n * i) n pb) :: 'a word)) m = bit (dw_at pb (n div 4 * i + k)) m"
    using m assms q by (auto simp: bitwise bit_load_subbuf dw_at_def algebra_simps)
qed

lemma lane_qw: "k < 2 \<Longrightarrow> lane k (qw_at pb i) = dw_at pb (2 * i + k)"
  using lane_load [of 8 k i pb, where 'a = 64] by (simp add: qw_at_def)

lemma lane_ow: "k < 4 \<Longrightarrow> lane k (ow_at pb i) = dw_at pb (4 * i + k)"
  using lane_load [of 16 k i pb, where 'a = 128] by (simp add: ow_at_def)

lemma lane_yw: "k < 8 \<Longrightarrow> lane k (yw_at pb i) = dw_at pb (8 * i + k)"
  using lane_load [of 32 k i pb, where 'a = 256] by (simp add: yw_at_def)

lemma bitsum_lanes:
  fixes v :: "'a::len word"
  assumes "LENGTH('a) = 32 * m"
  shows "bitsum c v = xsum (\<lambda>k. bitsum (\<lambda>n. c (32 * k + n)) (lane k v)) {..<m}"
proof -
  have "bitsum c v = xsum (c \<circ> (\<lambda>(k, n). 32 * k + n)) (SIGMA k:{..<m}. {n. bit (lane k v) n})"
    unfolding bitsum_def
  proof (rule xor_sum.reindex_cong)
    show "inj_on (\<lambda>(k, n). 32 * k + n) (SIGMA k:{..<m}. {n. bit (lane k v) n})"
      by (auto simp: inj_on_def bitwise radix_eq_iff)
    show "{n. bit v n} = (\<lambda>(k, n). 32 * k + n) ` (SIGMA k:{..<m}. {n. bit (lane k v) n})"
    proof (safe, goal_cases)
      case (1 j)
      then have "j < 32 * m" using assms bit_imp_le_length [of v j] by simp
      moreover have "j = 32 * (j div 32) + j mod 32" by simp
      ultimately have "(j div 32, j mod 32) \<in> (SIGMA k:{..<m}. {n. bit (lane k v) n})"
        using 1 by (auto simp: bitwise)
      then show ?case by (force simp: image_iff)
    qed (simp add: bitwise)
  qed simp
  also have "\<dots> = xsum (\<lambda>k. bitsum (\<lambda>n. c (32 * k + n)) (lane k v)) {..<m}"
    unfolding bitsum_def by (subst xor_sum.Sigma) (auto simp: comp_def case_prod_unfold)
  finally show ?thesis .
qed

lemma pmask_lanes:
  fixes v :: "'a::len word"
  assumes "LENGTH('a) = 32 * m"
  shows "pmask v = xsum (\<lambda>k. pmask (lane k v)) {..<m}"
  using bitsum_lanes [OF assms, of "\<lambda>_. - 1" v] by (simp add: pmask_bitsum)

end
