(* ===== verification/Checksum_Old.thy ===== *)
theory Checksum_Old
  imports Xor_Algebra
begin

unbundle bit_operations_syntax

text \<open>
  The old-format (exclusive-or) page checksum: the routines of
  \<^verbatim>\<open>dev/ese/src/checksum/checksum.cxx\<close> and \<^verbatim>\<open>checksum_amd64.cxx\<close> that read the buffer
  by 4, 8 and 16 bytes at a time. Each is proved equal to one specification, the
  exclusive or of all 32-bit words but the first with the seed, so that the choice made
  by \<^verbatim>\<open>ChecksumSelectOldFormat\<close> never changes a checksum.
\<close>

section \<open>The routines\<close>

text \<open>The loop \<open>while ( ( cbT -= cbStep ) >= 0 )\<close> over eight 32-bit words at a time.\<close>

function xor_dwords_loop :: "BYTE list \<Rightarrow> nat \<Rightarrow> int \<Rightarrow> ULONG \<Rightarrow> ULONG" where
  "xor_dwords_loop pb pdw cbT dwChecksum =
     (let cbT' = cbT - 32 in
      if cbT' \<ge> 0 then
        xor_dwords_loop pb (pdw + 8) cbT'
          (dwChecksum XOR (dw_at pb pdw XOR dw_at pb (pdw + 1) XOR dw_at pb (pdw + 2)
             XOR dw_at pb (pdw + 3) XOR dw_at pb (pdw + 4) XOR dw_at pb (pdw + 5)
             XOR dw_at pb (pdw + 6) XOR dw_at pb (pdw + 7)))
      else dwChecksum)"
  by pat_completeness auto
termination
  by (relation "measure (\<lambda>(pb, pdw, cbT, dw). nat cbT)") auto

definition ChecksumOldFormatSlowly :: "BYTE list \<Rightarrow> nat \<Rightarrow> ULONG" where
  "ChecksumOldFormatSlowly pb cb = xor_dwords_loop pb 0 (int cb) (0x89abcdef XOR dw_at pb 0)"

text \<open>The SSE routine adds prefetch hints to the same loop.\<close>

definition ChecksumOldFormatSSE :: "BYTE list \<Rightarrow> nat \<Rightarrow> ULONG" where
  "ChecksumOldFormatSSE pb cb = xor_dwords_loop pb 0 (int cb) (0x89abcdef XOR dw_at pb 0)"

function xor_qwords_loop :: "BYTE list \<Rightarrow> nat \<Rightarrow> int \<Rightarrow> QWORD \<Rightarrow> QWORD" where
  "xor_qwords_loop pb pqw cbT qwChecksum =
     (let cbT' = cbT - 32 in
      if cbT' \<ge> 0 then
        xor_qwords_loop pb (pqw + 4) cbT'
          ((((qwChecksum XOR qw_at pb pqw) XOR qw_at pb (pqw + 1)) XOR qw_at pb (pqw + 2))
             XOR qw_at pb (pqw + 3))
      else qwChecksum)"
  by pat_completeness auto
termination
  by (relation "measure (\<lambda>(pb, pqw, cbT, qw). nat cbT)") auto

definition ChecksumOldFormat64Bit :: "BYTE list \<Rightarrow> nat \<Rightarrow> ULONG" where
  "ChecksumOldFormat64Bit pb cb =
     (let qwChecksum = xor_qwords_loop pb 0 (int cb) (0 XOR (qw_at pb 0 AND 0x00000000FFFFFFFF));
          qwUpper = drop_bit (4 * 8) qwChecksum;
          qwLower = qwChecksum AND 0x00000000FFFFFFFF;
          qwChecksum' = qwUpper XOR qwLower
      in ucast qwChecksum' XOR 0x89abcdef)"

function xor_owords_loop :: "BYTE list \<Rightarrow> nat \<Rightarrow> int \<Rightarrow> 128 word \<Rightarrow> 128 word" where
  "xor_owords_loop pb pow cbT owChecksum =
     (let cbT' = cbT - 128 in
      if cbT' \<ge> 0 then
        let owChecksumT1 = ow_at pb pow XOR ow_at pb (pow + 1);
            owChecksumT2 = ow_at pb (pow + 2) XOR ow_at pb (pow + 3);
            owChecksumT3 = ow_at pb (pow + 4) XOR ow_at pb (pow + 5);
            owChecksumT4 = ow_at pb (pow + 6) XOR ow_at pb (pow + 7);
            owChecksumT1' = owChecksumT1 XOR owChecksumT2;
            owChecksumT3' = owChecksumT3 XOR owChecksumT4
        in xor_owords_loop pb (pow + 8) cbT' ((owChecksum XOR owChecksumT1') XOR owChecksumT3')
      else owChecksum)"
  by pat_completeness auto
termination
  by (relation "measure (\<lambda>(pb, pow, cbT, ow). nat cbT)") auto

definition ChecksumOldFormatSSE2 :: "BYTE list \<Rightarrow> nat \<Rightarrow> ULONG" where
  "ChecksumOldFormatSSE2 pb cb =
     (let ulChecksum = 0x89abcdef XOR dw_at pb 0;
          owChecksum = xor_owords_loop pb 0 (int cb) 0
      in ulChecksum XOR (lane 0 owChecksum XOR lane 1 owChecksum XOR lane 2 owChecksum XOR lane 3 owChecksum))"

text \<open>
  The processor features the selection looks at (\<^verbatim>\<open>FSSEInstructionsAvailable\<close> and its
  relatives report them), and the selection itself.
\<close>

record cpu =
  fSSE :: bool
  fSSE2 :: bool
  fPopcnt :: bool
  fAVX :: bool
  cbPointer :: nat

definition ChecksumSelectOldFormat :: "cpu \<Rightarrow> BYTE list \<Rightarrow> nat \<Rightarrow> ULONG" where
  "ChecksumSelectOldFormat c =
     (if fSSE c then (if fSSE2 c then ChecksumOldFormatSSE2 else ChecksumOldFormatSSE)
      else if cbPointer c = 4 * 2 then ChecksumOldFormat64Bit
      else ChecksumOldFormatSlowly)"

text \<open>Later calls go through the function pointer that the selection stored.\<close>

definition ChecksumOldFormat :: "cpu \<Rightarrow> BYTE list \<Rightarrow> nat \<Rightarrow> ULONG" where
  "ChecksumOldFormat c pb cb = ChecksumSelectOldFormat c pb cb"

declare xor_dwords_loop.simps [simp del] xor_qwords_loop.simps [simp del]
  xor_owords_loop.simps [simp del]

section \<open>Specification and equivalence\<close>

definition old_checksum_spec :: "BYTE list \<Rightarrow> nat \<Rightarrow> ULONG" where
  "old_checksum_spec pb cb = 0x89abcdef XOR foldr (\<lambda>i x. dw_at pb i XOR x) [1..<cb div 4] 0"

lemma xor_dwords_loop_eq:
  "xor_dwords_loop pb i (int (32 * m)) c = c XOR xsum (dw_at pb) {i..<i + 8 * m}"
proof (induction m arbitrary: i c)
  case 0
  then show ?case by (simp add: xor_dwords_loop.simps)
next
  case (Suc m)
  have "xsum (dw_at pb) {i..<i + 8 * Suc m} = xsum (dw_at pb) {i..<i + 8} XOR xsum (dw_at pb) {i + 8..<i + 8 + 8 * m}"
    by (subst xsum_split_at [of i "i + 8"]) (simp_all add: add.assoc)
  then show ?case
    by (subst xor_dwords_loop.simps) (simp add: Suc.IH [simplified] Let_def xsum_8 xor.assoc)
qed

lemma xor_qwords_loop_eq:
  "xor_qwords_loop pb i (int (32 * m)) c = c XOR xsum (qw_at pb) {i..<i + 4 * m}"
proof (induction m arbitrary: i c)
  case 0
  then show ?case by (simp add: xor_qwords_loop.simps)
next
  case (Suc m)
  have "xsum (qw_at pb) {i..<i + 4 * Suc m} = xsum (qw_at pb) {i..<i + 4} XOR xsum (qw_at pb) {i + 4..<i + 4 + 4 * m}"
    by (subst xsum_split_at [of i "i + 4"]) (simp_all add: add.assoc)
  then show ?case
    by (subst xor_qwords_loop.simps) (simp add: Suc.IH [simplified] Let_def xsum_4 xor.assoc)
qed

lemma xor_owords_loop_eq:
  "xor_owords_loop pb i (int (128 * m)) c = c XOR xsum (ow_at pb) {i..<i + 8 * m}"
proof (induction m arbitrary: i c)
  case 0
  then show ?case by (simp add: xor_owords_loop.simps)
next
  case (Suc m)
  have "xsum (ow_at pb) {i..<i + 8 * Suc m} = xsum (ow_at pb) {i..<i + 8} XOR xsum (ow_at pb) {i + 8..<i + 8 + 8 * m}"
    by (subst xsum_split_at [of i "i + 8"]) (simp_all add: add.assoc)
  then show ?case
    by (subst xor_owords_loop.simps) (simp add: Suc.IH [simplified] Let_def xsum_8 xor.assoc)
qed

text \<open>Folding the lanes of a wide sum gives the sum of the 32-bit words.\<close>

lemma fold_lanes_qw:
  "lane 0 (xsum (qw_at pb) {0..<n}) XOR lane 1 (xsum (qw_at pb) {0..<n}) = xsum (dw_at pb) {0..<2 * n}"
proof -
  have "{..<2} = {0, 1 :: nat}" by auto
  then have "xsum (dw_at pb) {..<2 * n} = xsum (\<lambda>m. lane 0 (qw_at pb m) XOR lane 1 (qw_at pb m)) {..<n}"
    by (simp add: xsum_blocks lane_qw)
  then show ?thesis
    by (simp add: lane.map_xsum xor_sum.distrib atLeast0LessThan)
qed

lemma fold_lanes_ow:
  "lane 0 (xsum (ow_at pb) {0..<n}) XOR lane 1 (xsum (ow_at pb) {0..<n})
     XOR lane 2 (xsum (ow_at pb) {0..<n}) XOR lane 3 (xsum (ow_at pb) {0..<n})
   = xsum (dw_at pb) {0..<4 * n}"
proof -
  have "{..<4} = {0, 1, 2, 3 :: nat}" by auto
  then have "xsum (dw_at pb) {..<4 * n} = xsum (\<lambda>m. lane 0 (ow_at pb m) XOR lane 1 (ow_at pb m)
      XOR lane 2 (ow_at pb m) XOR lane 3 (ow_at pb m)) {..<n}"
    by (simp add: xsum_blocks lane_ow)
  then show ?thesis
    by (simp add: lane.map_xsum xor_sum.distrib atLeast0LessThan)
qed

text \<open>
  The contract every old-format routine meets: on a whole number of \<open>step\<close>-byte
  strides it computes the specification.
\<close>

locale old_format =
  fixes checksum :: "BYTE list \<Rightarrow> nat \<Rightarrow> ULONG" and step :: nat
  assumes checksum_spec: "step dvd cb \<Longrightarrow> 0 < cb \<Longrightarrow> checksum pb cb = old_checksum_spec pb cb"
begin

text \<open>The stored checksum (the first word) does not influence the computed one.\<close>

lemma ignores_stored:
  assumes "step dvd cb" and "0 < cb" and "length pb = length pb'" and "drop 4 pb = drop 4 pb'"
  shows "checksum pb cb = checksum pb' cb"
proof -
  have "dw_at pb i = dw_at pb' i" if "i \<in> set [1..<cb div 4]" for i
  proof -
    have "drop (4 * i) pb = drop (4 * i) pb'" using that assms(4)
      by (metis (no_types, lifting) Suc_le_eq add_diff_inverse_nat drop_drop linorder_not_less mult_Suc_right
          mult_le_mono2 nat_mult_1_right One_nat_def atLeastLessThan_iff set_upt plus_1_eq_Suc le_add_diff_inverse2)
    then show ?thesis by (simp add: dw_at_def subbuf_def)
  qed
  then have "foldr (\<lambda>i x. dw_at pb i XOR x) [1..<cb div 4] 0 = foldr (\<lambda>i x. dw_at pb' i XOR x) [1..<cb div 4] 0"
    by (intro foldr_cong) auto
  then show ?thesis using assms by (simp add: checksum_spec old_checksum_spec_def)
qed

end

lemma xor_first_twice: "0 < n \<Longrightarrow> f 0 XOR xsum f {0..<n} = xsum f {1..<n}" for n :: nat
  by (simp add: xor_sum.atLeast_Suc_lessThan [of 0 n])

lemma old_spec_xsum:
  assumes "0 < cb" and "32 dvd cb"
  shows "old_checksum_spec pb cb = 0x89abcdef XOR (dw_at pb 0 XOR xsum (dw_at pb) {0..<cb div 4})"
proof -
  have "0 < cb div 4" using assms by auto
  then show ?thesis by (simp only: old_checksum_spec_def foldr_xsum xor_first_twice)
qed

interpretation slowly: old_format ChecksumOldFormatSlowly 32
proof
  fix cb :: nat and pb assume "32 dvd cb" and pos: "0 < cb"
  then obtain m where m: "cb = 32 * m" by blast
  then show "ChecksumOldFormatSlowly pb cb = old_checksum_spec pb cb"
    using pos old_spec_xsum [of cb pb] by (simp add: ChecksumOldFormatSlowly_def xor_dwords_loop_eq [simplified] xor.assoc)
qed

interpretation sse: old_format ChecksumOldFormatSSE 32
  using slowly.checksum_spec
  by unfold_locales (simp add: ChecksumOldFormatSSE_def ChecksumOldFormatSlowly_def)

lemma and_low32: "q AND 0xFFFFFFFF = take_bit 32 q" for q :: QWORD
  by (simp add: take_bit_eq_mask mask_eq_exp_minus_1)

lemma fold_64bit:
  "ucast (drop_bit 32 q XOR (q AND 0xFFFFFFFF)) = lane 0 q XOR lane 1 q" for q :: QWORD
  by (rule bit_word_eqI) (auto simp: bitwise and_low32 bit_take_bit_iff)

lemma lanes_low_half:
  "lane 0 (qw_at pb 0 AND 0xFFFFFFFF) = dw_at pb 0" "lane 1 (qw_at pb 0 AND 0xFFFFFFFF) = 0"
proof -
  have "lane 0 (qw_at pb 0 AND 0xFFFFFFFF) = lane 0 (qw_at pb 0)"
    by (rule bit_word_eqI) (simp add: bitwise and_low32 bit_take_bit_iff)
  then show "lane 0 (qw_at pb 0 AND 0xFFFFFFFF) = dw_at pb 0" by (simp add: lane_qw)
  show "lane 1 (qw_at pb 0 AND 0xFFFFFFFF) = 0"
    by (rule bit_word_eqI) (simp add: bitwise and_low32 bit_take_bit_iff)
qed

interpretation bit64: old_format ChecksumOldFormat64Bit 32
proof
  fix cb :: nat and pb assume "32 dvd cb" and pos: "0 < cb"
  then obtain m where m: "cb = 32 * m" by blast
  let ?q = "xsum (qw_at pb) {0..<4 * m}" and ?c = "qw_at pb 0 AND 0xFFFFFFFF"
  have "ChecksumOldFormat64Bit pb cb = (lane 0 (?c XOR ?q) XOR lane 1 (?c XOR ?q)) XOR 0x89abcdef"
    unfolding fold_64bit [symmetric]
    by (simp add: ChecksumOldFormat64Bit_def Let_def m xor_qwords_loop_eq [simplified])
  also have "\<dots> = (dw_at pb 0 XOR xsum (dw_at pb) {0..<8 * m}) XOR 0x89abcdef"
    using fold_lanes_qw [of pb "4 * m"] by (simp add: lane_xor lanes_low_half [simplified] xor.assoc)
  finally show "ChecksumOldFormat64Bit pb cb = old_checksum_spec pb cb"
    using pos old_spec_xsum [of cb pb] by (simp add: m xor.commute)
qed

interpretation sse2: old_format ChecksumOldFormatSSE2 128
proof
  fix cb :: nat and pb assume "128 dvd cb" and pos: "0 < cb"
  then obtain m where m: "cb = 128 * m" by blast
  have "32 dvd cb" by (simp add: m)
  then show "ChecksumOldFormatSSE2 pb cb = old_checksum_spec pb cb"
    using pos old_spec_xsum [of cb pb] fold_lanes_ow [of pb "8 * m"]
    by (simp add: ChecksumOldFormatSSE2_def Let_def m xor_owords_loop_eq [simplified] xor.assoc)
qed

text \<open>The selected routine meets the contract whatever the processor.\<close>

interpretation selected: old_format "ChecksumOldFormat c" 128 for c
proof
  fix cb :: nat and pb assume "128 dvd cb" and "0 < cb"
  moreover from this have "32 dvd cb" by auto
  ultimately show "ChecksumOldFormat c pb cb = old_checksum_spec pb cb"
    by (simp add: ChecksumOldFormat_def ChecksumSelectOldFormat_def slowly.checksum_spec
        sse.checksum_spec bit64.checksum_spec sse2.checksum_spec)
qed

end
