(* ===== verification/Checksum_New.thy ===== *)
theory Checksum_New
  imports Checksum_Old
begin

unbundle bit_operations_syntax

text \<open>
  The new-format (exclusive-or and error-correcting) block checksum: the routines of
  \<^verbatim>\<open>dev/ese/src/checksum/checksum_amd64.cxx\<close> and \<^verbatim>\<open>avx/checksum_avx.cxx\<close>, and the decoding
  of a mismatch in \<^verbatim>\<open>checksum.cxx\<close>. A routine reads \<open>cb\<close> bytes from \<open>pb\<close>, leaves out the
  first eight when \<open>fHeaderBlock\<close> is set, and returns a 64-bit value whose upper half is
  the error-correcting code and whose lower half is the exclusive or of the words with
  the page number.
\<close>

section \<open>Register operations\<close>

text \<open>
  The intrinsics the vector routines use, on registers read as sequences of 32-bit lanes.
\<close>

definition of_lanes :: "ULONG list \<Rightarrow> 'a::len word" where
  "of_lanes ls = word_of_int (horner_sum uint (2 ^ 32) ls)"

definition popcnt :: "'a::len word \<Rightarrow> nat" where
  "popcnt w = length (filter (bit w) [0..<LENGTH('a)])"

definition mm_shuffle_epi32 :: "128 word \<Rightarrow> nat \<Rightarrow> 128 word" where
  "mm_shuffle_epi32 dq imm = of_lanes (map (\<lambda>k. lane (imm div 4 ^ k mod 4) dq) [0..<4])"

definition mm_unpackhi_epi64 :: "128 word \<Rightarrow> 128 word \<Rightarrow> 128 word" where
  "mm_unpackhi_epi64 a b = of_lanes [lane 2 a, lane 3 a, lane 2 b, lane 3 b]"

definition mm256_swap_halves :: "256 word \<Rightarrow> 256 word" where
  "mm256_swap_halves qq = of_lanes (map (\<lambda>k. lane ((k + 4) mod 8) qq) [0..<8])"

definition mm256_of_halves :: "128 word \<Rightarrow> 128 word \<Rightarrow> 256 word" where
  "mm256_of_halves lo hi = of_lanes (map (\<lambda>k. lane k lo) [0..<4] @ map (\<lambda>k. lane k hi) [0..<4])"

section \<open>Parity of a word\<close>

definition g_bParityLookupTable :: "int list" where
  "g_bParityLookupTable = [
     0, - 1, - 1, 0, - 1, 0, 0, - 1, - 1, 0, 0, - 1, 0, - 1, - 1, 0,
     - 1, 0, 0, - 1, 0, - 1, - 1, 0, 0, - 1, - 1, 0, - 1, 0, 0, - 1,
     - 1, 0, 0, - 1, 0, - 1, - 1, 0, 0, - 1, - 1, 0, - 1, 0, 0, - 1,
     0, - 1, - 1, 0, - 1, 0, 0, - 1, - 1, 0, 0, - 1, 0, - 1, - 1, 0,
     - 1, 0, 0, - 1, 0, - 1, - 1, 0, 0, - 1, - 1, 0, - 1, 0, 0, - 1,
     0, - 1, - 1, 0, - 1, 0, 0, - 1, - 1, 0, 0, - 1, 0, - 1, - 1, 0,
     0, - 1, - 1, 0, - 1, 0, 0, - 1, - 1, 0, 0, - 1, 0, - 1, - 1, 0,
     - 1, 0, 0, - 1, 0, - 1, - 1, 0, 0, - 1, - 1, 0, - 1, 0, 0, - 1,
     - 1, 0, 0, - 1, 0, - 1, - 1, 0, 0, - 1, - 1, 0, - 1, 0, 0, - 1,
     0, - 1, - 1, 0, - 1, 0, 0, - 1, - 1, 0, 0, - 1, 0, - 1, - 1, 0,
     0, - 1, - 1, 0, - 1, 0, 0, - 1, - 1, 0, 0, - 1, 0, - 1, - 1, 0,
     - 1, 0, 0, - 1, 0, - 1, - 1, 0, 0, - 1, - 1, 0, - 1, 0, 0, - 1,
     0, - 1, - 1, 0, - 1, 0, 0, - 1, - 1, 0, 0, - 1, 0, - 1, - 1, 0,
     - 1, 0, 0, - 1, 0, - 1, - 1, 0, 0, - 1, - 1, 0, - 1, 0, 0, - 1,
     - 1, 0, 0, - 1, 0, - 1, - 1, 0, 0, - 1, - 1, 0, - 1, 0, 0, - 1,
     0, - 1, - 1, 0, - 1, 0, 0, - 1, - 1, 0, 0, - 1, 0, - 1, - 1, 0]"

definition lParityMask :: "ULONG \<Rightarrow> ULONG" where
  "lParityMask dw =
     (let dw1 = drop_bit 16 dw;
          dw2 = dw XOR dw1;
          dw3 = drop_bit 8 dw2;
          dw4 = dw2 XOR dw3
      in word_of_int (g_bParityLookupTable ! unat (dw4 AND 0xff)))"

definition lParityMask128 :: "128 word \<Rightarrow> ULONG" where
  "lParityMask128 dq =
     (let dq1 = mm_shuffle_epi32 dq 0x4e;
          dq2 = dq XOR dq1;
          dq3 = mm_shuffle_epi32 dq2 0x1b;
          dq4 = dq2 XOR dq3
      in lParityMask (lane 0 dq4))"

definition lParityMaskPopcnt :: "ULONG \<Rightarrow> ULONG" where
  "lParityMaskPopcnt dw = - (word_of_nat (popcnt dw) AND 1)"

definition lParityMaskPopcnt128 :: "128 word \<Rightarrow> ULONG" where
  "lParityMaskPopcnt128 dq =
     (let dq1 = mm_shuffle_epi32 dq 0x4e;
          dq2 = dq XOR dq1
      in - (word_of_nat (popcnt (ucast dq2 :: QWORD)) AND 1))"

definition lParityMaskAVX :: "256 word \<Rightarrow> ULONG" where
  "lParityMaskAVX qq =
     (let qq1 = mm256_swap_halves qq;
          dq2 = ucast (qq1 XOR qq) :: 128 word;
          dq3 = mm_shuffle_epi32 dq2 0x4e;
          dq4 = dq3 XOR dq2
      in - (word_of_nat (popcnt (ucast dq4 :: QWORD)) AND 1))"

definition g_bECCLookupTable :: "nat list" where
  "g_bECCLookupTable = [
     0x00, 0x70, 0x61, 0x11, 0x52, 0x22, 0x33, 0x43, 0x43, 0x33, 0x22, 0x52, 0x11, 0x61, 0x70, 0x00,
     0x34, 0x44, 0x55, 0x25, 0x66, 0x16, 0x07, 0x77, 0x77, 0x07, 0x16, 0x66, 0x25, 0x55, 0x44, 0x34,
     0x25, 0x55, 0x44, 0x34, 0x77, 0x07, 0x16, 0x66, 0x66, 0x16, 0x07, 0x77, 0x34, 0x44, 0x55, 0x25,
     0x11, 0x61, 0x70, 0x00, 0x43, 0x33, 0x22, 0x52, 0x52, 0x22, 0x33, 0x43, 0x00, 0x70, 0x61, 0x11,
     0x16, 0x66, 0x77, 0x07, 0x44, 0x34, 0x25, 0x55, 0x55, 0x25, 0x34, 0x44, 0x07, 0x77, 0x66, 0x16,
     0x22, 0x52, 0x43, 0x33, 0x70, 0x00, 0x11, 0x61, 0x61, 0x11, 0x00, 0x70, 0x33, 0x43, 0x52, 0x22,
     0x33, 0x43, 0x52, 0x22, 0x61, 0x11, 0x00, 0x70, 0x70, 0x00, 0x11, 0x61, 0x22, 0x52, 0x43, 0x33,
     0x07, 0x77, 0x66, 0x16, 0x55, 0x25, 0x34, 0x44, 0x44, 0x34, 0x25, 0x55, 0x16, 0x66, 0x77, 0x07,
     0x07, 0x77, 0x66, 0x16, 0x55, 0x25, 0x34, 0x44, 0x44, 0x34, 0x25, 0x55, 0x16, 0x66, 0x77, 0x07,
     0x33, 0x43, 0x52, 0x22, 0x61, 0x11, 0x00, 0x70, 0x70, 0x00, 0x11, 0x61, 0x22, 0x52, 0x43, 0x33,
     0x22, 0x52, 0x43, 0x33, 0x70, 0x00, 0x11, 0x61, 0x61, 0x11, 0x00, 0x70, 0x33, 0x43, 0x52, 0x22,
     0x16, 0x66, 0x77, 0x07, 0x44, 0x34, 0x25, 0x55, 0x55, 0x25, 0x34, 0x44, 0x07, 0x77, 0x66, 0x16,
     0x11, 0x61, 0x70, 0x00, 0x43, 0x33, 0x22, 0x52, 0x52, 0x22, 0x33, 0x43, 0x00, 0x70, 0x61, 0x11,
     0x25, 0x55, 0x44, 0x34, 0x77, 0x07, 0x16, 0x66, 0x66, 0x16, 0x07, 0x77, 0x34, 0x44, 0x55, 0x25,
     0x34, 0x44, 0x55, 0x25, 0x66, 0x16, 0x07, 0x77, 0x77, 0x07, 0x16, 0x66, 0x25, 0x55, 0x44, 0x34,
     0x00, 0x70, 0x61, 0x11, 0x52, 0x22, 0x33, 0x43, 0x43, 0x33, 0x22, 0x52, 0x11, 0x61, 0x70, 0x00]"

definition lECCLookup8bit :: "ULONG \<Rightarrow> ULONG" where
  "lECCLookup8bit byte = word_of_nat (g_bECCLookupTable ! unat (byte AND 0xff))"

definition MakeChecksumFromECCXORAndPgno :: "ULONG \<Rightarrow> ULONG \<Rightarrow> ULONG \<Rightarrow> QWORD" where
  "MakeChecksumFromECCXORAndPgno eccChecksum xorChecksum pgno =
     (let low = ucast (xorChecksum XOR pgno);
          high = push_bit 32 (ucast eccChecksum)
      in high OR low)"

section \<open>32-bit routines\<close>

text \<open>
  The loop body from the label \<open>Start\<close> on. The first two words of the row come in from
  outside: zeros when the loop is entered by the \<open>goto\<close> of a header block, otherwise what
  the head of the loop reads. One round handles two rows of 128 bits.
\<close>

definition ecc_row_step :: "BYTE list \<Rightarrow> nat \<Rightarrow> ULONG \<Rightarrow> ULONG \<times> ULONG \<times> ULONG \<times> ULONG \<times> ULONG
    \<Rightarrow> ULONG \<Rightarrow> ULONG \<Rightarrow> ULONG \<times> ULONG \<times> ULONG \<times> ULONG \<times> ULONG \<times> ULONG" where
  "ecc_row_step pb i idxp = (\<lambda>(p, p0, p1, p2, p3) pT0 pT1.
     let pT2 = dw_at pb (i + 2);
         pT3 = dw_at pb (i + 3);
         p0 = p0 XOR pT0; p1 = p1 XOR pT1; p2 = p2 XOR pT2; p3 = p3 XOR pT3;
         p = p XOR (idxp AND lParityMask (pT0 XOR pT1 XOR pT2 XOR pT3));
         idxp = idxp + 0xff800080;
         pT4 = dw_at pb (i + 4);
         pT5 = dw_at pb (i + 5);
         pT6 = dw_at pb (i + 6);
         pT7 = dw_at pb (i + 7);
         p0 = p0 XOR pT4; p1 = p1 XOR pT5; p2 = p2 XOR pT6; p3 = p3 XOR pT7;
         p = p XOR (idxp AND lParityMask (pT4 XOR pT5 XOR pT6 XOR pT7));
         idxp = idxp + 0xff800080
     in (idxp, p, p0, p1, p2, p3))"

function ecc_rows :: "BYTE list \<Rightarrow> nat \<Rightarrow> nat \<Rightarrow> ULONG \<Rightarrow> ULONG \<times> ULONG \<times> ULONG \<times> ULONG \<times> ULONG
    \<Rightarrow> ULONG \<Rightarrow> ULONG \<Rightarrow> ULONG \<times> ULONG \<times> ULONG \<times> ULONG \<times> ULONG" where
  "ecc_rows pb cdw i idxp acc pT0 pT1 =
     (case ecc_row_step pb i idxp acc pT0 pT1 of (idxp', acc') \<Rightarrow>
        (if i + 8 < cdw
         then ecc_rows pb cdw (i + 8) idxp' acc' (dw_at pb (i + 8)) (dw_at pb (i + 8 + 1))
         else acc'))"
  by pat_completeness auto
termination
  by (relation "measure (\<lambda>(pb, cdw, i, idxp, acc, pT0, pT1). cdw - i)") auto

text \<open>The loop \<open>for ( ULONG i = 1; i; i += i )\<close> over the column parity bits.\<close>

function ecc_columns :: "ULONG \<Rightarrow> ULONG \<Rightarrow> ULONG \<Rightarrow> ULONG \<Rightarrow> ULONG" where
  "ecc_columns r2 i idxr r =
     (if i \<noteq> 0 then
        let mask = (if r2 AND i \<noteq> 0 then - 1 else 0)
        in ecc_columns r2 (i + i) (idxr + 0xffff0001) (r XOR (mask AND idxr))
      else r)"
  by pat_completeness auto
termination
proof (relation "measure (\<lambda>(r2, i, idxr, r). LEAST k. push_bit k i = 0)", goal_cases)
  case (2 r2 i idxr r mask)
  define L where "L = (LEAST k. push_bit k i = 0)"
  have "push_bit 32 i = 0"
    by (rule bit_word_eqI) (auto simp: bit_push_bit_iff dest: bit_imp_le_length)
  then have L: "push_bit L i = 0" unfolding L_def by (rule LeastI)
  with 2 obtain m where m: "L = Suc m" by (cases L) auto
  have "push_bit m (i + i) = 0" using L by (simp add: m push_bit_double mult_2 [symmetric] mult.commute)
  then have "(LEAST k. push_bit k (i + i) = 0) \<le> m" by (rule Least_le)
  then show ?case using m by (simp add: L_def)
qed simp

definition ecc_size_mask :: "nat \<Rightarrow> ULONG" where
  "ecc_size_mask cb = push_bit 19 (word_of_nat cb) - 1"

text \<open>
  From the accumulated column parity \<open>p0\<close>, \<open>p1\<close>, \<open>p2\<close>, \<open>p3\<close> to the finished code and the
  32-bit column parity \<open>r2\<close>.
\<close>

definition ecc_finish :: "nat \<Rightarrow> ULONG \<times> ULONG \<times> ULONG \<times> ULONG \<times> ULONG \<Rightarrow> ULONG \<times> ULONG" where
  "ecc_finish cb = (\<lambda>(p, p0, p1, p2, p3).
     let p = p OR (0x00400000 AND lParityMask (p0 XOR p1));
         p = p OR (0x00000040 AND lParityMask (p2 XOR p3));
         r0 = p0 XOR p2;
         r1 = p1 XOR p3;
         p = p OR (0x00200000 AND lParityMask r0);
         p = p OR (0x00000020 AND lParityMask r1);
         r2 = r0 XOR r1;
         r = ecc_columns r2 1 0xffff0000 0;
         mask = ecc_size_mask cb
     in (((p AND 0xffe0ffe0) AND mask) OR (r AND 0x001f001f), r2))"

definition ChecksumNewFormatSlowly :: "BYTE list \<Rightarrow> nat \<Rightarrow> ULONG \<Rightarrow> bool \<Rightarrow> QWORD" where
  "ChecksumNewFormatSlowly pb cb pgno fHeaderBlock =
     (let cdw = cb div 4;
          pT = (if fHeaderBlock then (0, 0) else (dw_at pb 0, dw_at pb 1));
          acc = ecc_rows pb cdw 0 0xff800000 (0, 0, 0, 0, 0) (fst pT) (snd pT);
          (ecc, xor) = ecc_finish cb acc
      in MakeChecksumFromECCXORAndPgno ecc xor pgno)"

text \<open>The SSE routine adds prefetch hints to the same statements.\<close>

definition ChecksumNewFormatSSE :: "BYTE list \<Rightarrow> nat \<Rightarrow> ULONG \<Rightarrow> bool \<Rightarrow> QWORD" where
  "ChecksumNewFormatSSE pb cb pgno fHeaderBlock =
     (let cdw = cb div 4;
          pT = (if fHeaderBlock then (0, 0) else (dw_at pb 0, dw_at pb 1));
          acc = ecc_rows pb cdw 0 0xff800000 (0, 0, 0, 0, 0) (fst pT) (snd pT);
          (ecc, xor) = ecc_finish cb acc
      in MakeChecksumFromECCXORAndPgno ecc xor pgno)"

text \<open>The basic routine computes the exclusive or in a second pass.\<close>

definition DwXORChecksumBasic :: "BYTE list \<Rightarrow> nat \<Rightarrow> ULONG" where
  "DwXORChecksumBasic pb cb = xor_dwords_loop pb 0 (int cb) (dw_at pb 0 XOR dw_at pb 1)"

definition ChecksumNewFormatBasic :: "BYTE list \<Rightarrow> nat \<Rightarrow> ULONG \<Rightarrow> bool \<Rightarrow> QWORD" where
  "ChecksumNewFormatBasic pb cb pgno fHeaderBlock =
     (let cdw = cb div 4;
          pT = (if fHeaderBlock then (0, 0) else (dw_at pb 0, dw_at pb 1));
          acc = ecc_rows pb cdw 0 0xff800000 (0, 0, 0, 0, 0) (fst pT) (snd pT);
          (eccChecksum, r2) = ecc_finish cb acc;
          xorChecksum = DwXORChecksumBasic pb cb
      in MakeChecksumFromECCXORAndPgno eccChecksum xorChecksum pgno)"

section \<open>64-bit routine\<close>

definition ChecksumNewFormat64Bit :: "BYTE list \<Rightarrow> nat \<Rightarrow> ULONG \<Rightarrow> bool \<Rightarrow> QWORD" where
  "ChecksumNewFormat64Bit pb cb pgno fHeaderBlock =
     (let cColumn = 32;
          cRow = cb div (cColumn div 8);
          (p, q, dwColumnParity) =
            fold (\<lambda>iRow (p, q, dwColumnParity).
                let dwRow = dw_at pb iRow;
                    dwColumnParity = dwColumnParity XOR dwRow;
                    maskRow = lParityMask dwRow
                in (p XOR (maskRow AND word_of_nat iRow), q XOR (maskRow AND NOT (word_of_nat iRow)), dwColumnParity))
              [(if fHeaderBlock then 2 else 0)..<cRow] (0, 0, 0);
          (r, s) =
            fold (\<lambda>iColumn (r, s).
                let maskColumn = (if dwColumnParity AND push_bit iColumn 1 \<noteq> 0 then - 1 else 0)
                in (r XOR (maskColumn AND word_of_nat iColumn), s XOR (maskColumn AND NOT (word_of_nat iColumn))))
              [0..<cColumn] (0, 0);
          ulEcc = push_bit 21 (q AND (word_of_nat cRow - 1)) OR push_bit 16 (s AND (word_of_nat cColumn - 1))
                    OR push_bit 5 (p AND (word_of_nat cRow - 1)) OR push_bit 0 (r AND (word_of_nat cColumn - 1)) OR 0;
          ulXor = dwColumnParity
      in MakeChecksumFromECCXORAndPgno ulEcc ulXor pgno)"

section \<open>Vector routines\<close>

datatype ChecksumParityMaskFunc = ParityMaskFuncDefault | ParityMaskFuncPopcnt

definition parity128 :: "ChecksumParityMaskFunc \<Rightarrow> 128 word \<Rightarrow> ULONG" where
  "parity128 f dq = (if f = ParityMaskFuncPopcnt then lParityMaskPopcnt128 dq else lParityMask128 dq)"

definition parity32 :: "ChecksumParityMaskFunc \<Rightarrow> ULONG \<Rightarrow> ULONG" where
  "parity32 f dw = (if f = ParityMaskFuncPopcnt then lParityMaskPopcnt dw else lParityMask dw)"

definition ecc_row_step128 :: "ChecksumParityMaskFunc \<Rightarrow> BYTE list \<Rightarrow> nat \<Rightarrow> ULONG
    \<Rightarrow> ULONG \<times> 128 word \<times> 128 word \<times> 128 word \<times> 128 word \<Rightarrow> 128 word
    \<Rightarrow> ULONG \<times> ULONG \<times> 128 word \<times> 128 word \<times> 128 word \<times> 128 word" where
  "ecc_row_step128 f pb i idxp = (\<lambda>(p, dq0, dq1, dq2, dq3) dqL0.
     let dqL1 = ow_at pb (i + 1);
         dqL2 = ow_at pb (i + 2);
         dqL3 = ow_at pb (i + 3);
         dq0 = dq0 XOR dqL0; dq1 = dq1 XOR dqL1; dq2 = dq2 XOR dqL2; dq3 = dq3 XOR dqL3;
         dqLAcc = dqL0 XOR dqL1 XOR dqL2 XOR dqL3;
         p = p XOR (idxp AND parity128 f dqLAcc);
         idxp = idxp + 0xfe000200;
         dqH0 = ow_at pb (i + 4);
         dqH1 = ow_at pb (i + 5);
         dqH2 = ow_at pb (i + 6);
         dqH3 = ow_at pb (i + 7);
         dq0 = dq0 XOR dqH0; dq1 = dq1 XOR dqH1; dq2 = dq2 XOR dqH2; dq3 = dq3 XOR dqH3;
         dqHAcc = dqH0 XOR dqH1 XOR dqH2 XOR dqH3;
         p = p XOR (idxp AND parity128 f dqHAcc);
         idxp = idxp + 0xfe000200
     in (idxp, p, dq0, dq1, dq2, dq3))"

function ecc_rows128 :: "ChecksumParityMaskFunc \<Rightarrow> BYTE list \<Rightarrow> nat \<Rightarrow> nat \<Rightarrow> ULONG
    \<Rightarrow> ULONG \<times> 128 word \<times> 128 word \<times> 128 word \<times> 128 word \<Rightarrow> 128 word
    \<Rightarrow> ULONG \<times> 128 word \<times> 128 word \<times> 128 word \<times> 128 word" where
  "ecc_rows128 f pb cdq i idxp acc dqL0 =
     (case ecc_row_step128 f pb i idxp acc dqL0 of (idxp', acc') \<Rightarrow>
        (if i + 8 < cdq then ecc_rows128 f pb cdq (i + 8) idxp' acc' (ow_at pb (i + 8)) else acc'))"
  by pat_completeness auto
termination
  by (relation "measure (\<lambda>(f, pb, cdq, i, idxp, acc, dqL0). cdq - i)") auto

text \<open>The four bytes of the column parity, then the table for the last three bits.\<close>

definition ecc_bytes :: "(ULONG \<Rightarrow> ULONG) \<Rightarrow> ULONG \<Rightarrow> ULONG" where
  "ecc_bytes parity dw0 =
     (let (r, byteT, byte0, idxr) =
            fold (\<lambda>i (r, byteT, byte0, idxr).
                (r XOR (idxr AND parity (byteT AND 0xff)), drop_bit 8 byteT, byte0 XOR byteT, idxr + 0xfff80008))
              [0..<4] (0, dw0, 0, 0xfff80000);
          bits = lECCLookup8bit byte0;
          r = r OR (bits AND 0x07);
          r = r OR (push_bit 12 bits AND 0x00070000)
      in r)"

definition ChecksumNewFormatSSE2 :: "ChecksumParityMaskFunc \<Rightarrow> BYTE list \<Rightarrow> nat \<Rightarrow> ULONG \<Rightarrow> bool \<Rightarrow> QWORD" where
  "ChecksumNewFormatSSE2 f pb cb pgno fHeaderBlock =
     (let cdq = cb div 16;
          dqL0 = (if fHeaderBlock then mm_unpackhi_epi64 0 (ow_at pb 0) else ow_at pb 0);
          (p, dq0, dq1, dq2, dq3) = ecc_rows128 f pb cdq 0 0xfe000000 (0, 0, 0, 0, 0) dqL0;
          pdw = map (\<lambda>k. lane k dq0) [0..<4] @ map (\<lambda>k. lane k dq1) [0..<4]
                  @ map (\<lambda>k. lane k dq2) [0..<4] @ map (\<lambda>k. lane k dq3) [0..<4];
          (q, dw0, idxq) =
            fold (\<lambda>i (q, dw0, idxq).
                let dwT = pdw ! i
                in (q XOR (idxq AND parity32 f dwT), dw0 XOR dwT, idxq + 0xffe00020))
              [0..<16] (0, 0, 0xffe00000);
          r = ecc_bytes (parity32 f) dw0;
          mask = ecc_size_mask cb;
          ecc = ((p AND 0xfe00fe00) AND mask) OR (q AND 0x01e001e0) OR (r AND 0x001f001f)
      in MakeChecksumFromECCXORAndPgno ecc dw0 pgno)"

definition ecc_row_step256 :: "BYTE list \<Rightarrow> nat \<Rightarrow> ULONG
    \<Rightarrow> ULONG \<times> 256 word \<times> 256 word \<times> 256 word \<times> 256 word \<Rightarrow> 256 word
    \<Rightarrow> ULONG \<times> ULONG \<times> 256 word \<times> 256 word \<times> 256 word \<times> 256 word" where
  "ecc_row_step256 pb i idxp = (\<lambda>(p, qq0, qq1, qq2, qq3) qqL0.
     let qqL1 = yw_at pb (i + 1);
         qqL2 = yw_at pb (i + 2);
         qqL3 = yw_at pb (i + 3);
         qq0 = qq0 XOR qqL0; qq1 = qq1 XOR qqL1; qq2 = qq2 XOR qqL2; qq3 = qq3 XOR qqL3;
         qqLAcc = qqL0 XOR qqL1 XOR qqL2 XOR qqL3;
         p = p XOR (idxp AND lParityMaskAVX qqLAcc);
         idxp = idxp + 0xfc000400
     in (idxp, p, qq0, qq1, qq2, qq3))"

function ecc_rows256 :: "BYTE list \<Rightarrow> nat \<Rightarrow> nat \<Rightarrow> ULONG
    \<Rightarrow> ULONG \<times> 256 word \<times> 256 word \<times> 256 word \<times> 256 word \<Rightarrow> 256 word
    \<Rightarrow> ULONG \<times> 256 word \<times> 256 word \<times> 256 word \<times> 256 word" where
  "ecc_rows256 pb cqq i idxp acc qqL0 =
     (case ecc_row_step256 pb i idxp acc qqL0 of (idxp', acc') \<Rightarrow>
        (if i + 4 < cqq then ecc_rows256 pb cqq (i + 4) idxp' acc' (yw_at pb (i + 4)) else acc'))"
  by pat_completeness auto
termination
  by (relation "measure (\<lambda>(pb, cqq, i, idxp, acc, qqL0). cqq - i)") auto

definition ChecksumNewFormatAVX :: "BYTE list \<Rightarrow> nat \<Rightarrow> ULONG \<Rightarrow> bool \<Rightarrow> QWORD" where
  "ChecksumNewFormatAVX pb cb pgno fHeaderBlock =
     (let cqq = cb div 32;
          qqL0 = (if fHeaderBlock then mm256_of_halves (mm_unpackhi_epi64 0 (ow_at pb 0)) (ow_at pb 1)
                  else yw_at pb 0);
          (p, qq0, qq1, qq2, qq3) = ecc_rows256 pb cqq 0 0xfc000000 (0, 0, 0, 0, 0) qqL0;
          qqAcc = qq0 XOR qq1 XOR qq2 XOR qq3;
          idxq = 0xff000000;
          q = 0 XOR (idxq AND lParityMaskAVX qq0);
          idxq = idxq + 0xff000100;
          q = q XOR (idxq AND lParityMaskAVX qq1);
          idxq = idxq + 0xff000100;
          q = q XOR (idxq AND lParityMaskAVX qq2);
          idxq = idxq + 0xff000100;
          q = q XOR (idxq AND lParityMaskAVX qq3);
          (q', dwAcc, idxq') =
            fold (\<lambda>i (q', dwAcc, idxq').
                let dwT = lane i qqAcc
                in (q' XOR (idxq' AND - (word_of_nat (popcnt dwT) AND 1)), dwAcc XOR dwT, idxq' + 0xffe00020))
              [0..<8] (0, 0, 0xffe00000);
          r = ecc_bytes lParityMaskPopcnt dwAcc;
          mask = ecc_size_mask cb;
          ecc = ((p AND 0xfc00fc00) AND mask) OR (q AND 0x03000300) OR (q' AND 0x00e000e0) OR (r AND 0x001f001f)
      in MakeChecksumFromECCXORAndPgno ecc dwAcc pgno)"

section \<open>Selection\<close>

definition ChecksumSelectNewFormat :: "cpu \<Rightarrow> BYTE list \<Rightarrow> nat \<Rightarrow> ULONG \<Rightarrow> bool \<Rightarrow> QWORD" where
  "ChecksumSelectNewFormat c =
     (if fAVX c \<and> fPopcnt c then ChecksumNewFormatAVX
      else if fSSE c then
        (if fSSE2 c then
           (if fPopcnt c then ChecksumNewFormatSSE2 ParityMaskFuncPopcnt
            else ChecksumNewFormatSSE2 ParityMaskFuncDefault)
         else ChecksumNewFormatSSE)
      else if cbPointer c = 4 * 2 then ChecksumNewFormat64Bit
      else ChecksumNewFormatSlowly)"

definition ChecksumNewFormat :: "cpu \<Rightarrow> BYTE list \<Rightarrow> nat \<Rightarrow> ULONG \<Rightarrow> bool \<Rightarrow> QWORD" where
  "ChecksumNewFormat c pb cb pgno fHeaderBlock = ChecksumSelectNewFormat c pb cb pgno fHeaderBlock"

section \<open>Decoding a mismatch\<close>

definition DwECCChecksumFromXEChecksum :: "QWORD \<Rightarrow> ULONG" where
  "DwECCChecksumFromXEChecksum checksum = ucast (drop_bit 32 checksum)"

definition DwXORChecksumFromXEChecksum :: "QWORD \<Rightarrow> ULONG" where
  "DwXORChecksumFromXEChecksum checksum = ucast (checksum AND 0xffffffff)"

definition CbitSet :: "ULONG \<Rightarrow> nat" where
  "CbitSet dw = fold (\<lambda>ibit cbit. if dw AND push_bit ibit 1 \<noteq> 0 then cbit + 1 else cbit) [0..<32] 0"

definition FECCErrorIsCorrectable32 :: "nat \<Rightarrow> ULONG \<Rightarrow> ULONG \<Rightarrow> bool" where
  "FECCErrorIsCorrectable32 cb dwECCChecksumExpected dwECCChecksumActual =
     (let dwEcc = dwECCChecksumActual XOR dwECCChecksumExpected;
          ulMask = push_bit 3 (word_of_nat cb) - 1;
          ulX = (drop_bit 16 dwEcc XOR dwEcc) AND ulMask
      in ulMask = ulX)"

definition FECCErrorIsCorrectable :: "nat \<Rightarrow> QWORD \<Rightarrow> QWORD \<Rightarrow> bool" where
  "FECCErrorIsCorrectable cb xeChecksumExpected xeChecksumActual =
     (let dwECCChecksumExpected = DwECCChecksumFromXEChecksum xeChecksumExpected;
          dwECCChecksumActual = DwECCChecksumFromXEChecksum xeChecksumActual
      in if FECCErrorIsCorrectable32 cb dwECCChecksumExpected dwECCChecksumActual then
           let dwXor = DwXORChecksumFromXEChecksum xeChecksumActual XOR DwXORChecksumFromXEChecksum xeChecksumExpected
           in 1 = CbitSet dwXor
         else False)"

definition ulMax :: ULONG where
  "ulMax = 0xffffffff"

definition IbitCorrupted32 :: "nat \<Rightarrow> ULONG \<Rightarrow> ULONG \<Rightarrow> ULONG" where
  "IbitCorrupted32 cb dwECCChecksumExpected dwECCChecksumActual =
     (let dwEcc = dwECCChecksumActual XOR dwECCChecksumExpected
      in if dwEcc = 0 then ulMax
         else
           let ibitCorrupted = dwEcc AND 0xffff;
               ibCorrupted = ibitCorrupted div 8
           in if unat ibCorrupted \<ge> cb then ulMax else ibitCorrupted)"

definition IbitCorrupted :: "nat \<Rightarrow> QWORD \<Rightarrow> QWORD \<Rightarrow> ULONG" where
  "IbitCorrupted cb xeChecksumExpected xeChecksumActual =
     IbitCorrupted32 cb (DwECCChecksumFromXEChecksum xeChecksumExpected) (DwECCChecksumFromXEChecksum xeChecksumActual)"

declare ecc_rows.simps [simp del] ecc_columns.simps [simp del] ecc_rows128.simps [simp del]
  ecc_rows256.simps [simp del]

end
