(* ===== verification/Checksum_Ecc.thy ===== *)
theory Checksum_Ecc
  imports Checksum_New
begin

unbundle bit_operations_syntax

text \<open>
  The error-correcting checksum routines compute one function. The specification
  \<open>new_checksum_spec\<close> says what the code is: every set bit of the block contributes its own
  bit number in the low half of the code and the complement of that number, cut to the
  size of the block, in the high half. Every routine of \<open>Checksum_New\<close> is proved equal to
  it, so the choice made by \<^verbatim>\<open>ChecksumSelectNewFormat\<close> never changes a checksum.
\<close>

section \<open>Tables that are exclusive-or sums over the bits of the index\<close>

lemma bitsum_drop: "bitsum c (drop_bit n w) = xsum (\<lambda>m. c (m - n)) {m. n \<le> m \<and> bit w m}"
  for w :: "'a::len word"
  unfolding bitsum_def
proof (rule xor_sum.reindex_cong [where l = "\<lambda>m. m - n"])
  show "inj_on (\<lambda>m. m - n) {m. n \<le> m \<and> bit w m}"
    by (auto simp: inj_on_def)
  show "{m. bit (drop_bit n w) m} = (\<lambda>m. m - n) ` {m. n \<le> m \<and> bit w m}"
    by (auto simp: bit_drop_bit_eq image_iff) (metis add_diff_cancel_left' le_add1)
qed simp

lemma bitsum_take_drop:
  "bitsum c w = bitsum c (take_bit n w) XOR bitsum (\<lambda>m. c (n + m)) (drop_bit n w)" for w :: "'a::len word"
proof -
  have "{m. bit w m} = {m. bit (take_bit n w) m} \<union> {m. n \<le> m \<and> bit w m}"
    by (auto simp: bit_take_bit_iff)
  moreover have "{m. bit (take_bit n w) m} \<inter> {m. n \<le> m \<and> bit w m} = {}"
    by (auto simp: bit_take_bit_iff)
  moreover have "finite {m. n \<le> m \<and> bit w m}" by (rule finite_subset [OF _ finite_bits [of w]]) auto
  ultimately have "bitsum c w = bitsum c (take_bit n w) XOR xsum c {m. n \<le> m \<and> bit w m}"
    unfolding bitsum_def by (simp add: xor_sum.union_disjoint)
  moreover have "xsum c {m. n \<le> m \<and> bit w m} = bitsum (\<lambda>m. c (n + m)) (drop_bit n w)"
    unfolding bitsum_drop by (rule xor_sum.cong) auto
  ultimately show ?thesis by simp
qed

lemma bitsum_half: "bitsum c w = (if odd w then c 0 else 0) XOR bitsum (\<lambda>k. c (Suc k)) (drop_bit 1 w)"
  for w :: "'a::len word"
proof -
  have "{m. bit (take_bit 1 w) m} = (if odd w then {0} else {})"
    by (auto simp: bit_take_bit_iff bit_0)
  then have "bitsum c (take_bit 1 w) = (if odd w then c 0 else 0)"
    by (simp add: bitsum_def)
  then show ?thesis using bitsum_take_drop [of c w 1] by simp
qed

fun lin_table :: "'b::len word list \<Rightarrow> 'b word list" where
  "lin_table [] = [0]"
| "lin_table (c # cs) = concat (map (\<lambda>x. [x, x XOR c]) (lin_table cs))"

lemma nth_pairs:
  "n < 2 * length xs \<Longrightarrow> concat (map (\<lambda>x. [f x, g x]) xs) ! n = (if even n then f else g) (xs ! (n div 2))"
proof (induction xs arbitrary: n)
  case (Cons x xs)
  show ?case
  proof (cases "n < 2")
    case True
    then have "n = 0 \<or> n = 1" by auto
    then show ?thesis by auto
  next
    case False
    then obtain m where "n = Suc (Suc m)" by (metis One_nat_def Suc_1 add_2_eq_Suc le_Suc_ex linorder_not_less)
    then show ?thesis using Cons by simp
  qed
qed simp

lemma length_lin_table: "length (lin_table cs) = 2 ^ length cs"
  by (induction cs) (simp_all add: length_concat comp_def sum_list_triv)

lemma lin_table_nth:
  "n < 2 ^ length cs \<Longrightarrow> length cs \<le> LENGTH('a) \<Longrightarrow>
   lin_table cs ! n = bitsum (\<lambda>k. cs ! k) (word_of_nat n :: 'a::len word)"
proof (induction cs arbitrary: n)
  case Nil
  then show ?case by simp
next
  case (Cons c cs)
  have n: "n div 2 < 2 ^ length cs" using Cons.prems by simp
  have lt: "n < 2 ^ LENGTH('a)"
    using Cons.prems by (meson order_less_le_trans one_le_numeral power_increasing)
  have odd: "odd (word_of_nat n :: 'a word) \<longleftrightarrow> odd n"
    using bit_word_of_nat [of n 0, where 'a = 'a] by (simp add: bit_0)
  have half: "drop_bit 1 (word_of_nat n :: 'a word) = word_of_nat (n div 2)"
    using lt by (auto intro!: bit_word_eqI dest: bit_nat_bound simp: bitwise simp flip: drop_bit_Suc bit_Suc)
  show ?case
    using Cons.IH [OF n] Cons.prems nth_pairs [of n "lin_table cs" "\<lambda>x. x" "\<lambda>x. x XOR c"]
      bitsum_half [of "\<lambda>k. (c # cs) ! k" "word_of_nat n :: 'a word"]
    by (auto simp: length_lin_table odd half [simplified] xor.commute)
qed

lemma parity_table_lin: "map word_of_int g_bParityLookupTable = lin_table (replicate 8 (- 1 :: ULONG))"
  by (simp add: g_bParityLookupTable_def numeral_eq_Suc)

lemma ecc_table_lin: "map word_of_nat g_bECCLookupTable = lin_table [0x70, 0x61, 0x52, 0x43, 0x34, 0x25, 0x16, 0x07 :: ULONG]"
  by (simp add: g_bECCLookupTable_def)

lemma nth_parity_table:
  assumes "n < 256"
  shows "word_of_int (g_bParityLookupTable ! n) = pmask (word_of_nat n :: ULONG)"
proof -
  have len: "length g_bParityLookupTable = 256" by (simp add: g_bParityLookupTable_def)
  have "word_of_int (g_bParityLookupTable ! n) = lin_table (replicate 8 (- 1 :: ULONG)) ! n"
    using assms len by (simp flip: parity_table_lin)
  also have "\<dots> = bitsum (\<lambda>k. replicate 8 (- 1) ! k) (word_of_nat n :: ULONG)"
    using assms by (intro lin_table_nth) simp_all
  also have "\<dots> = bitsum (\<lambda>_. - 1) (word_of_nat n :: ULONG)"
  proof (rule bitsum_cong)
    fix k assume "bit (word_of_nat n :: ULONG) k"
    then have "bit n k" by (simp add: bitwise)
    then have "k < 8" using assms bit_nat_bound [of n 8 k] by simp
    then show "replicate 8 (- 1) ! k = (- 1 :: ULONG)" by simp
  qed
  finally show ?thesis by (simp add: pmask_bitsum)
qed

section \<open>Parity routines\<close>

lemma pmask_take_drop: "pmask w = pmask (take_bit n w) XOR pmask (drop_bit n w)" for w :: "'a::len word"
  using bitsum_take_drop [of "\<lambda>_. - 1" w n] by (simp add: pmask_bitsum)

lemma pmask_fold_half:
  fixes w :: "'a::len word"
  assumes "\<And>m. 2 * n \<le> m \<Longrightarrow> \<not> bit w m"
  shows "pmask (take_bit n (w XOR drop_bit n w)) = pmask w"
proof -
  have "take_bit n (drop_bit n w) = drop_bit n w"
  proof (rule bit_word_eqI)
    fix m assume "m < LENGTH('a)"
    show "bit (take_bit n (drop_bit n w)) m = bit (drop_bit n w) m"
      using assms [of "n + m"] by (cases "n \<le> m") (auto simp: bit_simps)
  qed
  then have "take_bit n (w XOR drop_bit n w) = take_bit n w XOR drop_bit n w"
    by simp
  then show ?thesis using pmask_take_drop [of w n] by (simp add: pmask_xor)
qed

lemma and_ff: "w AND 0xff = take_bit 8 w" for w :: ULONG
  by (simp add: take_bit_eq_mask mask_eq_exp_minus_1)

lemma lParityMask_eq [simp]: "lParityMask dw = pmask dw"
proof -
  define dw2 where "dw2 = dw XOR drop_bit 16 dw"
  define dw4 where "dw4 = dw2 XOR drop_bit 8 dw2"
  have "take_bit 8 dw4 = take_bit 8 (take_bit 16 dw2 XOR drop_bit 8 (take_bit 16 dw2))"
    by (rule bit_word_eqI) (auto simp: dw4_def bit_simps)
  moreover have "pmask (take_bit 8 (take_bit 16 dw2 XOR drop_bit 8 (take_bit 16 dw2))) = pmask (take_bit 16 dw2)"
    by (rule pmask_fold_half) (simp add: bit_take_bit_iff)
  moreover have "pmask (take_bit 16 dw2) = pmask dw"
    unfolding dw2_def by (rule pmask_fold_half) (auto dest: bit_imp_le_length)
  ultimately have eq: "pmask (take_bit 8 dw4) = pmask dw" by simp
  have "unat (take_bit 8 dw4) < 256"
    using take_bit_nat_less_exp [of 8 "unat dw4"] by (simp add: unsigned_take_bit_eq)
  then have "word_of_int (g_bParityLookupTable ! unat (take_bit 8 dw4)) = pmask (take_bit 8 dw4)"
    by (simp add: nth_parity_table)
  then show ?thesis
    using eq by (simp only: lParityMask_def Let_def and_ff flip: dw2_def dw4_def)
qed

lemma lane_of_lanes [simp]:
  assumes "k < length ls" and "32 * length ls \<le> LENGTH('a)"
  shows "lane k (of_lanes ls :: 'a::len word) = ls ! k"
proof (rule bit_word_eqI)
  fix n assume "n < LENGTH(32)"
  moreover from this have "32 * k + n < LENGTH('a)" using assms by simp
  ultimately show "bit (lane k (of_lanes ls :: 'a word)) n = bit (ls ! k) n"
    using assms bit_horner_sum_uint_exp_iff [of ls "32 * k + n"]
    by (simp add: bitwise of_lanes_def bit_word_of_int_iff)
qed

lemma popcnt_mask: "- (word_of_nat (popcnt w) AND 1) = pmask w"
proof -
  have "(word_of_nat k AND 1 :: ULONG) = of_bool (odd k)" for k
    using bit_word_of_nat [of k 0, where 'a = 32] by (simp add: and_one_eq mod_2_eq_odd bit_0)
  then show ?thesis by (simp add: popcnt_def pmask_def par_code)
qed

lemma lParityMaskPopcnt_eq [simp]: "lParityMaskPopcnt dw = pmask dw"
  by (simp add: lParityMaskPopcnt_def popcnt_mask)

lemma pmask_128: "pmask dq = pmask (lane 0 dq XOR lane 1 dq XOR lane 2 dq XOR lane 3 dq)" for dq :: "128 word"
proof -
  have "{..<4} = {0, 1, 2, 3 :: nat}" by auto
  then show ?thesis using pmask_lanes [of 4 dq] by (simp add: pmask_xor)
qed

lemma pmask_64: "pmask q = pmask (lane 0 q XOR lane 1 q)" for q :: QWORD
proof -
  have "{..<2} = {0, 1 :: nat}" by auto
  then show ?thesis using pmask_lanes [of 2 q] by (simp add: pmask_xor)
qed

lemma lane_shuffle:
  "k < 4 \<Longrightarrow> lane k (mm_shuffle_epi32 dq imm) = lane (imm div 4 ^ k mod 4) dq"
  by (simp add: mm_shuffle_epi32_def)

lemma lane_ucast: "32 * k + 32 \<le> LENGTH('b) \<Longrightarrow> lane k (ucast (v :: 'a::len word) :: 'b::len word) = lane k v"
  by (rule bit_word_eqI) (auto simp: bitwise dest: bit_imp_le_length)

lemma lParityMask128_eq [simp]: "lParityMask128 dq = pmask dq"
  by (simp add: lParityMask128_def Let_def lane_xor lane_shuffle pmask_128
      numeral_2_eq_2 numeral_3_eq_3 xor.assoc xor.commute xor.left_commute)

lemma lParityMaskPopcnt128_eq [simp]: "lParityMaskPopcnt128 dq = pmask dq"
  by (simp add: lParityMaskPopcnt128_def Let_def popcnt_mask pmask_64 lane_ucast lane_xor lane_shuffle pmask_128
      numeral_2_eq_2 numeral_3_eq_3 xor.assoc xor.commute xor.left_commute)

lemma lane_swap: "k < 8 \<Longrightarrow> lane k (mm256_swap_halves qq) = lane ((k + 4) mod 8) qq"
  by (simp add: mm256_swap_halves_def)

lemma lParityMaskAVX_eq [simp]: "lParityMaskAVX qq = pmask qq"
proof -
  have "{..<8} = {0, 1, 2, 3, 4, 5, 6, 7 :: nat}" by auto
  then have "pmask qq = pmask (lane 0 qq XOR lane 1 qq XOR lane 2 qq XOR lane 3 qq
      XOR lane 4 qq XOR lane 5 qq XOR lane 6 qq XOR lane 7 qq)"
    using pmask_lanes [of 8 qq] by (simp add: pmask_xor)
  then show ?thesis
    by (simp add: lParityMaskAVX_def Let_def popcnt_mask pmask_64 lane_ucast lane_xor lane_shuffle lane_swap pmask_xor
        xor.assoc xor.commute xor.left_commute)
qed

lemma parity128_eq [simp]: "parity128 f dq = pmask dq"
  by (simp add: parity128_def)

lemma parity32_eq [simp]: "parity32 f dw = pmask dw"
  by (simp add: parity32_def)

section \<open>Specification\<close>

definition valid_block :: "nat \<Rightarrow> bool" where
  "valid_block cb \<longleftrightarrow> cb = 1024 \<or> cb = 2048 \<or> cb = 4096 \<or> cb = 8192"

definition block_bit :: "BYTE list \<Rightarrow> bool \<Rightarrow> nat \<Rightarrow> bool" where
  "block_bit pb fHeaderBlock j \<longleftrightarrow> \<not> (fHeaderBlock \<and> j < 64) \<and> bit (pb ! (j div 8)) (j mod 8)"

definition ecc_index :: "nat \<Rightarrow> nat \<Rightarrow> ULONG" where
  "ecc_index cb j = word_of_nat j OR push_bit 16 (NOT (word_of_nat j) AND (word_of_nat (8 * cb) - 1))"

definition ecc_spec :: "BYTE list \<Rightarrow> nat \<Rightarrow> bool \<Rightarrow> ULONG" where
  "ecc_spec pb cb fHeaderBlock =
     foldr (\<lambda>j x. (if block_bit pb fHeaderBlock j then ecc_index cb j else 0) XOR x) [0..<8 * cb] 0"

definition xor_spec :: "BYTE list \<Rightarrow> nat \<Rightarrow> bool \<Rightarrow> ULONG" where
  "xor_spec pb cb fHeaderBlock = foldr (\<lambda>i x. dw_at pb i XOR x) [(if fHeaderBlock then 2 else 0)..<cb div 4] 0"

definition new_checksum_spec :: "BYTE list \<Rightarrow> nat \<Rightarrow> ULONG \<Rightarrow> bool \<Rightarrow> QWORD" where
  "new_checksum_spec pb cb pgno fHeaderBlock =
     MakeChecksumFromECCXORAndPgno (ecc_spec pb cb fHeaderBlock) (xor_spec pb cb fHeaderBlock) pgno"

section \<open>Double indices and their fields\<close>

text \<open>
  \<open>dbl j\<close> is the double index before it is cut to the size of the block, and \<open>fld a b\<close>
  selects the bits \<open>a\<close> to \<open>a + b - 1\<close> of both halves. A routine builds the code field by
  field; a field of the double index depends on that part of the index only.
\<close>

definition dbl :: "nat \<Rightarrow> ULONG" where
  "dbl j = word_of_nat j OR push_bit 16 (NOT (word_of_nat j))"

definition fld :: "nat \<Rightarrow> nat \<Rightarrow> ULONG" where
  "fld a b = push_bit a (mask b) OR push_bit (16 + a) (mask b)"

lemma bit_dbl:
  "j < 65536 \<Longrightarrow> bit (dbl j) n \<longleftrightarrow> n < 32 \<and> (if n < 16 then bit j n else \<not> bit j (n - 16))"
  using bit_nat_bound [of j 16]
  by (auto simp: dbl_def bitwise bit_push_bit_iff bit_not_iff)

lemma bit_fld:
  "a + b \<le> 16 \<Longrightarrow> bit (fld a b) n \<longleftrightarrow> n < 32 \<and> (a \<le> n \<and> n < a + b \<or> 16 + a \<le> n \<and> n < 16 + a + b)"
  by (auto simp: fld_def bitwise bit_push_bit_iff bit_mask_iff)

lemma bit_field_eq:
  fixes j j' :: nat
  assumes "j div 2 ^ a mod 2 ^ b = j' div 2 ^ a mod 2 ^ b" and "a \<le> n" and "n < a + b"
  shows "bit j n \<longleftrightarrow> bit j' n"
proof -
  have "take_bit b (drop_bit a j) = take_bit b (drop_bit a j')"
    using assms(1) by (simp add: take_bit_eq_mod drop_bit_eq_div)
  then have "bit (take_bit b (drop_bit a j)) (n - a) \<longleftrightarrow> bit (take_bit b (drop_bit a j')) (n - a)" by simp
  then show ?thesis using assms(2,3) by (simp add: bit_take_bit_iff bit_drop_bit_eq less_diff_conv2)
qed

lemma dbl_fld_cong:
  assumes "j < 65536" and "j' < 65536" and "a + b \<le> 16"
    and eq: "j div 2 ^ a mod 2 ^ b = j' div 2 ^ a mod 2 ^ b"
  shows "dbl j AND fld a b = dbl j' AND fld a b"
proof (rule bit_word_eqI)
  fix n assume "n < LENGTH(32)"
  then have "n < 32" by simp
  moreover have "a \<le> n \<Longrightarrow> n < a + b \<Longrightarrow> bit j n \<longleftrightarrow> bit j' n"
    using eq by (rule bit_field_eq)
  moreover have "16 + a \<le> n \<Longrightarrow> n < 16 + a + b \<Longrightarrow> bit j (n - 16) \<longleftrightarrow> bit j' (n - 16)"
    using eq by (rule bit_field_eq) auto
  ultimately show "bit (dbl j AND fld a b) n = bit (dbl j' AND fld a b) n"
    using assms(1-3) by (auto simp: bit_and_iff bit_dbl bit_fld)
qed

text \<open>The masks and running indices of the routines are fields of double indices.\<close>

lemma fld_numerals:
  "0xff80ff80 = fld 7 9" "0xffe0ffe0 = fld 5 11" "0x001f001f = fld 0 5" "0xfe00fe00 = fld 9 7"
  "0x01e001e0 = fld 5 4" "0xfc00fc00 = fld 10 6" "0x03000300 = fld 8 2" "0x00e000e0 = fld 5 3"
  by (simp_all add: fld_def mask_eq_exp_minus_1)

text \<open>
  \<open>idx a k\<close> is the running index of a loop over groups of \<open>2 ^ a\<close> bits after \<open>k\<close> rounds:
  each round adds \<open>2 ^ a\<close> to the low half and subtracts it from the high half.
\<close>

definition idx :: "nat \<Rightarrow> nat \<Rightarrow> ULONG" where
  "idx a k = (2 ^ 16 - 2 ^ a) * 2 ^ 16 + word_of_nat k * (2 ^ a - 2 ^ a * 2 ^ 16)"

lemma bit_complement_nat:
  fixes k :: nat
  assumes "k < 2 ^ c"
  shows "bit (2 ^ c - 1 - k) m \<longleftrightarrow> m < c \<and> \<not> bit k m"
proof -
  have "int (2 ^ c - 1 - k) = take_bit c (NOT (int k))"
  proof -
    have "take_bit c (NOT (int k)) = (- int k - 1) mod 2 ^ c" by (simp add: take_bit_eq_mod not_int_def)
    also have "\<dots> = (2 ^ c - 1 - int k) mod 2 ^ c"
      by (metis (no_types, opaque_lifting) add_diff_eq diff_add_eq diff_diff_eq2 minus_add_distrib mod_add_self1 add.commute uminus_add_conv_diff)
    also have "\<dots> = 2 ^ c - 1 - int k"
    proof (rule mod_pos_pos_trivial)
      have "int k < 2 ^ c" using assms by (metis of_nat_less_iff of_nat_numeral of_nat_power)
      then show "0 \<le> 2 ^ c - 1 - int k" by simp
    qed simp
    finally show ?thesis using assms by (simp add: of_nat_diff Suc_leI)
  qed
  then have "bit (int (2 ^ c - 1 - k)) m \<longleftrightarrow> bit (take_bit c (NOT (int k))) m" by simp
  then show ?thesis by (simp add: bit_of_nat_iff_bit bit_take_bit_iff bit_not_int_iff)
qed

lemma idx_eq:
  assumes "a \<le> 16" and "k < 2 ^ (16 - a)"
  shows "idx a k = dbl (2 ^ a * k) AND fld a (16 - a)"
proof -
  let ?c = "16 - a"
  let ?hi = "2 ^ a * (2 ^ ?c - 1 - k) :: nat"
  have pow: "(2 :: nat) ^ a * 2 ^ ?c = 65536" using assms(1) by (simp flip: power_add)
  have lt: "2 ^ a * k < 65536"
    using assms(2) pow mult_less_mono2 [of k "2 ^ ?c" "2 ^ a"] by simp
  have hi: "word_of_nat ?hi = (2 ^ 16 - 2 ^ a - 2 ^ a * word_of_nat k :: ULONG)"
  proof -
    have "?hi + 2 ^ a + 2 ^ a * k = 65536"
    proof -
      have "?hi + 2 ^ a + 2 ^ a * k = 2 ^ a * ((2 ^ ?c - 1 - k) + 1 + k)" by (simp add: algebra_simps)
      also have "(2 ^ ?c - 1 - k) + 1 + k = 2 ^ ?c" using assms(2) by linarith
      finally show ?thesis using pow by simp
    qed
    then have "(word_of_nat (?hi + 2 ^ a + 2 ^ a * k) :: ULONG) = word_of_nat 65536" by simp
    then show ?thesis by (simp add: algebra_simps)
  qed
  have "idx a k = word_of_nat (2 ^ a * k) + push_bit 16 (word_of_nat ?hi)"
    unfolding hi idx_def push_bit_eq_mult by (simp add: algebra_simps)
  also have "\<dots> = word_of_nat (2 ^ a * k) OR push_bit 16 (word_of_nat ?hi)"
  proof (rule disjunctive_add_eq_or, rule bit_word_eqI)
    fix n
    show "bit (word_of_nat (2 ^ a * k) AND push_bit 16 (word_of_nat ?hi) :: ULONG) n = bit (0 :: ULONG) n"
      using lt bit_nat_bound [of "2 ^ a * k" 16 n] by (auto simp: bitwise bit_push_bit_iff simp del: of_nat_mult)
  qed
  also have "\<dots> = dbl (2 ^ a * k) AND fld a ?c"
  proof (rule bit_word_eqI)
    fix n assume "n < LENGTH(32)"
    have shl: "bit (2 ^ a * m) i \<longleftrightarrow> a \<le> i \<and> bit m (i - a)" for m i :: nat
      using bit_push_bit_iff [of a m i] by (simp add: push_bit_eq_mult mult.commute)
    show "bit (word_of_nat (2 ^ a * k) OR push_bit 16 (word_of_nat ?hi) :: ULONG) n = bit (dbl (2 ^ a * k) AND fld a ?c) n"
      using \<open>n < LENGTH(32)\<close> assms lt bit_nat_bound [of k ?c "n - a"] bit_complement_nat [OF assms(2), of "n - 16 - a"]
      by (auto simp: bitwise bit_push_bit_iff bit_dbl bit_fld shl simp del: of_nat_mult)
  qed
  finally show ?thesis .
qed

lemma idx_Suc: "idx a (Suc k) = idx a k + (2 ^ a - 2 ^ a * 2 ^ 16)"
  by (simp add: idx_def algebra_simps)

section \<open>The code as a sum over all bits\<close>

text \<open>
  \<open>row\<close> reads a 32-bit word of the block with the first two of a header block as zero.
  \<open>code_sum\<close> is the sum of the uncut double indices of all set bits. A field that depends
  on the word number only is found from the parities of the words, one that depends on the
  bit number only from the exclusive or of the words.
\<close>

definition row :: "BYTE list \<Rightarrow> bool \<Rightarrow> nat \<Rightarrow> ULONG" where
  "row pb fHeaderBlock i = (if fHeaderBlock \<and> i < 2 then 0 else dw_at pb i)"

definition code_sum :: "(nat \<Rightarrow> ULONG) \<Rightarrow> nat \<Rightarrow> ULONG" where
  "code_sum r n = xsum (\<lambda>i. bitsum (\<lambda>b. dbl (32 * i + b)) (r i)) {..<n}"

lemma code_sum_and: "code_sum r n AND M = xsum (\<lambda>i. bitsum (\<lambda>b. dbl (32 * i + b) AND M) (r i)) {..<n}"
  unfolding code_sum_def and.commute [of _ M] by (simp add: bitsum_and and_const.map_xsum)

lemma code_sum_rows:
  assumes "\<And>i b. i < n \<Longrightarrow> b < 32 \<Longrightarrow> dbl (32 * i + b) AND M = c i"
  shows "code_sum r n AND M = xsum (\<lambda>i. c i AND pmask (r i)) {..<n}"
  unfolding code_sum_and
proof (rule xor_sum.cong [OF refl])
  fix i assume "i \<in> {..<n}"
  then have "bitsum (\<lambda>b. dbl (32 * i + b) AND M) (r i) = bitsum (\<lambda>_. c i) (r i)"
    using assms by (intro bitsum_cong) (auto dest!: bit_imp_le_length)
  then show "bitsum (\<lambda>b. dbl (32 * i + b) AND M) (r i) = c i AND pmask (r i)" by (simp add: and_pmask)
qed

lemma code_sum_columns:
  assumes "\<And>i b. i < n \<Longrightarrow> b < 32 \<Longrightarrow> dbl (32 * i + b) AND M = c b"
  shows "code_sum r n AND M = bitsum c (xsum r {..<n})"
  unfolding code_sum_and bitsum.map_xsum
proof (rule xor_sum.cong [OF refl])
  fix i assume "i \<in> {..<n}"
  then show "bitsum (\<lambda>b. dbl (32 * i + b) AND M) (r i) = bitsum c (r i)"
    using assms by (intro bitsum_cong) (auto dest!: bit_imp_le_length)
qed

text \<open>A field whose index comes from groups of \<open>m\<close> words.\<close>

lemma code_sum_groups:
  assumes "\<And>i b. i < m * n \<Longrightarrow> b < 32 \<Longrightarrow> dbl (32 * i + b) AND M = c (i div m)" and "0 < m"
  shows "code_sum r (m * n) AND M = xsum (\<lambda>k. c k AND pmask (xsum (\<lambda>l. r (m * k + l)) {..<m})) {..<n}"
proof -
  have "code_sum r (m * n) AND M = xsum (\<lambda>i. c (i div m) AND pmask (r i)) {..<m * n}"
    using assms(1) by (rule code_sum_rows)
  also have "\<dots> = xsum (\<lambda>k. xsum (\<lambda>l. c ((m * k + l) div m) AND pmask (r (m * k + l))) {..<m}) {..<n}"
    by (rule xsum_blocks)
  also have "\<dots> = xsum (\<lambda>k. c k AND pmask (xsum (\<lambda>l. r (m * k + l)) {..<m})) {..<n}"
    by (rule xor_sum.cong) (simp_all add: pmask.map_xsum and_const.map_xsum)
  finally show ?thesis .
qed

text \<open>A field whose index comes from the position of the word in a group of \<open>m\<close> words.\<close>

lemma code_sum_positions:
  assumes "\<And>i b. i < m * n \<Longrightarrow> b < 32 \<Longrightarrow> dbl (32 * i + b) AND M = c (i mod m)"
  shows "code_sum r (m * n) AND M = xsum (\<lambda>l. c l AND pmask (xsum (\<lambda>k. r (m * k + l)) {..<n})) {..<m}"
proof -
  have "code_sum r (m * n) AND M = xsum (\<lambda>i. c (i mod m) AND pmask (r i)) {..<m * n}"
    using assms(1) by (rule code_sum_rows)
  also have "\<dots> = xsum (\<lambda>k. xsum (\<lambda>l. c ((m * k + l) mod m) AND pmask (r (m * k + l))) {..<m}) {..<n}"
    by (rule xsum_blocks)
  also have "\<dots> = xsum (\<lambda>k. xsum (\<lambda>l. c l AND pmask (r (m * k + l))) {..<m}) {..<n}"
    by (intro xor_sum.cong refl) simp
  also have "\<dots> = xsum (\<lambda>l. xsum (\<lambda>k. c l AND pmask (r (m * k + l))) {..<n}) {..<m}"
    by (rule xor_sum.swap)
  finally show ?thesis by (simp add: pmask.map_xsum and_const.map_xsum)
qed

lemma bit_row:
  assumes "4 * i + 4 \<le> length pb"
  shows "bit (row pb f i) b \<longleftrightarrow> b < 32 \<and> block_bit pb f (32 * i + b)"
proof (cases "b < 32")
  case True
  then have "b div 8 < 4" by linarith
  moreover have "(32 * i + b) div 8 = 4 * i + b div 8" and "(32 * i + b) mod 8 = b mod 8"
    by (simp_all add: div_add1_eq mod_add_left_eq [symmetric, of "32 * i"] mod_mult_left_eq [symmetric, of 32])
  ultimately show ?thesis
    using True assms by (auto simp: row_def block_bit_def dw_at_def bit_load_subbuf)
next
  case False
  then show ?thesis by (auto dest!: bit_imp_le_length)
qed

lemma bitsum_if: "bitsum c w = xsum (\<lambda>b. if bit w b then c b else 0) {..<LENGTH('a)}" for w :: "'a::len word"
proof -
  have "{n. bit w n} = {b \<in> {..<LENGTH('a)}. bit w b}" by (auto dest: bit_imp_le_length)
  then show ?thesis
    unfolding bitsum_def by (simp only: xor_sum.inter_filter [OF finite_lessThan])
qed

lemma ecc_index_dbl:
  assumes "valid_block cb" and "j < 8 * cb"
  shows "ecc_index cb j = dbl j AND ecc_size_mask cb"
proof -
  obtain k where k: "8 * cb = 2 ^ k" "k \<le> 16"
    using assms(1) that [of 13] that [of 14] that [of 15] that [of 16] by (auto simp: valid_block_def)
  have size: "ecc_size_mask cb = mask (k + 16)"
  proof -
    have "push_bit 19 (word_of_nat cb) = (2 ^ (k + 16) :: ULONG)"
    proof -
      have "push_bit 19 (word_of_nat cb) = (word_of_nat (8 * cb) * 2 ^ 16 :: ULONG)"
        by (simp add: push_bit_eq_mult)
      then show ?thesis by (simp only: k power_add of_nat_power of_nat_numeral)
    qed
    then show ?thesis by (simp add: ecc_size_mask_def mask_eq_exp_minus_1)
  qed
  have low: "word_of_nat (8 * cb) - 1 = (mask k :: ULONG)" by (simp add: k mask_eq_exp_minus_1)
  have j: "j < 65536" "j < 2 ^ k"
    using assms k power_increasing [of k 16 "2 :: nat"] by auto
  show ?thesis
  proof (rule bit_word_eqI)
    fix n assume "n < LENGTH(32)"
    then show "bit (ecc_index cb j) n = bit (dbl j AND ecc_size_mask cb) n"
      using j bit_nat_bound [of j 16 n] bit_nat_bound [of j k n] k(2)
      unfolding ecc_index_def low size
      by (auto simp: bitwise bit_push_bit_iff bit_not_iff bit_mask_iff bit_dbl)
  qed
qed

lemma ecc_spec_code_sum:
  assumes "valid_block cb" and "cb \<le> length pb"
  shows "ecc_spec pb cb f = code_sum (row pb f) (cb div 4) AND ecc_size_mask cb"
proof -
  have cb: "8 * cb = 32 * (cb div 4)" using assms(1) by (auto simp: valid_block_def)
  have "ecc_spec pb cb f = xsum (\<lambda>j. if block_bit pb f j then ecc_index cb j else 0) {..<32 * (cb div 4)}"
    by (simp add: ecc_spec_def foldr_xsum atLeast0LessThan flip: cb)
  also have "\<dots> = xsum (\<lambda>i. xsum (\<lambda>b. if block_bit pb f (32 * i + b) then ecc_index cb (32 * i + b) else 0) {..<32}) {..<cb div 4}"
    by (rule xsum_blocks)
  also have "\<dots> = xsum (\<lambda>i. bitsum (\<lambda>b. dbl (32 * i + b) AND ecc_size_mask cb) (row pb f i)) {..<cb div 4}"
  proof (rule xor_sum.cong [OF refl])
    fix i assume "i \<in> {..<cb div 4}"
    then have "4 * i + 4 \<le> length pb" and "32 * i + 32 \<le> 8 * cb" using assms(2) by auto
    then show "xsum (\<lambda>b. if block_bit pb f (32 * i + b) then ecc_index cb (32 * i + b) else 0) {..<32}
        = bitsum (\<lambda>b. dbl (32 * i + b) AND ecc_size_mask cb) (row pb f i)"
      using assms(1) by (auto simp: bitsum_if bit_row ecc_index_dbl intro!: xor_sum.cong)
  qed
  finally show ?thesis by (simp add: code_sum_and)
qed

lemma xor_spec_rows: "2 \<le> cb div 4 \<Longrightarrow> xor_spec pb cb f = xsum (row pb f) {..<cb div 4}"
proof -
  assume "2 \<le> cb div 4"
  then have "xsum (row pb f) {..<cb div 4} = xsum (row pb f) {0..<2} XOR xsum (row pb f) {2..<cb div 4}"
    using xsum_split_at [of 0 2 "cb div 4" "row pb f"] by (simp add: atLeast0LessThan)
  moreover have "xsum (row pb f) {2..<cb div 4} = xsum (dw_at pb) {2..<cb div 4}"
    by (rule xor_sum.cong) (auto simp: row_def)
  moreover have "f \<Longrightarrow> xsum (row pb f) {0..<2} = 0"
    by (rule xor_sum.neutral) (auto simp: row_def)
  moreover have "\<not> f \<Longrightarrow> xsum (row pb f) {..<cb div 4} = xsum (dw_at pb) {..<cb div 4}"
    by (rule xor_sum.cong) (auto simp: row_def)
  ultimately show ?thesis by (cases f) (simp_all add: xor_spec_def foldr_xsum atLeast0LessThan)
qed

end
