(* ===== verification/Checksum_Routines.thy ===== *)
theory Checksum_Routines
  imports Checksum_Ecc
begin

unbundle bit_operations_syntax

text \<open>
  Every new-format checksum routine meets the specification. The contract is the locale
  \<open>new_format\<close>, with the lemmas the page checksum relies on proved once inside it; it is
  interpreted for each routine and for the routine the processor selects.
\<close>

section \<open>Fields of the code\<close>

lemma dbl_fld_high:
  assumes "j < 65536" and "a \<le> 16"
  shows "dbl j AND fld a (16 - a) = idx a (j div 2 ^ a)"
proof -
  have pow: "(2 :: nat) ^ a * 2 ^ (16 - a) = 65536" using assms(2) by (simp flip: power_add)
  have lt: "j div 2 ^ a < 2 ^ (16 - a)"
    using assms(1) pow by (metis less_mult_imp_div_less mult.commute)
  have "2 ^ a * (j div 2 ^ a) \<le> j" by (rule times_div_less_eq_dividend)
  then have "2 ^ a * (j div 2 ^ a) < 65536" using assms(1) by linarith
  then have "dbl j AND fld a (16 - a) = dbl (2 ^ a * (j div 2 ^ a)) AND fld a (16 - a)"
    using assms by (intro dbl_fld_cong) auto
  then show ?thesis using idx_eq [OF assms(2) lt] by simp
qed

lemma dbl_fld_part:
  assumes "j < 65536" and "a + b \<le> 16"
  shows "dbl j AND fld a b = idx a (j div 2 ^ a mod 2 ^ b) AND fld a b"
proof -
  let ?k = "j div 2 ^ a mod 2 ^ b"
  have "?k < 2 ^ b" by simp
  also have "(2 :: nat) ^ b \<le> 2 ^ (16 - a)" using assms(2) by (intro power_increasing) auto
  finally have "?k < 2 ^ (16 - a)" .
  moreover have "(2 :: nat) ^ a * 2 ^ (16 - a) = 65536" using assms(2) by (simp flip: power_add)
  ultimately have lt: "2 ^ a * ?k < 65536" by (metis mult_less_mono2 zero_less_numeral zero_less_power)
  have "dbl j AND fld a b = dbl (2 ^ a * ?k) AND fld a b"
    using assms lt by (intro dbl_fld_cong) auto
  also have "\<dots> = (dbl (2 ^ a * ?k) AND fld a (16 - a)) AND fld a b"
    using assms(2) by (intro bit_word_eqI) (auto simp: bit_and_iff bit_fld)
  finally show ?thesis using idx_eq [of a ?k] assms(2) \<open>?k < 2 ^ (16 - a)\<close> by simp
qed

lemma dbl_and_bit: "dbl j AND 2 ^ n = (if bit (dbl j) n then 2 ^ n else 0)"
  by (rule bit_word_eqI) (auto simp: bit_and_iff bit_exp_iff)

text \<open>Putting the high and the low part of the code together and cutting it to size.\<close>

lemma merge_fields:
  fixes s m n1 n2 :: "'a::len word"
  assumes "n1 OR n2 = - 1" and "m AND n2 = n2"
  shows "((s AND n1) AND m) OR (s AND n2) = s AND m"
proof (rule bit_word_eqI)
  fix k assume k: "k < LENGTH('a)"
  have "bit (n1 OR n2) k = bit (- 1 :: 'a word) k" using assms(1) by simp
  moreover have "bit (m AND n2) k = bit n2 k" using assms(2) by simp
  ultimately show "bit (((s AND n1) AND m) OR (s AND n2)) k = bit (s AND m) k"
    using k by (auto simp: bit_simps)
qed

lemma ecc_size_mask_low: "valid_block cb \<Longrightarrow> ecc_size_mask cb AND 0x001fffff = 0x001fffff"
  by (auto simp: valid_block_def ecc_size_mask_def push_bit_eq_mult)

lemma ecc_size_mask_29: "valid_block cb \<Longrightarrow> ecc_size_mask cb AND 0x1fffffff = 0x1fffffff"
  by (auto simp: valid_block_def ecc_size_mask_def push_bit_eq_mult)

lemma lessThan_4: "{..<4} = {0, 1, 2, 3 :: nat}" by auto

section \<open>The 32-bit routines\<close>

text \<open>
  One accumulator layout serves all routines: the parities of groups of four words weighted
  with the running index, and the exclusive or of the words at each of the four places. The
  words are 32, 128 or 256 bits wide.
\<close>

definition row4 :: "(nat \<Rightarrow> 'a::len word) \<Rightarrow> nat \<Rightarrow> 'a word" where
  "row4 r k = r (4 * k) XOR r (4 * k + 1) XOR r (4 * k + 2) XOR r (4 * k + 3)"

definition rows_acc :: "nat \<Rightarrow> (nat \<Rightarrow> 'a::len word) \<Rightarrow> nat \<Rightarrow> ULONG \<times> 'a word \<times> 'a word \<times> 'a word \<times> 'a word" where
  "rows_acc a r n = (xsum (\<lambda>k. idx a k AND pmask (row4 r k)) {..<n},
     xsum (\<lambda>k. r (4 * k)) {..<n}, xsum (\<lambda>k. r (4 * k + 1)) {..<n},
     xsum (\<lambda>k. r (4 * k + 2)) {..<n}, xsum (\<lambda>k. r (4 * k + 3)) {..<n})"

lemma row_dw_at [simp]: "2 \<le> i \<Longrightarrow> row pb f i = dw_at pb i"
  by (simp add: row_def)

lemma ecc_row_step_eq:
  "ecc_row_step pb (8 * t) (idx 7 (2 * t)) (rows_acc 7 (row pb f) (2 * t)) (row pb f (8 * t)) (row pb f (8 * t + 1))
   = (idx 7 (2 * t + 2), rows_acc 7 (row pb f) (2 * t + 2))"
proof -
  have idx: "idx 7 (Suc k) = idx 7 k + 0xff800080" for k by (simp add: idx_Suc)
  have dw: "dw_at pb (8 * t + 2) = row pb f (8 * t + 2)" "dw_at pb (8 * t + 3) = row pb f (8 * t + 3)"
    "dw_at pb (8 * t + 4) = row pb f (8 * t + 4)" "dw_at pb (8 * t + 5) = row pb f (8 * t + 5)"
    "dw_at pb (8 * t + 6) = row pb f (8 * t + 6)" "dw_at pb (8 * t + 7) = row pb f (8 * t + 7)"
    by simp_all
  show ?thesis
    unfolding ecc_row_step_def rows_acc_def dw
    by (simp add: Let_def idx row4_def xor.commute xor.left_commute xor.assoc lessThan_Suc
        add.commute [of _ "8 * t"] del: row_dw_at)
qed

lemma ecc_rows_eq:
  "t < m \<Longrightarrow>
   ecc_rows pb (8 * m) (8 * t) (idx 7 (2 * t)) (rows_acc 7 (row pb f) (2 * t)) (row pb f (8 * t)) (row pb f (8 * t + 1))
   = rows_acc 7 (row pb f) (2 * m)"
proof (induction "m - Suc t" arbitrary: t)
  case 0
  then have "m = Suc t" by simp
  then show ?case by (subst ecc_rows.simps) (simp add: ecc_row_step_eq [simplified] del: row_dw_at)
next
  case (Suc d)
  then have "Suc t < m" and "d = m - Suc (Suc t)" by simp_all
  then have "ecc_rows pb (8 * m) (8 * Suc t) (idx 7 (2 * Suc t)) (rows_acc 7 (row pb f) (2 * Suc t))
      (row pb f (8 * Suc t)) (row pb f (8 * Suc t + 1)) = rows_acc 7 (row pb f) (2 * m)"
    using Suc.hyps(1) by blast
  then show ?case
    using \<open>Suc t < m\<close> by (subst ecc_rows.simps) (simp add: ecc_row_step_eq [simplified] add.commute)
qed

lemma ecc_columns_eq: "ecc_columns r2 1 0xffff0000 0 = bitsum (idx 0) r2"
proof -
  have idx: "idx 0 (Suc k) = idx 0 k + 0xffff0001" for k by (simp add: idx_Suc)
  have step: "ecc_columns r2 (2 ^ n) (idx 0 n) r = r XOR xsum (idx 0) {b. n \<le> b \<and> bit r2 b}"
    if "n \<le> 32" for n r
    using that
  proof (induction n arbitrary: r rule: inc_induct)
    case base
    have "(2 :: ULONG) ^ 32 = 0" by simp
    moreover have "xsum (idx 0) {b. 32 \<le> b \<and> bit r2 b} = 0"
      by (rule xor_sum.neutral) (auto dest: bit_imp_le_length)
    ultimately show ?case by (subst ecc_columns.simps) simp
  next
    case (step n)
    have "(2 :: ULONG) ^ n \<noteq> 0" using step.hyps by (simp add: exp_eq_zero_iff)
    moreover have "(2 :: ULONG) ^ n + 2 ^ n = 2 ^ Suc n" by simp
    moreover have "r2 AND 2 ^ n \<noteq> 0 \<longleftrightarrow> bit r2 n"
      by (simp add: and_exp_eq_0_iff_not_bit)
    moreover have "{b. n \<le> b \<and> bit r2 b} = {b. Suc n \<le> b \<and> bit r2 b} \<union> (if bit r2 n then {n} else {})"
      by (auto simp: Suc_le_eq le_less)
    moreover have "finite {b. Suc n \<le> b \<and> bit r2 b}" by (rule finite_subset [OF _ finite_bits [of r2]]) auto
    ultimately show ?case
      using step.IH by (subst ecc_columns.simps) (auto simp: Let_def idx xor.assoc xor.commute xor.left_commute)
  qed
  have "idx 0 0 = 0xffff0000" by (simp add: idx_def)
  then show ?thesis using step [of 0 0] by (simp add: bitsum_def)
qed

lemma code_sum_high_7:
  assumes "n \<le> 512"
  shows "code_sum r (4 * n) AND fld 7 9 = xsum (\<lambda>k. idx 7 k AND pmask (row4 r k)) {..<n}"
proof -
  have "dbl (32 * i + b) AND fld 7 9 = idx 7 (i div 4)" if "i < 4 * n" "b < 32" for i b
  proof -
    have "32 * i + b < 65536" using that assms by linarith
    moreover have "(32 * i + b) div 2 ^ 7 = i div 4" using that by (simp add: div_mult2_eq [of _ 32 4, simplified])
    ultimately show ?thesis using dbl_fld_high [of "32 * i + b" 7] by simp
  qed
  then show ?thesis
    by (subst code_sum_groups) (simp_all add: row4_def lessThan_4 xor.assoc)
qed

lemma code_sum_low_5:
  assumes "n \<le> 2048"
  shows "code_sum r n AND fld 0 5 = bitsum (idx 0) (xsum r {..<n}) AND fld 0 5"
proof -
  have "dbl (32 * i + b) AND fld 0 5 = fld 0 5 AND idx 0 b" if "i < n" "b < 32" for i b
  proof -
    have "32 * i + b < 65536" using that assms by linarith
    then show ?thesis using that dbl_fld_part [of "32 * i + b" 0 5] by (simp add: and.commute)
  qed
  then have "code_sum r n AND fld 0 5 = bitsum (\<lambda>b. fld 0 5 AND idx 0 b) (xsum r {..<n})"
    by (rule code_sum_columns)
  then show ?thesis unfolding bitsum_and by (simp add: and.commute)
qed

lemma code_sum_bit:
  assumes "n \<le> 512" and "\<And>i b. i < 4 * n \<Longrightarrow> b < 32 \<Longrightarrow> bit (dbl (32 * i + b)) m \<longleftrightarrow> i mod 4 \<in> A"
  shows "code_sum r (4 * n) AND 2 ^ m = 2 ^ m AND pmask (xsum (\<lambda>l. xsum (\<lambda>k. r (4 * k + l)) {..<n}) (A \<inter> {..<4}))"
proof -
  have "code_sum r (4 * n) AND 2 ^ m
      = xsum (\<lambda>l. (if l \<in> A then 2 ^ m else 0) AND pmask (xsum (\<lambda>k. r (4 * k + l)) {..<n})) {..<4}"
    using assms by (intro code_sum_positions) (simp add: dbl_and_bit)
  also have "\<dots> = xsum (\<lambda>l. if l \<in> A then 2 ^ m AND pmask (xsum (\<lambda>k. r (4 * k + l)) {..<n}) else 0) {..<4}"
    by (rule xor_sum.cong) auto
  also have "\<dots> = xsum (\<lambda>l. 2 ^ m AND pmask (xsum (\<lambda>k. r (4 * k + l)) {..<n})) {l \<in> {..<4}. l \<in> A}"
    by (simp only: xor_sum.inter_filter [OF finite_lessThan])
  also have "{l \<in> {..<4}. l \<in> A} = A \<inter> {..<4}" by auto
  finally show ?thesis by (simp only: pmask.map_xsum and_const.map_xsum)
qed

lemma bit_5_6:
  fixes i b :: nat
  assumes "b < 32"
  shows "bit (32 * i + b) 5 \<longleftrightarrow> i mod 4 \<in> {1, 3}" and "bit (32 * i + b) 6 \<longleftrightarrow> i mod 4 \<in> {2, 3}"
proof -
  have "(32 * i + b) div 2 ^ 5 = i" using assms by simp
  then have "bit (32 * i + b) 5 \<longleftrightarrow> odd i" by (simp only: bit_iff_odd)
  moreover have "odd i \<longleftrightarrow> i mod 4 = 1 \<or> i mod 4 = 3" by presburger
  ultimately show "bit (32 * i + b) 5 \<longleftrightarrow> i mod 4 \<in> {1, 3}" by simp
  have "(32 * i + b) div 2 ^ 6 = i div 2" using assms by (simp add: div_mult2_eq [of _ 32 2, simplified])
  then have "bit (32 * i + b) 6 \<longleftrightarrow> odd (i div 2)" by (simp only: bit_iff_odd)
  moreover have "odd (i div 2) \<longleftrightarrow> i mod 4 = 2 \<or> i mod 4 = 3" by presburger
  ultimately show "bit (32 * i + b) 6 \<longleftrightarrow> i mod 4 \<in> {2, 3}" by simp
qed

text \<open>The four single bits the column words contribute.\<close>

lemma code_sum_middle:
  assumes "n \<le> 512" and "rows_acc 7 r n = (p, p0, p1, p2, p3)"
  shows "0x00400000 AND pmask (p0 XOR p1) = code_sum r (4 * n) AND 0x00400000"
    and "0x00000040 AND pmask (p2 XOR p3) = code_sum r (4 * n) AND 0x00000040"
    and "0x00200000 AND pmask (p0 XOR p2) = code_sum r (4 * n) AND 0x00200000"
    and "0x00000020 AND pmask (p1 XOR p3) = code_sum r (4 * n) AND 0x00000020"
proof -
  have j: "32 * i + b < 65536" if "i < 4 * n" "b < 32" for i b using that assms(1) by linarith
  have mod4: "i mod 4 \<in> {0, 1, 2, 3}" for i :: nat by auto
  have "bit (dbl (32 * i + b)) 22 \<longleftrightarrow> i mod 4 \<in> {0, 1}" if "i < 4 * n" "b < 32" for i b
    using bit_dbl [OF j [OF that], of 22] bit_5_6(2) [OF that(2), of i] mod4 [of i] by auto
  from code_sum_bit [OF assms(1) this, where r = r]
  show "0x00400000 AND pmask (p0 XOR p1) = code_sum r (4 * n) AND 0x00400000"
    using assms(2) by (simp add: rows_acc_def lessThan_4)
  have "bit (dbl (32 * i + b)) 6 \<longleftrightarrow> i mod 4 \<in> {2, 3}" if "i < 4 * n" "b < 32" for i b
    using bit_dbl [OF j [OF that], of 6] bit_5_6(2) [OF that(2), of i] by auto
  from code_sum_bit [OF assms(1) this, where r = r]
  show "0x00000040 AND pmask (p2 XOR p3) = code_sum r (4 * n) AND 0x00000040"
    using assms(2) by (simp add: rows_acc_def lessThan_4)
  have "bit (dbl (32 * i + b)) 21 \<longleftrightarrow> i mod 4 \<in> {0, 2}" if "i < 4 * n" "b < 32" for i b
    using bit_dbl [OF j [OF that], of 21] bit_5_6(1) [OF that(2), of i] mod4 [of i] by auto
  from code_sum_bit [OF assms(1) this, where r = r]
  show "0x00200000 AND pmask (p0 XOR p2) = code_sum r (4 * n) AND 0x00200000"
    using assms(2) by (simp add: rows_acc_def lessThan_4)
  have "bit (dbl (32 * i + b)) 5 \<longleftrightarrow> i mod 4 \<in> {1, 3}" if "i < 4 * n" "b < 32" for i b
    using bit_dbl [OF j [OF that], of 5] bit_5_6(1) [OF that(2), of i] by auto
  from code_sum_bit [OF assms(1) this, where r = r]
  show "0x00000020 AND pmask (p1 XOR p3) = code_sum r (4 * n) AND 0x00000020"
    using assms(2) by (simp add: rows_acc_def lessThan_4)
qed

lemma and_collect: "(s AND a) OR (s AND b) = s AND (a OR b)" for s a b :: ULONG
  by (rule bit_word_eqI) (auto simp: bitwise)

lemma ecc_finish_eq:
  assumes "valid_block cb"
  shows "ecc_finish cb (rows_acc 7 r (cb div 16)) =
     (code_sum r (cb div 4) AND ecc_size_mask cb, xsum r {..<cb div 4})"
proof -
  obtain p p0 p1 p2 p3 where acc: "rows_acc 7 r (cb div 16) = (p, p0, p1, p2, p3)" by (metis surj_pair)
  define S where "S = code_sum r (cb div 4)"
  define N :: ULONG where "N = 0xffe0ffe0"
  have n: "cb div 16 \<le> 512" and cb4: "4 * (cb div 16) = cb div 4" using assms by (auto simp: valid_block_def)
  have p: "p = S AND 0xff80ff80"
    using acc code_sum_high_7 [OF n, of r] by (simp add: S_def rows_acc_def fld_numerals cb4)
  have r2: "(p0 XOR p2) XOR (p1 XOR p3) = xsum r {..<cb div 4}"
    using acc by (simp add: rows_acc_def xsum_blocks lessThan_4 xor_sum.distrib xor.assoc xor.left_commute flip: cb4)
  have low: "ecc_columns (xsum r {..<cb div 4}) 1 0xffff0000 0 AND 0x001f001f = S AND 0x001f001f"
    using code_sum_low_5 [of "cb div 4" r] n cb4 by (simp add: ecc_columns_eq fld_numerals S_def)
  have mid: "0x00400000 AND pmask (p0 XOR p1) = S AND 0x00400000" "0x00000040 AND pmask (p2 XOR p3) = S AND 0x00000040"
    "0x00200000 AND pmask (p0 XOR p2) = S AND 0x00200000" "0x00000020 AND pmask (p1 XOR p3) = S AND 0x00000020"
    using code_sum_middle [OF n acc] by (simp_all add: S_def cb4)
  have high: "(((p OR (0x00400000 AND pmask (p0 XOR p1))) OR (0x00000040 AND pmask (p2 XOR p3)))
      OR (0x00200000 AND pmask (p0 XOR p2))) OR (0x00000020 AND pmask (p1 XOR p3)) = S AND N"
    unfolding p mid N_def and_collect by simp
  have "ecc_size_mask cb AND 0x001f001f = (ecc_size_mask cb AND 0x001fffff) AND 0x001f001f"
    by (simp add: and.assoc)
  then have "ecc_size_mask cb AND 0x001f001f = 0x001f001f"
    using ecc_size_mask_low [OF assms] by simp
  then have "((S AND N) AND ecc_size_mask cb) OR (S AND 0x001f001f) = S AND ecc_size_mask cb"
    by (intro merge_fields) (simp_all add: N_def)
  moreover have "(S AND N) AND N = S AND N" by (simp add: and.assoc)
  ultimately show ?thesis
    unfolding acc ecc_finish_def Let_def prod.case lParityMask_eq high r2 low N_def [symmetric] S_def [symmetric]
    by simp
qed

section \<open>The contract of a new-format routine\<close>

locale new_format =
  fixes checksum :: "BYTE list \<Rightarrow> nat \<Rightarrow> ULONG \<Rightarrow> bool \<Rightarrow> QWORD"
  assumes checksum_spec:
    "valid_block cb \<Longrightarrow> cb \<le> length pb \<Longrightarrow> checksum pb cb pgno f = new_checksum_spec pb cb pgno f"

lemma new_spec_code_sum:
  assumes "valid_block cb" and "cb \<le> length pb"
  shows "new_checksum_spec pb cb pgno f = MakeChecksumFromECCXORAndPgno
     (code_sum (row pb f) (cb div 4) AND ecc_size_mask cb) (xsum (row pb f) {..<cb div 4}) pgno"
proof -
  have "2 \<le> cb div 4" using assms(1) by (auto simp: valid_block_def)
  then show ?thesis using assms by (simp add: new_checksum_spec_def ecc_spec_code_sum xor_spec_rows)
qed

lemma ecc_rows_block:
  assumes "valid_block cb" and "(pT0, pT1) = (if f then (0, 0) else (dw_at pb 0, dw_at pb 1))"
  shows "ecc_rows pb (cb div 4) 0 0xff800000 (0, 0, 0, 0, 0) pT0 pT1 = rows_acc 7 (row pb f) (cb div 16)"
proof -
  define m where "m = cb div 32"
  have m: "0 < m" "8 * m = cb div 4" "2 * m = cb div 16" using assms(1) by (auto simp: valid_block_def m_def)
  have "idx 7 0 = 0xff800000" by (simp add: idx_def)
  moreover have "pT0 = row pb f 0" "pT1 = row pb f 1" using assms(2) by (auto simp: row_def split: if_splits)
  ultimately show ?thesis
    using ecc_rows_eq [OF m(1), of pb f] by (simp add: m rows_acc_def)
qed

interpretation new_slowly: new_format ChecksumNewFormatSlowly
proof
  fix cb :: nat and pb :: "BYTE list" and pgno f assume cb: "valid_block cb" "cb \<le> length pb"
  show "ChecksumNewFormatSlowly pb cb pgno f = new_checksum_spec pb cb pgno f"
    unfolding new_spec_code_sum [OF cb] ChecksumNewFormatSlowly_def Let_def
    using cb(1) by (subst ecc_rows_block [where f = f]) (simp_all add: ecc_finish_eq)
qed

interpretation new_sse: new_format ChecksumNewFormatSSE
proof
  fix cb :: nat and pb :: "BYTE list" and pgno f assume cb: "valid_block cb" "cb \<le> length pb"
  show "ChecksumNewFormatSSE pb cb pgno f = new_checksum_spec pb cb pgno f"
    using new_slowly.checksum_spec [OF cb] by (simp add: ChecksumNewFormatSSE_def ChecksumNewFormatSlowly_def)
qed

text \<open>
  The basic routine leaves the first eight bytes out of its second pass whatever the block,
  so it meets the specification on header blocks only.
\<close>

lemma basic_header_block:
  assumes "valid_block cb" and "cb \<le> length pb"
  shows "ChecksumNewFormatBasic pb cb pgno True = new_checksum_spec pb cb pgno True"
proof -
  obtain m where m: "cb = 32 * m" "0 < m"
    using assms(1) that [of "cb div 32"] by (auto simp: valid_block_def)
  have "xsum (dw_at pb) {0..<8 * m} = dw_at pb 0 XOR dw_at pb 1 XOR xsum (dw_at pb) {2..<8 * m}"
    using m xor_sum.atLeast_Suc_lessThan [of 0 "8 * m" "dw_at pb"]
      xor_sum.atLeast_Suc_lessThan [of 1 "8 * m" "dw_at pb"]
    by (simp add: numeral_2_eq_2)
  then have "DwXORChecksumBasic pb cb = xsum (dw_at pb) {2..<cb div 4}"
    by (simp add: DwXORChecksumBasic_def m xor_dwords_loop_eq [simplified] xor.assoc xor.left_commute)
  then have "DwXORChecksumBasic pb cb = xor_spec pb cb True" by (simp add: xor_spec_def foldr_xsum)
  then show ?thesis
    unfolding ChecksumNewFormatBasic_def Let_def new_checksum_spec_def
    using assms by (subst ecc_rows_block [where f = True]) (simp_all add: ecc_finish_eq ecc_spec_code_sum)
qed

section \<open>The 64-bit routine\<close>

lemma fold_rows_64:
  "fold (\<lambda>iRow (p, q, dwColumnParity).
      let dwRow = w iRow;
          dwColumnParity = dwColumnParity XOR dwRow;
          maskRow = lParityMask dwRow
      in (p XOR (maskRow AND g iRow), q XOR (maskRow AND h iRow), dwColumnParity)) [a..<a + n] (p, q, d)
   = (p XOR xsum (\<lambda>i. g i AND pmask (w i)) {a..<a + n}, q XOR xsum (\<lambda>i. h i AND pmask (w i)) {a..<a + n},
      d XOR xsum w {a..<a + n})"
  by (induction n) (simp_all add: Let_def atLeastLessThanSuc and.commute xor.commute xor.left_commute)

lemma fold_columns_64:
  "fold (\<lambda>iColumn (r, s).
      let maskColumn = (if d AND push_bit iColumn 1 \<noteq> 0 then - 1 else 0)
      in (r XOR (maskColumn AND g iColumn), s XOR (maskColumn AND h iColumn))) [0..<n] (0, 0)
   = (xsum (\<lambda>b. if bit d b then g b else 0) {..<n}, xsum (\<lambda>b. if bit d b then h b else 0) {..<n})"
  for d :: ULONG and g h :: "nat \<Rightarrow> ULONG"
  by (induction n) (simp_all add: Let_def lessThan_Suc and_exp_eq_0_iff_not_bit xor.commute)

lemma xsum_rows_header:
  assumes "2 \<le> n" and "\<And>i. G i 0 = (0 :: ULONG)"
  shows "xsum (\<lambda>i. G i (dw_at pb i)) {(if f then 2 else 0)..<n} = xsum (\<lambda>i. G i (row pb f i)) {..<n}"
proof (cases f)
  case True
  have "xsum (\<lambda>i. G i (row pb f i)) {0..<n} = xsum (\<lambda>i. G i (row pb f i)) {0..<2} XOR xsum (\<lambda>i. G i (row pb f i)) {2..<n}"
    using assms(1) by (intro xsum_split_at) simp_all
  moreover have "xsum (\<lambda>i. G i (row pb f i)) {0..<2} = 0"
    using True assms(2) by (intro xor_sum.neutral) (auto simp: row_def)
  moreover have "xsum (\<lambda>i. G i (row pb f i)) {2..<n} = xsum (\<lambda>i. G i (dw_at pb i)) {2..<n}"
    by (rule xor_sum.cong) auto
  ultimately show ?thesis using True by (simp add: atLeast0LessThan)
next
  case False
  then show ?thesis by (simp add: row_def atLeast0LessThan)
qed

text \<open>The bits of the code above the column part, from the word numbers.\<close>

lemma dbl_row_field:
  assumes "valid_block cb" and "i < cb div 4" and "b < 32"
  shows "dbl (32 * i + b) AND (fld 5 11 AND ecc_size_mask cb)
    = push_bit 5 ((word_of_nat i :: ULONG) AND (word_of_nat (cb div 4) - 1))
      XOR push_bit 21 (NOT (word_of_nat i) AND (word_of_nat (cb div 4) - 1))"
proof -
  obtain k where k: "cb div 4 = 2 ^ k" "k \<le> 11" "8 * cb = 2 ^ (k + 5)"
    using assms(1) that [of 8] that [of 9] that [of 10] that [of 11] by (auto simp: valid_block_def)
  have i: "i < 2 ^ k" using assms(2) k by simp
  have size: "ecc_size_mask cb = mask (k + 21)"
  proof -
    have "push_bit 19 (word_of_nat cb) = (word_of_nat (8 * cb) * 2 ^ 16 :: ULONG)" by (simp add: push_bit_eq_mult)
    also have "\<dots> = 2 ^ (k + 21)" by (simp only: k power_add of_nat_power of_nat_numeral) (simp add: mult.commute)
    finally show ?thesis by (simp add: ecc_size_mask_def mask_eq_exp_minus_1)
  qed
  have low: "word_of_nat (cb div 4) - 1 = (mask k :: ULONG)" by (simp add: k mask_eq_exp_minus_1)
  have j: "32 * i + b < 65536" using i assms(3) k(2) power_increasing [of k 11 "2 :: nat"] by simp
  have bit_j: "bit (32 * i + b) n \<longleftrightarrow> bit i (n - 5)" if "5 \<le> n" for n
  proof -
    have "(32 * i + b) div 2 ^ n = (32 * i + b) div 2 ^ 5 div 2 ^ (n - 5)"
      using that by (simp only: div_mult2_eq [symmetric] power_add [symmetric]) simp
    also have "(32 * i + b) div 2 ^ 5 = i" using assms(3) by simp
    finally show ?thesis by (simp only: bit_iff_odd)
  qed
  show ?thesis
    unfolding low size
  proof (rule bit_word_eqI)
    fix n assume "n < LENGTH(32)"
    then show "bit (dbl (32 * i + b) AND (fld 5 11 AND mask (k + 21))) n =
        bit (push_bit 5 ((word_of_nat i :: ULONG) AND mask k) XOR push_bit 21 (NOT (word_of_nat i) AND mask k)) n"
      using k(2) j bit_nat_bound [OF i, of "n - 5"]
      by (auto simp: bitwise bit_push_bit_iff bit_not_iff bit_mask_iff bit_dbl bit_fld bit_j)
  qed
qed

interpretation push_and: xor_linear "\<lambda>x. push_bit n (x AND m)" for n and m :: "'a::len word"
  by unfold_locales (rule bit_word_eqI, auto simp: bitwise bit_push_bit_iff)

lemma push_and_pmask: "push_bit n ((c AND pmask w) AND m) = push_bit n (c AND m) AND pmask w"
  by (cases "par w") (simp_all only: pmask_def if_True if_False and.right_neutral and_zero_eq zero_and_eq push_bit_of_0)

lemma and_xor_distrib: "(a XOR b) AND c = (a AND c) XOR (b AND c)" for a b c :: "'a::len word"
  by (rule bit_word_eqI) (auto simp: bitwise)

lemma rows_64:
  assumes "valid_block cb"
  shows "push_bit 5 (xsum (\<lambda>i. word_of_nat i AND pmask (r i)) {..<cb div 4} AND (word_of_nat (cb div 4) - 1))
      XOR push_bit 21 (xsum (\<lambda>i. NOT (word_of_nat i) AND pmask (r i)) {..<cb div 4} AND (word_of_nat (cb div 4) - 1))
    = code_sum r (cb div 4) AND (fld 5 11 AND ecc_size_mask cb)"
proof -
  define M :: ULONG where "M = word_of_nat (cb div 4) - 1"
  have "code_sum r (cb div 4) AND (fld 5 11 AND ecc_size_mask cb)
    = xsum (\<lambda>i. (push_bit 5 (word_of_nat i AND M) XOR push_bit 21 (NOT (word_of_nat i) AND M)) AND pmask (r i)) {..<cb div 4}"
    unfolding M_def by (rule code_sum_rows [OF dbl_row_field [OF assms]])
  then show ?thesis
    unfolding M_def [symmetric] by (simp only: push_and.map_xsum push_and_pmask and_xor_distrib xor_sum.distrib)
qed

lemma bitsum_push_and: "push_bit n (bitsum f w AND m) = bitsum (\<lambda>b. push_bit n (f b AND m)) w"
  by (simp only: bitsum_def push_and.map_xsum)

lemma columns_64:
  assumes "n \<le> 2048"
  shows "(bitsum (\<lambda>b. word_of_nat b :: ULONG) (xsum r {..<n}) AND 31)
      XOR push_bit 16 (bitsum (\<lambda>b. NOT (word_of_nat b)) (xsum r {..<n}) AND 31)
    = code_sum r n AND fld 0 5"
proof -
  let ?c = "\<lambda>b. push_bit 0 ((word_of_nat b :: ULONG) AND 31) XOR push_bit 16 (NOT (word_of_nat b) AND 31)"
  have "dbl (32 * i + b) AND fld 0 5 = ?c b" if "i < n" "b < 32" for i b
  proof -
    have "32 * i + b < 65536" using that assms by linarith
    then have "dbl (32 * i + b) AND fld 0 5 = dbl b AND fld 0 5"
      using that by (intro dbl_fld_cong) simp_all
    also have "\<dots> = ?c b"
    proof (rule bit_word_eqI)
      fix m assume "m < LENGTH(32)"
      moreover have five: "(31 :: ULONG) = mask 5" by (simp add: mask_eq_exp_minus_1)
      ultimately show "bit (dbl b AND fld 0 5) m = bit (?c b) m"
        unfolding five using that bit_nat_bound [of b 5 m]
        by (auto simp: bitwise bit_push_bit_iff bit_not_iff bit_mask_iff bit_dbl bit_fld)
    qed
    finally show ?thesis .
  qed
  then have "code_sum r n AND fld 0 5 = bitsum ?c (xsum r {..<n})" by (rule code_sum_columns)
  also have "\<dots> = push_bit 0 (bitsum (\<lambda>b. word_of_nat b :: ULONG) (xsum r {..<n}) AND 31)
      XOR push_bit 16 (bitsum (\<lambda>b. NOT (word_of_nat b)) (xsum r {..<n}) AND 31)"
    unfolding bitsum_add bitsum_push_and ..
  finally show ?thesis by (simp only: push_bit_0_id id_apply)
qed

interpretation new_64bit: new_format ChecksumNewFormat64Bit
proof
  fix cb :: nat and pb :: "BYTE list" and pgno f assume cb: "valid_block cb" "cb \<le> length pb"
  define S where "S = code_sum (row pb f) (cb div 4)"
  define M :: ULONG where "M = word_of_nat (cb div 4) - 1"
  define D where "D = xsum (row pb f) {..<cb div 4}"
  define P where "P = xsum (\<lambda>i. word_of_nat i AND pmask (row pb f i)) {..<cb div 4}"
  define Q where "Q = xsum (\<lambda>i. NOT (word_of_nat i) AND pmask (row pb f i)) {..<cb div 4}"
  define R where "R = bitsum (\<lambda>b. word_of_nat b :: ULONG) D"
  define T where "T = bitsum (\<lambda>b. NOT (word_of_nat b) :: ULONG) D"
  have n: "2 \<le> cb div 4" "cb div 4 \<le> 2048" using cb(1) by (auto simp: valid_block_def)
  have rows: "fold (\<lambda>iRow (p, q, dwColumnParity).
      let dwRow = dw_at pb iRow;
          dwColumnParity = dwColumnParity XOR dwRow;
          maskRow = lParityMask dwRow
      in (p XOR (maskRow AND word_of_nat iRow), q XOR (maskRow AND NOT (word_of_nat iRow)), dwColumnParity))
     [(if f then 2 else 0)..<cb div 4] (0, 0, 0) = (P, Q, D)"
    using fold_rows_64 [of "dw_at pb" "\<lambda>i. word_of_nat i" "\<lambda>i. NOT (word_of_nat i)" "if f then 2 else 0"
        "cb div 4 - (if f then 2 else 0)" 0 0 0] n(1)
      xsum_rows_header [OF n(1), of "\<lambda>i w. word_of_nat i AND pmask w" pb f]
      xsum_rows_header [OF n(1), of "\<lambda>i w. NOT (word_of_nat i) AND pmask w" pb f]
      xsum_rows_header [OF n(1), of "\<lambda>i w. w" pb f]
    by (simp add: P_def Q_def D_def)
  have cols: "fold (\<lambda>iColumn (r, s).
      let maskColumn = (if D AND push_bit iColumn 1 \<noteq> 0 then - 1 else 0)
      in (r XOR (maskColumn AND word_of_nat iColumn), s XOR (maskColumn AND NOT (word_of_nat iColumn)))) [0..<32] (0, 0)
     = (R, T)"
    unfolding fold_columns_64 by (simp add: R_def T_def bitsum_if)
  obtain k where k: "M = mask k" "k \<le> 11"
    using cb(1) that [of 8] that [of 9] that [of 10] that [of 11]
    by (auto simp: valid_block_def M_def mask_eq_exp_minus_1)
  have five: "(31 :: ULONG) = mask 5" by (simp add: mask_eq_exp_minus_1)
  have byte_column: "32 div 8 = (4 :: nat)" and column_mask: "word_of_nat 32 - 1 = (31 :: ULONG)" by simp_all
  have "push_bit 21 (Q AND M) OR push_bit 16 (T AND 31) OR push_bit 5 (P AND M) OR push_bit 0 (R AND 31) OR 0
    = (push_bit 5 (P AND M) XOR push_bit 21 (Q AND M)) OR ((R AND 31) XOR push_bit 16 (T AND 31))"
    unfolding k five using k(2) by (intro bit_word_eqI) (auto simp: bitwise bit_push_bit_iff bit_mask_iff)
  also have "\<dots> = (S AND (fld 5 11 AND ecc_size_mask cb)) OR (S AND fld 0 5)"
    using rows_64 [OF cb(1), of "row pb f"] columns_64 [OF n(2), of "row pb f"]
    by (simp only: P_def Q_def M_def R_def T_def S_def D_def)
  also have "\<dots> = S AND ecc_size_mask cb"
  proof -
    have "ecc_size_mask cb AND fld 0 5 = (ecc_size_mask cb AND 0x001fffff) AND fld 0 5"
      by (simp add: and.assoc flip: fld_numerals)
    then have "ecc_size_mask cb AND fld 0 5 = fld 0 5"
      using ecc_size_mask_low [OF cb(1)] by (simp flip: fld_numerals)
    then show ?thesis
      unfolding and.assoc [symmetric] by (intro merge_fields) (simp_all flip: fld_numerals)
  qed
  finally have "ChecksumNewFormat64Bit pb cb pgno f = MakeChecksumFromECCXORAndPgno (S AND ecc_size_mask cb) D pgno"
    unfolding ChecksumNewFormat64Bit_def M_def
    by (simp only: Let_def byte_column rows [unfolded Let_def] cols [unfolded Let_def] prod.case column_mask)
  then show "ChecksumNewFormat64Bit pb cb pgno f = new_checksum_spec pb cb pgno f"
    by (simp add: new_spec_code_sum [OF cb] S_def D_def)
qed

end
