(* ===== verification/Checksum_Vector.thy ===== *)
theory Checksum_Vector
  imports Checksum_Routines
begin

unbundle bit_operations_syntax

text \<open>
  The SSE2 and AVX routines meet the contract of a new-format routine. A block is read as a
  sequence of wide words whose lanes are the 32-bit words of the block (locale
  \<open>lane_block\<close>); the accumulators of the wide loops are then sums over those 32-bit words.
\<close>

section \<open>Blocks read as wide words\<close>

locale lane_block =
  fixes v :: "nat \<Rightarrow> 'a::len word" and r :: "nat \<Rightarrow> ULONG" and L :: nat
  assumes width: "LENGTH('a) = 32 * L"
    and lane_word: "k < L \<Longrightarrow> lane k (v i) = r (L * i + k)"
begin

lemma pmask_word: "pmask (v i) = pmask (xsum (\<lambda>k. r (L * i + k)) {..<L})"
  unfolding pmask_lanes [OF width] pmask.map_xsum by (rule xor_sum.cong) (simp_all add: lane_word)

lemma pmask_row4: "pmask (row4 v k) = pmask (xsum (\<lambda>l. r (4 * L * k + l)) {..<4 * L})"
proof -
  have "xsum (\<lambda>l. r (4 * L * k + l)) {..<4 * L} = xsum (\<lambda>l. r (4 * L * k + l)) {..<L * 4}" by (simp add: mult.commute)
  also have "\<dots> = xsum (\<lambda>j. xsum (\<lambda>l. r (4 * L * k + (L * j + l))) {..<L}) {..<4}"
    by (rule xsum_blocks)
  also have "pmask \<dots> = xsum (\<lambda>j. pmask (v (4 * k + j))) {..<4}"
    by (simp add: pmask.map_xsum [of _ "{..<4}"] pmask_word algebra_simps)
  finally show ?thesis
    by (simp add: row4_def pmask_xor lessThan_4 xor.assoc)
qed

lemma lane_column:
  assumes "k < L"
  shows "lane k (xsum (\<lambda>i. v (4 * i + j)) {..<n}) = xsum (\<lambda>i. r (4 * L * i + (L * j + k))) {..<n}"
  using assms by (simp add: lane.map_xsum lane_word algebra_simps)

lemma pmask_column:
  "pmask (xsum (\<lambda>i. v (4 * i + j)) {..<n}) = pmask (xsum (\<lambda>l. xsum (\<lambda>i. r (4 * L * i + (L * j + l))) {..<n}) {..<L})"
  unfolding pmask_lanes [OF width] pmask.map_xsum [of _ "{..<L}"]
  by (rule xor_sum.cong) (simp_all add: lane_column)

lemma lane_all: "k < L \<Longrightarrow> lane k (xsum v {..<n}) = xsum (\<lambda>i. r (L * i + k)) {..<n}"
  by (simp add: lane.map_xsum lane_word)

end

lemma fold_parity_lanes:
  "fold (\<lambda>i (q, dw0, idxq). let dwT = w i in (q XOR (idxq AND pmask dwT), dw0 XOR dwT, idxq + 0xffe00020))
     [0..<n] (0, 0, 0xffe00000)
   = (xsum (\<lambda>l. idx 5 l AND pmask (w l)) {..<n}, xsum w {..<n}, idx 5 n)" for w :: "nat \<Rightarrow> ULONG"
proof (induction n)
  case 0
  then show ?case by (simp add: idx_def)
next
  case (Suc n)
  have "idx 5 (Suc n) = idx 5 n + 0xffe00020" by (simp add: idx_Suc)
  then show ?case using Suc by (simp add: Let_def lessThan_Suc xor.commute)
qed

section \<open>Fields found from groups of 16 and 32 words\<close>

lemma code_sum_high:
  assumes "32 * m = 2 ^ a" and "a \<le> 16" and "m * n \<le> 2048" and "0 < m"
  shows "code_sum r (m * n) AND fld a (16 - a) = xsum (\<lambda>k. idx a k AND pmask (xsum (\<lambda>l. r (m * k + l)) {..<m})) {..<n}"
proof (rule code_sum_groups [OF _ assms(4)])
  fix i b assume "i < m * n" "b < (32 :: nat)"
  then have "32 * i + b < 65536" and "(32 * i + b) div 2 ^ a = i div m"
    using assms(3) by (simp_all add: div_mult2_eq flip: assms(1))
  then show "dbl (32 * i + b) AND fld a (16 - a) = idx a (i div m)"
    using dbl_fld_high [of "32 * i + b" a] assms(2) by simp
qed

text \<open>The bits \<open>a\<close> to \<open>a + b - 1\<close> of an index come from the word number modulo \<open>m\<close>.\<close>

lemma code_sum_part:
  assumes "32 * d = 2 ^ a" and "m = d * 2 ^ b" and "a + b \<le> 16" and "m * n \<le> 2048"
  shows "code_sum r (m * n) AND fld a b
    = fld a b AND xsum (\<lambda>l. idx a (l div d) AND pmask (xsum (\<lambda>k. r (m * k + l)) {..<n})) {..<m}"
proof -
  have "code_sum r (m * n) AND fld a b
    = xsum (\<lambda>l. (idx a (l div d) AND fld a b) AND pmask (xsum (\<lambda>k. r (m * k + l)) {..<n})) {..<m}"
  proof (rule code_sum_positions)
    fix i t assume "i < m * n" "t < (32 :: nat)"
    then have j: "32 * i + t < 65536" and "(32 * i + t) div 2 ^ a = i div d"
      using assms(4) by (simp_all add: div_mult2_eq flip: assms(1))
    moreover have "0 < d" using assms(1) by (cases d) auto
    then have "i div d mod 2 ^ b = i mod m div d" unfolding assms(2) by (simp add: mod_mult2_eq)
    ultimately show "dbl (32 * i + t) AND fld a b = idx a (i mod m div d) AND fld a b"
      using dbl_fld_part [OF j assms(3)] by simp
  qed
  also have "\<dots> = xsum (\<lambda>l. fld a b AND (idx a (l div d) AND pmask (xsum (\<lambda>k. r (m * k + l)) {..<n}))) {..<m}"
    by (simp add: and.assoc and.left_commute)
  finally show ?thesis by (simp only: and_const.map_xsum)
qed

section \<open>The column part, byte by byte\<close>

definition col_byte :: "nat \<Rightarrow> ULONG \<Rightarrow> ULONG" where
  "col_byte i dw = drop_bit (8 * i) dw AND 0xff"

interpretation col_byte: xor_linear "col_byte i" for i
  by unfold_locales (rule bit_word_eqI, auto simp: col_byte_def bitwise bit_drop_bit_eq)

lemma col_byte_single:
  assumes "b < 32"
  shows "col_byte i (2 ^ b) = (if 8 * i \<le> b \<and> b < 8 * i + 8 then 2 ^ (b - 8 * i) else 0)"
proof (rule bit_word_eqI)
  fix n assume "n < LENGTH(32)"
  have ff: "(0xff :: ULONG) = mask 8" by (simp add: mask_eq_exp_minus_1)
  show "bit (col_byte i (2 ^ b)) n = bit (if 8 * i \<le> b \<and> b < 8 * i + 8 then 2 ^ (b - 8 * i) else 0 :: ULONG) n"
    unfolding col_byte_def ff using assms \<open>n < LENGTH(32)\<close>
    by (auto simp: bit_simps)
qed

definition ecc_low :: "ULONG \<Rightarrow> ULONG" where
  "ecc_low = bitsum (\<lambda>k. [0x70, 0x61, 0x52, 0x43, 0x34, 0x25, 0x16, 0x07] ! k)"

interpretation ecc_low: xor_linear ecc_low
  by unfold_locales (simp add: ecc_low_def bitsum_xor)

lemma lECCLookup8bit_eq: "lECCLookup8bit byte = ecc_low (byte AND 0xff)"
proof -
  define n where "n = unat (byte AND 0xff)"
  have "n < 256"
    using take_bit_nat_less_exp [of 8 "unat byte"] by (simp add: n_def and_ff unsigned_take_bit_eq)
  moreover have "length g_bECCLookupTable = 256" by (simp add: g_bECCLookupTable_def)
  ultimately have "lECCLookup8bit byte = map word_of_nat g_bECCLookupTable ! n"
    by (simp add: lECCLookup8bit_def n_def)
  also have "\<dots> = ecc_low (word_of_nat n)"
    unfolding ecc_table_lin ecc_low_def using \<open>n < 256\<close> by (intro lin_table_nth) simp_all
  finally show ?thesis by (simp add: n_def)
qed

text \<open>Both sides of the next lemma are linear, so they agree when they agree on single bits.\<close>

definition ecc_bytes_sum :: "ULONG \<Rightarrow> ULONG" where
  "ecc_bytes_sum dw = (idx 3 0 AND pmask (col_byte 0 dw)) XOR (idx 3 1 AND pmask (col_byte 1 dw))
     XOR (idx 3 2 AND pmask (col_byte 2 dw)) XOR (idx 3 3 AND pmask (col_byte 3 dw))
     XOR (ecc_low (col_byte 0 dw XOR col_byte 1 dw XOR col_byte 2 dw XOR col_byte 3 dw) AND 0x07)
     XOR (push_bit 12 (ecc_low (col_byte 0 dw XOR col_byte 1 dw XOR col_byte 2 dw XOR col_byte 3 dw)) AND 0x00070000)"

interpretation ecc_bytes_sum: xor_linear ecc_bytes_sum
proof
  have distr: "c AND (a XOR b) = (c AND a) XOR (c AND b)" "(a XOR b) AND c = (a AND c) XOR (b AND c)"
    "push_bit n (a XOR b) = push_bit n a XOR push_bit n b" for a b c :: ULONG and n
    by (rule bit_word_eqI, auto simp: bitwise bit_push_bit_iff)+
  fix x y
  show "ecc_bytes_sum (x XOR y) = ecc_bytes_sum x XOR ecc_bytes_sum y"
    unfolding ecc_bytes_sum_def col_byte.map_xor pmask_xor ecc_low.map_xor distr
    by (simp only: xor.assoc xor.commute xor.left_commute)
qed

lemma ecc_bytes_sum_at:
  assumes "i < 4" and "c < 8"
  shows "ecc_bytes_sum (2 ^ (8 * i + c)) = idx 3 i XOR (ecc_low (2 ^ c) AND 0x07) XOR (push_bit 12 (ecc_low (2 ^ c)) AND 0x00070000)"
proof -
  have "8 * i + c < 32" using assms by linarith
  then have byte: "col_byte k (2 ^ (8 * i + c)) = (if k = i then 2 ^ c else 0)" if "k < 4" for k
    using assms that by (auto simp: col_byte_single)
  have bytes: "col_byte 0 (2 ^ (8 * i + c)) = (if 0 = i then 2 ^ c else 0)"
    "col_byte 1 (2 ^ (8 * i + c)) = (if 1 = i then 2 ^ c else 0)"
    "col_byte 2 (2 ^ (8 * i + c)) = (if 2 = i then 2 ^ c else 0)"
    "col_byte 3 (2 ^ (8 * i + c)) = (if 3 = i then 2 ^ c else 0)"
    by (rule byte, simp)+
  have par: "pmask (2 ^ c :: ULONG) = - 1" using assms by (intro pmask_single) simp
  have "i = 0 \<or> i = 1 \<or> i = 2 \<or> i = 3" using assms(1) by linarith
  then show ?thesis
    unfolding ecc_bytes_sum_def bytes
    by (elim disjE) (simp_all add: par)
qed

lemma ecc_bytes_sum_single:
  assumes "b < 32"
  shows "ecc_bytes_sum (2 ^ b) AND fld 0 5 = idx 0 b AND fld 0 5"
proof -
  define i where "i = b div 8"
  define c where "c = b mod 8"
  have "b = 8 * i + c" "i < 4" "c < 8" using assms by (auto simp: i_def c_def)
  moreover from this have "i = 0 \<or> i = 1 \<or> i = 2 \<or> i = 3" by linarith
  moreover from calculation have "c = 0 \<or> c = 1 \<or> c = 2 \<or> c = 3 \<or> c = 4 \<or> c = 5 \<or> c = 6 \<or> c = 7" by linarith
  moreover have "ecc_low (2 ^ c) = [0x70, 0x61, 0x52, 0x43, 0x34, 0x25, 0x16, 0x07] ! c"
    using \<open>c < 8\<close> by (simp add: ecc_low_def bitsum_single)
  ultimately show ?thesis
    by (simp only: ecc_bytes_sum_at fld_numerals [symmetric] idx_def) (elim disjE, simp_all)
qed

lemma or_disjoint_fields:
  assumes "r AND 0x00070007 = (0 :: ULONG)"
  shows "(r OR (a AND 0x07)) OR (b AND 0x00070000) = r XOR (a AND 0x07) XOR (b AND 0x00070000)"
proof -
  have "r AND 0x07 = (r AND 0x00070007) AND 0x07" and "r AND 0x00070000 = (r AND 0x00070007) AND 0x00070000"
    by (simp_all add: and.assoc)
  then have "r AND 0x07 = 0" and "r AND 0x00070000 = 0" by (simp_all only: assms and_zero_eq zero_and_eq)
  moreover have "(7 :: ULONG) AND 0x00070000 = 0" by simp
  ultimately have "\<not> (bit r n \<and> bit (7 :: ULONG) n)" "\<not> (bit r n \<and> bit (0x00070000 :: ULONG) n)"
    "\<not> (bit (7 :: ULONG) n \<and> bit (0x00070000 :: ULONG) n)" for n
    by (metis bit_and_iff bit_0_eq bot_apply bot_bool_def)+
  then show ?thesis by (intro bit_word_eqI) (auto simp only: bit_or_iff bit_and_iff bit_xor_iff)
qed

lemma ecc_bytes_sum_eq: "ecc_bytes pmask dw = ecc_bytes_sum dw"
proof -
  define r where "r = (((0 XOR (idx 3 0 AND pmask (col_byte 0 dw))) XOR (idx 3 1 AND pmask (col_byte 1 dw)))
     XOR (idx 3 2 AND pmask (col_byte 2 dw))) XOR (idx 3 3 AND pmask (col_byte 3 dw))"
  define byte0 where "byte0 = (((0 XOR dw) XOR drop_bit 8 dw) XOR drop_bit 16 dw) XOR drop_bit 24 dw"
  have upt: "[0..<4] = [0, 1, 2, 3 :: nat]" by (simp add: upt_rec)
  have idx: "0xfff80000 = idx 3 0" "idx 3 0 + 0xfff80008 = idx 3 1" "idx 3 1 + 0xfff80008 = idx 3 2"
    "idx 3 2 + 0xfff80008 = idx 3 3" by (simp_all add: idx_def)
  have cols: "dw AND 0xff = col_byte 0 dw" "drop_bit 8 dw AND 0xff = col_byte 1 dw"
    "drop_bit 16 dw AND 0xff = col_byte 2 dw" "drop_bit 24 dw AND 0xff = col_byte 3 dw"
    by (simp_all add: col_byte_def)
  have drops: "drop_bit 8 (drop_bit 8 dw) = drop_bit 16 dw" "drop_bit 8 (drop_bit 16 dw) = drop_bit 24 dw" by simp_all
  have "ecc_bytes pmask dw = (r OR (lECCLookup8bit byte0 AND 0x07)) OR (push_bit 12 (lECCLookup8bit byte0) AND 0x00070000)"
    unfolding ecc_bytes_def Let_def upt r_def byte0_def
    by (simp only: fold_simps prod.case idx(1) cols drops idx id_apply comp_def)
  also have "\<dots> = r XOR (lECCLookup8bit byte0 AND 0x07) XOR (push_bit 12 (lECCLookup8bit byte0) AND 0x00070000)"
    by (rule or_disjoint_fields) (auto simp: r_def pmask_def idx_def)
  also have "lECCLookup8bit byte0 = ecc_low (col_byte 0 dw XOR col_byte 1 dw XOR col_byte 2 dw XOR col_byte 3 dw)"
    unfolding lECCLookup8bit_eq byte0_def
    by (rule arg_cong [where f = ecc_low]) (rule bit_word_eqI, auto simp: col_byte_def bitwise)
  finally show ?thesis by (simp only: ecc_bytes_sum_def r_def xor.assoc xor.left_neutral)
qed

lemma ecc_bytes_eq: "ecc_bytes pmask dw AND fld 0 5 = bitsum (idx 0) dw AND fld 0 5"
proof -
  have "ecc_bytes pmask dw AND fld 0 5 = ecc_bytes_sum dw AND fld 0 5" by (simp only: ecc_bytes_sum_eq)
  also have "\<dots> = fld 0 5 AND bitsum (\<lambda>b. ecc_bytes_sum (2 ^ b)) dw"
    by (simp only: and.commute flip: ecc_bytes_sum.map_bits)
  also have "\<dots> = bitsum (\<lambda>b. fld 0 5 AND idx 0 b) dw"
    unfolding bitsum_and [symmetric]
    by (rule bitsum_cong) (use ecc_bytes_sum_single in \<open>auto simp: and.commute dest!: bit_imp_le_length\<close>)
  also have "\<dots> = fld 0 5 AND bitsum (idx 0) dw" by (rule bitsum_and)
  finally show ?thesis by (simp only: and.commute)
qed

section \<open>The SSE2 routine\<close>

definition ow_row :: "BYTE list \<Rightarrow> bool \<Rightarrow> nat \<Rightarrow> 128 word" where
  "ow_row pb f i = (if f \<and> i = 0 then mm_unpackhi_epi64 0 (ow_at pb 0) else ow_at pb i)"

lemma ow_row_Suc: "0 < i \<Longrightarrow> ow_at pb i = ow_row pb f i"
  by (simp add: ow_row_def)

lemma lane_unpackhi: "k < 4 \<Longrightarrow> lane k (mm_unpackhi_epi64 0 dq) = (if k < 2 then 0 else lane k dq)"
  by (auto simp: mm_unpackhi_epi64_def less_Suc_eq numeral_eq_Suc)

interpretation ow_block: lane_block "ow_row pb f" "row pb f" 4 for pb f
proof
  fix k i :: nat assume "k < 4"
  then show "lane k (ow_row pb f i) = row pb f (4 * i + k)"
    by (auto simp: ow_row_def lane_unpackhi lane_ow row_def)
qed simp

lemma ecc_row_step128_eq:
  "ecc_row_step128 g pb (8 * t) (idx 9 (2 * t)) (rows_acc 9 (ow_row pb f) (2 * t)) (ow_row pb f (8 * t))
   = (idx 9 (2 * t + 2), rows_acc 9 (ow_row pb f) (2 * t + 2))"
proof -
  have idx: "idx 9 (Suc k) = idx 9 k + 0xfe000200" for k by (simp add: idx_Suc)
  have ow: "ow_at pb (8 * t + j) = ow_row pb f (8 * t + j)" if "0 < j" for j
    using that by (simp add: ow_row_Suc [of "8 * t + j"])
  have ows: "ow_at pb (8 * t + 1) = ow_row pb f (8 * t + 1)" "ow_at pb (8 * t + 2) = ow_row pb f (8 * t + 2)"
    "ow_at pb (8 * t + 3) = ow_row pb f (8 * t + 3)" "ow_at pb (8 * t + 4) = ow_row pb f (8 * t + 4)"
    "ow_at pb (8 * t + 5) = ow_row pb f (8 * t + 5)" "ow_at pb (8 * t + 6) = ow_row pb f (8 * t + 6)"
    "ow_at pb (8 * t + 7) = ow_row pb f (8 * t + 7)"
    by (rule ow, simp)+
  show ?thesis
    unfolding ecc_row_step128_def rows_acc_def ows
    by (simp add: Let_def idx row4_def xor.commute xor.left_commute xor.assoc lessThan_Suc
        add.commute [of _ "8 * t"])
qed

lemma ecc_rows128_eq:
  "t < m \<Longrightarrow>
   ecc_rows128 g pb (8 * m) (8 * t) (idx 9 (2 * t)) (rows_acc 9 (ow_row pb f) (2 * t)) (ow_row pb f (8 * t))
   = rows_acc 9 (ow_row pb f) (2 * m)"
proof (induction "m - Suc t" arbitrary: t)
  case 0
  then have "m = Suc t" by simp
  then show ?case by (subst ecc_rows128.simps) (simp add: ecc_row_step128_eq [simplified])
next
  case (Suc d)
  then have "Suc t < m" and "d = m - Suc (Suc t)" by simp_all
  then have "ecc_rows128 g pb (8 * m) (8 * Suc t) (idx 9 (2 * Suc t)) (rows_acc 9 (ow_row pb f) (2 * Suc t))
      (ow_row pb f (8 * Suc t)) = rows_acc 9 (ow_row pb f) (2 * m)"
    using Suc.hyps(1) by blast
  then show ?case
    using \<open>Suc t < m\<close> ow_row_Suc [of "8 * t + 8" pb f]
    by (subst ecc_rows128.simps) (simp add: ecc_row_step128_eq [simplified] add.commute)
qed

lemma merge_vector_fields:
  assumes "valid_block cb" and "n1 OR n2 = (- 1 :: ULONG)" and "n2 AND 0x1fffffff = n2"
  shows "((s AND n1) AND ecc_size_mask cb) OR (s AND n2) = s AND ecc_size_mask cb"
proof (rule merge_fields [OF assms(2)])
  have "ecc_size_mask cb AND n2 = (ecc_size_mask cb AND 0x1fffffff) AND n2"
    by (metis assms(3) and.assoc and.commute)
  then show "ecc_size_mask cb AND n2 = n2"
    using ecc_size_mask_29 [OF assms(1)] assms(3) by (simp add: and.commute)
qed

lemma sse2_columns:
  assumes "rows_acc 9 (ow_row pb f) n = (p, dq0, dq1, dq2, dq3)" and "l < 16"
  shows "(map (\<lambda>k. lane k dq0) [0..<4] @ map (\<lambda>k. lane k dq1) [0..<4]
       @ map (\<lambda>k. lane k dq2) [0..<4] @ map (\<lambda>k. lane k dq3) [0..<4]) ! l
    = xsum (\<lambda>t. row pb f (16 * t + l)) {..<n}"
proof -
  have cols: "dq0 = xsum (\<lambda>t. ow_row pb f (4 * t + 0)) {..<n}" "dq1 = xsum (\<lambda>t. ow_row pb f (4 * t + 1)) {..<n}"
    "dq2 = xsum (\<lambda>t. ow_row pb f (4 * t + 2)) {..<n}" "dq3 = xsum (\<lambda>t. ow_row pb f (4 * t + 3)) {..<n}"
    using assms(1) by (simp_all add: rows_acc_def)
  show ?thesis
    unfolding cols using assms(2)
    by (auto simp: nth_append ow_block.lane_column [where j = 0, simplified] ow_block.lane_column [where j = 1, simplified]
        ow_block.lane_column [where j = 2, simplified] ow_block.lane_column [where j = 3, simplified])
qed

interpretation new_sse2: new_format "ChecksumNewFormatSSE2 g" for g
proof
  fix cb :: nat and pb :: "BYTE list" and pgno f assume cb: "valid_block cb" "cb \<le> length pb"
  define n where "n = cb div 64"
  define S where "S = code_sum (row pb f) (16 * n)"
  define D where "D = xsum (row pb f) {..<16 * n}"
  have n: "0 < cb div 128" "8 * (cb div 128) = cb div 16" "2 * (cb div 128) = n" "16 * n = cb div 4" "16 * n \<le> 2048"
    using cb(1) by (auto simp: valid_block_def n_def)
  obtain p dq0 dq1 dq2 dq3 where acc: "rows_acc 9 (ow_row pb f) n = (p, dq0, dq1, dq2, dq3)" by (metis surj_pair)
  have rows: "ecc_rows128 g pb (cb div 16) 0 0xfe000000 (0, 0, 0, 0, 0)
      (if f then mm_unpackhi_epi64 0 (ow_at pb 0) else ow_at pb 0) = (p, dq0, dq1, dq2, dq3)"
    using ecc_rows128_eq [OF n(1), of g pb f] acc by (simp add: n rows_acc_def ow_row_def idx_def)
  define w where "w l = (map (\<lambda>k. lane k dq0) [0..<4] @ map (\<lambda>k. lane k dq1) [0..<4]
       @ map (\<lambda>k. lane k dq2) [0..<4] @ map (\<lambda>k. lane k dq3) [0..<4]) ! l" for l
  have w: "w l = xsum (\<lambda>t. row pb f (16 * t + l)) {..<n}" if "l < 16" for l
    unfolding w_def using acc that by (rule sse2_columns)
  define Q where "Q = xsum (\<lambda>l. idx 5 l AND pmask (w l)) {..<16}"
  have "xsum w {..<16} = xsum (\<lambda>l. xsum (\<lambda>t. row pb f (16 * t + l)) {..<n}) {..<16}"
    by (rule xor_sum.cong) (simp_all add: w)
  then have D: "xsum w {..<16} = D"
    unfolding D_def xsum_blocks by (subst xor_sum.swap) simp
  have "p = xsum (\<lambda>k. idx 9 k AND pmask (row4 (ow_row pb f) k)) {..<n}" using acc by (simp add: rows_acc_def)
  then have "p = S AND 0xfe00fe00"
    using code_sum_high [of 16 9 n "row pb f"] n(5) by (simp add: ow_block.pmask_row4 S_def fld_numerals)
  then have p: "p AND 0xfe00fe00 = S AND 0xfe00fe00" by (simp add: and.assoc)
  have "S AND fld 5 4 = fld 5 4 AND xsum (\<lambda>l. idx 5 (l div 1) AND pmask (xsum (\<lambda>k. row pb f (16 * k + l)) {..<n})) {..<16}"
    unfolding S_def using n(5) by (intro code_sum_part) simp_all
  also have "xsum (\<lambda>l. idx 5 (l div 1) AND pmask (xsum (\<lambda>k. row pb f (16 * k + l)) {..<n})) {..<16} = Q"
    unfolding Q_def by (rule xor_sum.cong) (simp_all add: w)
  finally have q: "Q AND 0x01e001e0 = S AND 0x01e001e0" by (simp add: fld_numerals and.commute)
  have r: "ecc_bytes pmask D AND 0x001f001f = S AND 0x001f001f"
    using code_sum_low_5 [OF n(5), of "row pb f"] by (simp add: ecc_bytes_eq D_def S_def fld_numerals)
  have "((p AND 0xfe00fe00) AND ecc_size_mask cb) OR (Q AND 0x01e001e0) OR (ecc_bytes pmask D AND 0x001f001f)
    = ((S AND 0xfe00fe00) AND ecc_size_mask cb) OR (S AND 0x01ff01ff)"
    unfolding p q r and_collect by simp
  also have "\<dots> = S AND ecc_size_mask cb" using cb(1) by (rule merge_vector_fields) simp_all
  finally have ecc: "((p AND 0xfe00fe00) AND ecc_size_mask cb) OR (Q AND 0x01e001e0) OR (ecc_bytes pmask D AND 0x001f001f)
    = S AND ecc_size_mask cb" .
  have par: "parity32 g = pmask" by (rule ext) simp
  show "ChecksumNewFormatSSE2 g pb cb pgno f = new_checksum_spec pb cb pgno f"
    unfolding ChecksumNewFormatSSE2_def Let_def rows prod.case par
      fold_parity_lanes [unfolded Let_def] w_def [symmetric] Q_def [symmetric] D ecc
    by (simp add: new_spec_code_sum [OF cb] S_def D_def n)
qed

section \<open>The AVX routine\<close>

definition yw_row :: "BYTE list \<Rightarrow> bool \<Rightarrow> nat \<Rightarrow> 256 word" where
  "yw_row pb f i = (if f \<and> i = 0 then mm256_of_halves (mm_unpackhi_epi64 0 (ow_at pb 0)) (ow_at pb 1) else yw_at pb i)"

lemma yw_row_Suc: "0 < i \<Longrightarrow> yw_at pb i = yw_row pb f i"
  by (simp add: yw_row_def)

lemma lane_of_halves: "k < 8 \<Longrightarrow> lane k (mm256_of_halves lo hi) = (if k < 4 then lane k lo else lane (k - 4) hi)"
  by (auto simp: mm256_of_halves_def nth_append)

interpretation yw_block: lane_block "yw_row pb f" "row pb f" 8 for pb f
proof
  fix k i :: nat assume "k < 8"
  then show "lane k (yw_row pb f i) = row pb f (8 * i + k)"
    by (auto simp: yw_row_def lane_of_halves lane_unpackhi lane_ow lane_yw row_def)
qed simp

lemma ecc_row_step256_eq:
  "ecc_row_step256 pb (4 * t) (idx 10 t) (rows_acc 10 (yw_row pb f) t) (yw_row pb f (4 * t))
   = (idx 10 (Suc t), rows_acc 10 (yw_row pb f) (Suc t))"
proof -
  have idx: "idx 10 (Suc k) = idx 10 k + 0xfc000400" for k by (simp add: idx_Suc)
  have yw: "yw_at pb (4 * t + j) = yw_row pb f (4 * t + j)" if "0 < j" for j
    using that by (simp add: yw_row_Suc [of "4 * t + j"])
  have yws: "yw_at pb (4 * t + 1) = yw_row pb f (4 * t + 1)" "yw_at pb (4 * t + 2) = yw_row pb f (4 * t + 2)"
    "yw_at pb (4 * t + 3) = yw_row pb f (4 * t + 3)"
    by (rule yw, simp)+
  show ?thesis
    unfolding ecc_row_step256_def rows_acc_def yws
    by (simp add: Let_def idx row4_def xor.commute xor.left_commute xor.assoc lessThan_Suc)
qed

lemma ecc_rows256_eq:
  "t < m \<Longrightarrow> ecc_rows256 pb (4 * m) (4 * t) (idx 10 t) (rows_acc 10 (yw_row pb f) t) (yw_row pb f (4 * t))
   = rows_acc 10 (yw_row pb f) m"
proof (induction "m - Suc t" arbitrary: t)
  case 0
  then have "m = Suc t" by simp
  then show ?case by (subst ecc_rows256.simps) (simp add: ecc_row_step256_eq)
next
  case (Suc d)
  then have "Suc t < m" and "d = m - Suc (Suc t)" by simp_all
  then have "ecc_rows256 pb (4 * m) (4 * Suc t) (idx 10 (Suc t)) (rows_acc 10 (yw_row pb f) (Suc t))
      (yw_row pb f (4 * Suc t)) = rows_acc 10 (yw_row pb f) m"
    using Suc.hyps(1) by blast
  then show ?case
    using \<open>Suc t < m\<close> yw_row_Suc [of "4 * t + 4" pb f]
    by (subst ecc_rows256.simps) (simp add: ecc_row_step256_eq add.commute)
qed

lemma avx_columns:
  assumes "rows_acc 10 (yw_row pb f) n = (p, qq0, qq1, qq2, qq3)"
  shows "qq0 = xsum (\<lambda>t. yw_row pb f (4 * t + 0)) {..<n}" and "qq1 = xsum (\<lambda>t. yw_row pb f (4 * t + 1)) {..<n}"
    and "qq2 = xsum (\<lambda>t. yw_row pb f (4 * t + 2)) {..<n}" and "qq3 = xsum (\<lambda>t. yw_row pb f (4 * t + 3)) {..<n}"
    and "qq0 XOR qq1 XOR qq2 XOR qq3 = xsum (yw_row pb f) {..<4 * n}"
  using assms by (simp_all add: rows_acc_def xsum_blocks lessThan_4 xor_sum.distrib xor.assoc)

text \<open>Bits 8 and 9 of the code come from the four registers, bits 5 to 7 from their lanes.\<close>

lemma avx_registers:
  assumes "rows_acc 10 (yw_row pb f) n = (p, qq0, qq1, qq2, qq3)" and "32 * n \<le> 2048"
  shows "code_sum (row pb f) (32 * n) AND fld 8 2 = fld 8 2 AND (((((0 XOR (idx 8 0 AND pmask qq0)) XOR (idx 8 1 AND pmask qq1))
    XOR (idx 8 2 AND pmask qq2)) XOR (idx 8 3 AND pmask qq3)))"
proof -
  define c where "c l = xsum (\<lambda>k. row pb f (32 * k + l)) {..<n}" for l
  have "code_sum (row pb f) (32 * n) AND fld 8 2 = fld 8 2 AND xsum (\<lambda>l. idx 8 (l div 8) AND pmask (c l)) {..<32}"
    unfolding c_def using assms(2) by (intro code_sum_part) simp_all
  also have "xsum (\<lambda>l. idx 8 (l div 8) AND pmask (c l)) {..<32} = xsum (\<lambda>l. idx 8 (l div 8) AND pmask (c l)) {..<8 * 4}" by simp
  also have "\<dots> = xsum (\<lambda>j. xsum (\<lambda>l. idx 8 ((8 * j + l) div 8) AND pmask (c (8 * j + l))) {..<8}) {..<4}"
    by (rule xsum_blocks)
  also have "\<dots> = xsum (\<lambda>j. idx 8 j AND pmask (xsum (\<lambda>t. yw_row pb f (4 * t + j)) {..<n})) {..<4}"
    by (rule xor_sum.cong) (simp_all add: yw_block.pmask_column c_def pmask.map_xsum [of _ "{..<8}"] and_const.map_xsum)
  also have "\<dots> = ((((0 XOR (idx 8 0 AND pmask qq0)) XOR (idx 8 1 AND pmask qq1))
    XOR (idx 8 2 AND pmask qq2)) XOR (idx 8 3 AND pmask qq3))"
    using avx_columns [OF assms(1)] by (simp add: lessThan_4 xor.assoc)
  finally show ?thesis .
qed

interpretation new_avx: new_format ChecksumNewFormatAVX
proof
  fix cb :: nat and pb :: "BYTE list" and pgno f assume cb: "valid_block cb" "cb \<le> length pb"
  define n where "n = cb div 128"
  define S where "S = code_sum (row pb f) (32 * n)"
  define D where "D = xsum (row pb f) {..<32 * n}"
  have n: "0 < n" "4 * n = cb div 32" "32 * n = cb div 4" "32 * n \<le> 2048"
    using cb(1) by (auto simp: valid_block_def n_def)
  obtain p qq0 qq1 qq2 qq3 where acc: "rows_acc 10 (yw_row pb f) n = (p, qq0, qq1, qq2, qq3)" by (metis surj_pair)
  have rows: "ecc_rows256 pb (cb div 32) 0 0xfc000000 (0, 0, 0, 0, 0)
      (if f then mm256_of_halves (mm_unpackhi_epi64 0 (ow_at pb 0)) (ow_at pb 1) else yw_at pb 0) = (p, qq0, qq1, qq2, qq3)"
    using ecc_rows256_eq [OF n(1), of pb f] acc by (simp add: n rows_acc_def yw_row_def idx_def)
  define A where "A = qq0 XOR qq1 XOR qq2 XOR qq3"
  define Q where "Q = (((0 XOR (idx 8 0 AND pmask qq0)) XOR (idx 8 1 AND pmask qq1)) XOR (idx 8 2 AND pmask qq2)) XOR (idx 8 3 AND pmask qq3)"
  define Q' where "Q' = xsum (\<lambda>l. idx 5 l AND pmask (lane l A)) {..<8}"
  have A: "A = xsum (yw_row pb f) {..<4 * n}" unfolding A_def by (rule avx_columns [OF acc])
  have lanes: "lane l A = xsum (\<lambda>k. row pb f (8 * k + l)) {..<4 * n}" if "l < 8" for l
    using that by (simp add: A yw_block.lane_all)
  have S8: "S = code_sum (row pb f) (8 * (4 * n))" and D8: "D = xsum (row pb f) {..<8 * (4 * n)}"
    by (simp_all add: S_def D_def)
  have "xsum (\<lambda>l. lane l A) {..<8} = xsum (\<lambda>l. xsum (\<lambda>k. row pb f (8 * k + l)) {..<4 * n}) {..<8}"
    by (rule xor_sum.cong) (simp_all add: lanes)
  also have "\<dots> = xsum (\<lambda>k. xsum (\<lambda>l. row pb f (8 * k + l)) {..<8}) {..<4 * n}" by (rule xor_sum.swap)
  also have "\<dots> = D" unfolding D8 by (rule xsum_blocks [symmetric])
  finally have D: "xsum (\<lambda>l. lane l A) {..<8} = D" .
  have "p = xsum (\<lambda>k. idx 10 k AND pmask (row4 (yw_row pb f) k)) {..<n}" using acc by (simp add: rows_acc_def)
  then have "p = S AND 0xfc00fc00"
    using code_sum_high [of 32 10 n "row pb f"] n(4) by (simp add: yw_block.pmask_row4 S_def fld_numerals)
  then have p: "p AND 0xfc00fc00 = S AND 0xfc00fc00" by (simp add: and.assoc)
  have q: "Q AND 0x03000300 = S AND 0x03000300"
    using avx_registers [OF acc n(4)] by (simp only: Q_def S_def fld_numerals and.commute)
  have "S AND fld 5 3 = fld 5 3 AND xsum (\<lambda>l. idx 5 (l div 1) AND pmask (xsum (\<lambda>k. row pb f (8 * k + l)) {..<4 * n})) {..<8}"
    unfolding S8 using n(4) by (intro code_sum_part) simp_all
  also have "xsum (\<lambda>l. idx 5 (l div 1) AND pmask (xsum (\<lambda>k. row pb f (8 * k + l)) {..<4 * n})) {..<8} = Q'"
    unfolding Q'_def by (rule xor_sum.cong) (simp_all add: lanes)
  finally have q': "Q' AND 0x00e000e0 = S AND 0x00e000e0" by (simp only: fld_numerals and.commute)
  have r: "ecc_bytes pmask D AND 0x001f001f = S AND 0x001f001f"
    using code_sum_low_5 [OF n(4), of "row pb f"] by (simp add: ecc_bytes_eq D_def S_def fld_numerals)
  have ecc: "((p AND 0xfc00fc00) AND ecc_size_mask cb) OR (Q AND 0x03000300) OR (Q' AND 0x00e000e0) OR (ecc_bytes pmask D AND 0x001f001f)
    = S AND ecc_size_mask cb"
  proof -
    have "((S AND 0xfc00fc00) AND ecc_size_mask cb) OR (S AND 0x03ff03ff) = S AND ecc_size_mask cb"
      using cb(1) by (rule merge_vector_fields) simp_all
    then show ?thesis unfolding p q q' r and_collect by simp
  qed
  have idx: "0xff000000 = idx 8 0" "idx 8 0 + 0xff000100 = idx 8 1" "idx 8 1 + 0xff000100 = idx 8 2" "idx 8 2 + 0xff000100 = idx 8 3"
    by (simp_all add: idx_def)
  have par: "lParityMaskPopcnt = pmask" by (rule ext) simp
  show "ChecksumNewFormatAVX pb cb pgno f = new_checksum_spec pb cb pgno f"
    unfolding ChecksumNewFormatAVX_def Let_def rows prod.case par A_def [symmetric] popcnt_mask lParityMaskAVX_eq idx
      fold_parity_lanes [unfolded Let_def] Q_def [symmetric] Q'_def [symmetric] D ecc
    by (simp add: new_spec_code_sum [OF cb] S_def D_def n)
qed

text \<open>Whatever the processor offers, the routine in use computes the specified checksum.\<close>

interpretation new_selected: new_format "ChecksumNewFormat c" for c
proof
  fix cb :: nat and pb :: "BYTE list" and pgno f assume "valid_block cb" "cb \<le> length pb"
  then show "ChecksumNewFormat c pb cb pgno f = new_checksum_spec pb cb pgno f"
    by (simp add: ChecksumNewFormat_def ChecksumSelectNewFormat_def new_avx.checksum_spec new_sse2.checksum_spec
        new_sse.checksum_spec new_64bit.checksum_spec new_slowly.checksum_spec)
qed

end
