(* ===== verification/Ecc_Repair.thy ===== *)
theory Ecc_Repair
  imports Checksum_Vector
begin

unbundle bit_operations_syntax

text \<open>
  The bit operations of \<open>checksumu.cxx\<close> and what a flipped bit does to a block checksum.
  Inside the contract \<open>new_format\<close>: flipping one bit of a block changes its checksum by the
  syndrome of the bit, from which the decoder of \<open>checksum.cxx\<close> finds the bit again; two
  flipped bits, and a flipped bit of the stored checksum, are told apart from one flipped bit.
\<close>

section \<open>Bits of a buffer\<close>

definition FGetBit :: "BYTE list \<Rightarrow> nat \<Rightarrow> bool" where
  "FGetBit pb ibitOffset =
     (let ibyte = ibitOffset div 8; ibitInByte = ibitOffset mod 8; bitMask = push_bit ibitInByte 1
      in pb ! ibyte AND bitMask \<noteq> 0)"

definition SetBit :: "BYTE list \<Rightarrow> nat \<Rightarrow> BYTE list" where
  "SetBit pb ibitOffset =
     (let ibyte = ibitOffset div 8; ibitInByte = ibitOffset mod 8; bitMask = push_bit ibitInByte 1
      in pb[ibyte := pb ! ibyte OR bitMask])"

definition FlipBit :: "BYTE list \<Rightarrow> nat \<Rightarrow> BYTE list" where
  "FlipBit pb ibitOffset =
     (let ibyte = ibitOffset div 8; ibitInByte = ibitOffset mod 8; bitMask = push_bit ibitInByte 1
      in pb[ibyte := pb ! ibyte XOR bitMask])"

lemma length_SetBit [simp]: "length (SetBit pb j) = length pb"
  by (simp add: SetBit_def Let_def)

lemma length_FlipBit [simp]: "length (FlipBit pb j) = length pb"
  by (simp add: FlipBit_def Let_def)

lemma FGetBit_bit: "FGetBit pb j \<longleftrightarrow> bit (pb ! (j div 8)) (j mod 8)"
  by (simp add: FGetBit_def and_exp_eq_0_iff_not_bit)

lemma bit_FlipBit:
  assumes "j < 8 * length pb" and "m < 8"
  shows "bit (FlipBit pb j ! i) m \<longleftrightarrow> (bit (pb ! i) m \<noteq> (8 * i + m = j))"
proof -
  have "8 * i + m = j \<longleftrightarrow> j div 8 = i \<and> j mod 8 = m"
    using radix_eq_iff [of m 8 "j mod 8" i "j div 8"] assms(2) by auto
  moreover have "j div 8 < length pb" using assms(1) by linarith
  ultimately show ?thesis
    using assms(2) by (auto simp: FlipBit_def Let_def nth_list_update bit_xor_iff bit_exp_iff)
qed

lemma bit_SetBit:
  assumes "j < 8 * length pb" and "m < 8"
  shows "bit (SetBit pb j ! i) m \<longleftrightarrow> (bit (pb ! i) m \<or> 8 * i + m = j)"
proof -
  have "8 * i + m = j \<longleftrightarrow> j div 8 = i \<and> j mod 8 = m"
    using radix_eq_iff [of m 8 "j mod 8" i "j div 8"] assms(2) by auto
  moreover have "j div 8 < length pb" using assms(1) by linarith
  ultimately show ?thesis
    using assms(2) by (auto simp: SetBit_def Let_def nth_list_update bit_or_iff bit_exp_iff)
qed

text \<open>Two buffers with the same bits are equal.\<close>

lemma buffer_eqI:
  assumes "length bs = length cs" and "\<And>j. j < 8 * length bs \<Longrightarrow> FGetBit bs j \<longleftrightarrow> FGetBit cs j"
  shows "bs = cs"
proof (rule nth_equalityI [OF assms(1)])
  fix i assume i: "i < length bs"
  show "bs ! i = cs ! i"
  proof (rule bit_word_eqI)
    fix m assume "m < LENGTH(8)"
    then show "bit (bs ! i) m = bit (cs ! i) m"
      using assms(2) [of "8 * i + m"] i by (simp add: FGetBit_bit)
  qed
qed

lemma FGetBit_FlipBit [simp]: "j < 8 * length pb \<Longrightarrow> FGetBit (FlipBit pb j) k \<longleftrightarrow> (FGetBit pb k \<noteq> (k = j))"
  by (simp add: FGetBit_bit bit_FlipBit)

lemma FGetBit_SetBit [simp]: "j < 8 * length pb \<Longrightarrow> FGetBit (SetBit pb j) k \<longleftrightarrow> (FGetBit pb k \<or> k = j)"
  by (simp add: FGetBit_bit bit_SetBit)

lemma FlipBit_FlipBit [simp]: "j < 8 * length pb \<Longrightarrow> FlipBit (FlipBit pb j) j = pb"
  by (rule buffer_eqI) auto

lemma FlipBit_commute: "i < 8 * length pb \<Longrightarrow> j < 8 * length pb \<Longrightarrow> FlipBit (FlipBit pb i) j = FlipBit (FlipBit pb j) i"
  by (rule buffer_eqI) auto

lemma load_FlipBit:
  assumes "j < 8 * length pb" and "8 * n = LENGTH('a::len)" and "k + n \<le> length pb"
  shows "(load_le (subbuf k n (FlipBit pb j)) :: 'a word)
    = load_le (subbuf k n pb) XOR (if 8 * k \<le> j \<and> j < 8 * (k + n) then 2 ^ (j - 8 * k) else 0)"
proof (rule bit_word_eqI)
  fix m assume "m < LENGTH('a)"
  then have m: "m < 8 * n" "m div 8 < n" "k + m div 8 < length pb" using assms by auto
  have "8 * (k + m div 8) + m mod 8 = 8 * k + m" by simp
  then have "bit (FlipBit pb j ! (k + m div 8)) (m mod 8) \<longleftrightarrow> (bit (pb ! (k + m div 8)) (m mod 8) \<noteq> (8 * k + m = j))"
    using bit_FlipBit [OF assms(1), of "m mod 8" "k + m div 8"] by (simp add: add.commute)
  then show "bit (load_le (subbuf k n (FlipBit pb j)) :: 'a word) m
    = bit (load_le (subbuf k n pb) XOR (if 8 * k \<le> j \<and> j < 8 * (k + n) then 2 ^ (j - 8 * k) else 0) :: 'a word) m"
    using m \<open>m < LENGTH('a)\<close> assms(2) by (auto simp: bit_load_subbuf bit_xor_iff bit_exp_iff)
qed

section \<open>The syndrome of a bit\<close>

lemma valid_block_power:
  assumes "valid_block cb"
  obtains k where "8 * cb = 2 ^ k" and "13 \<le> k" and "k \<le> 16"
  using assms that [of 13] that [of 14] that [of 15] that [of 16] by (auto simp: valid_block_def)

definition syndrome :: "nat \<Rightarrow> nat \<Rightarrow> QWORD" where
  "syndrome cb j = MakeChecksumFromECCXORAndPgno (ecc_index cb j) (2 ^ (j mod 32)) 0"

lemma make_xor:
  "MakeChecksumFromECCXORAndPgno (a XOR b) (x XOR y) pgno
     = MakeChecksumFromECCXORAndPgno a x pgno XOR MakeChecksumFromECCXORAndPgno b y 0"
  by (rule bit_word_eqI) (auto simp: MakeChecksumFromECCXORAndPgno_def bitwise bit_push_bit_iff dest: bit_imp_le_length)

lemma block_bit_FlipBit:
  "j < 8 * length pb \<Longrightarrow> \<not> (f \<and> j < 64) \<Longrightarrow> block_bit (FlipBit pb j) f k \<longleftrightarrow> (block_bit pb f k \<noteq> (k = j))"
  using FGetBit_FlipBit [of j pb k] by (auto simp: block_bit_def FGetBit_bit)

lemma xsum_toggle:
  assumes "finite A" and "j \<in> A"
  shows "xsum (\<lambda>k. if P k \<noteq> (k = j) then c k else 0) A = xsum (\<lambda>k. if P k then c k else 0) A XOR c j"
proof -
  have "(if P k \<noteq> (k = j) then c k else 0) = (if P k then c k else 0) XOR (if k = j then c k else 0)" for k
    by simp
  then show ?thesis using assms by (simp add: xor_sum.distrib xor_sum.delta)
qed

lemma ecc_spec_FlipBit:
  assumes "j < 8 * cb" and "cb \<le> length pb" and "\<not> (f \<and> j < 64)"
  shows "ecc_spec (FlipBit pb j) cb f = ecc_spec pb cb f XOR ecc_index cb j"
proof -
  have "j < 8 * length pb" and "j \<in> {0..<8 * cb}" using assms(1,2) by auto
  then show ?thesis
    using assms(3) xsum_toggle [of "{0..<8 * cb}" j "block_bit pb f" "ecc_index cb"]
    by (simp only: ecc_spec_def foldr_xsum block_bit_FlipBit finite_atLeastLessThan not_False_eq_True)
qed

lemma dw_at_FlipBit:
  assumes "j < 8 * length pb" and "4 * i + 4 \<le> length pb"
  shows "dw_at (FlipBit pb j) i = dw_at pb i XOR (if i = j div 32 then 2 ^ (j mod 32) else 0)"
proof -
  have "8 * (4 * i) \<le> j \<and> j < 8 * (4 * i + 4) \<longleftrightarrow> i = j div 32" by auto
  moreover have "i = j div 32 \<Longrightarrow> j - 8 * (4 * i) = j mod 32" by (simp add: minus_div_mult_eq_mod [symmetric] mult.commute)
  ultimately show ?thesis
    unfolding dw_at_def using load_FlipBit [OF assms(1), of 4 "4 * i", where 'a = 32] assms(2) by auto
qed

lemma xor_spec_FlipBit:
  assumes "j < 8 * cb" and "cb \<le> length pb" and "\<not> (f \<and> j < 64)" and "4 dvd cb"
  shows "xor_spec (FlipBit pb j) cb f = xor_spec pb cb f XOR 2 ^ (j mod 32)"
proof -
  let ?A = "{(if f then 2 else 0)..<cb div 4}"
  have "xsum (dw_at (FlipBit pb j)) ?A = xsum (\<lambda>i. dw_at pb i XOR (if i = j div 32 then 2 ^ (j mod 32) else 0)) ?A"
    using assms by (intro xor_sum.cong refl dw_at_FlipBit) auto
  moreover have "j div 32 \<in> ?A" using assms by auto
  ultimately show ?thesis
    by (simp add: xor_spec_def foldr_xsum xor_sum.distrib xor_sum.delta del: atLeastLessThan_iff)
qed

text \<open>The checksum depends on the bits of the block only, without the stored checksum of a header block.\<close>

lemma new_checksum_spec_cong:
  assumes "valid_block cb" and "cb \<le> length pb" and "cb \<le> length pb'"
    and bits: "\<And>j. j < 8 * cb \<Longrightarrow> \<not> (f \<and> j < 64) \<Longrightarrow> FGetBit pb j \<longleftrightarrow> FGetBit pb' j"
  shows "new_checksum_spec pb cb pgno f = new_checksum_spec pb' cb pgno f"
proof -
  have "ecc_spec pb cb f = ecc_spec pb' cb f"
    unfolding ecc_spec_def foldr_xsum using bits
    by (intro xor_sum.cong refl) (auto simp: block_bit_def FGetBit_bit)
  moreover have "dw_at pb i = dw_at pb' i" if "i \<in> {(if f then 2 else 0)..<cb div 4}" for i
  proof (rule bit_word_eqI)
    fix m assume "m < LENGTH(32)"
    moreover have "4 * i + 4 \<le> cb" using that by (auto split: if_splits)
    moreover have "\<not> (f \<and> 32 * i + m < 64)" using that by auto
    ultimately have "FGetBit pb (32 * i + m) \<longleftrightarrow> FGetBit pb' (32 * i + m)" using bits by simp
    moreover have "(32 * i + m) div 8 = 4 * i + m div 8" "(32 * i + m) mod 8 = m mod 8"
      by (simp_all add: div_add1_eq mod_add_left_eq [symmetric, of "32 * i"] mod_mult_left_eq [symmetric, of 32])
    ultimately show "bit (dw_at pb i) m = bit (dw_at pb' i) m"
      using \<open>m < LENGTH(32)\<close> \<open>4 * i + 4 \<le> cb\<close> assms(2,3) by (auto simp: dw_at_def bit_load_subbuf FGetBit_bit)
  qed
  then have "xor_spec pb cb f = xor_spec pb' cb f"
    unfolding xor_spec_def foldr_xsum by (rule xor_sum.cong [OF refl])
  ultimately show ?thesis by (simp add: new_checksum_spec_def)
qed

lemma new_spec_FlipBit:
  assumes "valid_block cb" and "cb \<le> length pb" and "j < 8 * cb" and "\<not> (f \<and> j < 64)"
  shows "new_checksum_spec (FlipBit pb j) cb pgno f = new_checksum_spec pb cb pgno f XOR syndrome cb j"
proof -
  have "4 dvd cb" using assms(1) by (auto simp: valid_block_def)
  then show ?thesis
    using assms by (simp add: new_checksum_spec_def ecc_spec_FlipBit xor_spec_FlipBit make_xor syndrome_def)
qed

context new_format
begin

lemma flip_syndrome:
  assumes "valid_block cb" and "cb \<le> length pb" and "j < 8 * cb" and "\<not> (f \<and> j < 64)"
  shows "checksum (FlipBit pb j) cb pgno f = checksum pb cb pgno f XOR syndrome cb j"
  using assms by (simp add: checksum_spec new_spec_FlipBit)

lemma ignores_stored:
  assumes "valid_block cb" and "cb \<le> length pb" and "length xs = 8"
  shows "checksum (blit pb 0 xs) cb pgno True = checksum pb cb pgno True"
proof -
  have "8 \<le> length pb" using assms(1,2) by (auto simp: valid_block_def)
  then have len: "length (blit pb 0 xs) = length pb" using assms(3) by simp
  have "new_checksum_spec (blit pb 0 xs) cb pgno True = new_checksum_spec pb cb pgno True"
  proof (rule new_checksum_spec_cong)
    fix j assume "j < 8 * cb" "\<not> (True \<and> j < 64)"
    then show "FGetBit (blit pb 0 xs) j = FGetBit pb j"
      using assms \<open>8 \<le> length pb\<close> by (auto simp: FGetBit_bit nth_blit)
  qed (use assms len in auto)
  then show ?thesis using assms len by (simp add: checksum_spec)
qed

end

section \<open>Decoding a syndrome\<close>

text \<open>
  The decoder looks at the exclusive or of the expected and the actual checksum only. In the
  code of one bit the two halves are complementary over the width of a bit number, in that of
  two bits they are equal.
\<close>

definition ecc_halves :: "nat \<Rightarrow> ULONG \<Rightarrow> ULONG" where
  "ecc_halves cb dwEcc = (drop_bit 16 dwEcc XOR dwEcc) AND (push_bit 3 (word_of_nat cb) - 1)"

lemma bit_number_mask: "8 * cb = 2 ^ k \<Longrightarrow> k \<le> 16 \<Longrightarrow> push_bit 3 (word_of_nat cb) - 1 = (mask k :: ULONG)"
proof -
  assume k: "8 * cb = 2 ^ k" "k \<le> 16"
  have "push_bit 3 (word_of_nat cb) = (word_of_nat (8 * cb) :: ULONG)" by (simp add: push_bit_eq_mult)
  also have "\<dots> = 2 ^ k" unfolding k(1) by simp
  finally show ?thesis by (simp add: mask_eq_exp_minus_1)
qed

lemma ecc_halves_xor: "ecc_halves cb (a XOR b) = ecc_halves cb a XOR ecc_halves cb b"
  by (rule bit_word_eqI) (auto simp: ecc_halves_def bitwise)

lemma bit_ecc_index:
  assumes "8 * cb = 2 ^ k" and "k \<le> 16" and "j < 8 * cb"
  shows "bit (ecc_index cb j) n \<longleftrightarrow> n < 32 \<and> (if n < 16 then bit j n else n - 16 < k \<and> \<not> bit j (n - 16))"
proof -
  have "word_of_nat (8 * cb) - 1 = (mask k :: ULONG)"
    unfolding assms(1) by (simp add: mask_eq_exp_minus_1)
  moreover have "bit j n \<Longrightarrow> n < k" using assms bit_nat_bound [of j k n] by simp
  ultimately show ?thesis
    using assms(2) by (auto simp: ecc_index_def bitwise bit_push_bit_iff bit_not_iff bit_mask_iff simp del: of_nat_mult)
qed

lemma ecc_halves_index:
  assumes "valid_block cb" and "j < 8 * cb"
  shows "ecc_halves cb (ecc_index cb j) = push_bit 3 (word_of_nat cb) - 1"
proof -
  obtain k where k: "8 * cb = 2 ^ k" "k \<le> 16" using assms(1) by (rule valid_block_power)
  show ?thesis
    unfolding ecc_halves_def bit_number_mask [OF k]
    using k(2) by (intro bit_word_eqI) (auto simp: bitwise bit_mask_iff bit_ecc_index [OF k assms(2)])
qed

lemma bit_number_mask_nonzero: "valid_block cb \<Longrightarrow> push_bit 3 (word_of_nat cb) - 1 \<noteq> (0 :: ULONG)"
  by (auto simp: valid_block_def push_bit_eq_mult)

lemma ecc_of_make [simp]:
  "DwECCChecksumFromXEChecksum (e XOR e') = DwECCChecksumFromXEChecksum e XOR DwECCChecksumFromXEChecksum e'"
  "DwECCChecksumFromXEChecksum (MakeChecksumFromECCXORAndPgno a x p) = a"
  by (rule bit_word_eqI, auto simp: DwECCChecksumFromXEChecksum_def MakeChecksumFromECCXORAndPgno_def bitwise
      bit_push_bit_iff dest: bit_imp_le_length)+

lemma xor_of_make [simp]:
  "DwXORChecksumFromXEChecksum (e XOR e') = DwXORChecksumFromXEChecksum e XOR DwXORChecksumFromXEChecksum e'"
  "DwXORChecksumFromXEChecksum (MakeChecksumFromECCXORAndPgno a x p) = x XOR p"
proof -
  have m: "(0xffffffff :: QWORD) = mask 32" by (simp add: mask_eq_exp_minus_1)
  show "DwXORChecksumFromXEChecksum (e XOR e') = DwXORChecksumFromXEChecksum e XOR DwXORChecksumFromXEChecksum e'"
    "DwXORChecksumFromXEChecksum (MakeChecksumFromECCXORAndPgno a x p) = x XOR p"
    unfolding DwXORChecksumFromXEChecksum_def m
    by (rule bit_word_eqI, auto simp: MakeChecksumFromECCXORAndPgno_def bitwise bit_push_bit_iff bit_mask_iff)+
qed

lemma CbitSet_filter: "CbitSet dw = length (filter (bit dw) [0..<32])"
proof -
  have "fold (\<lambda>ibit cbit. if dw AND push_bit ibit 1 \<noteq> 0 then cbit + 1 else cbit) xs c = c + length (filter (bit dw) xs)" for xs c
    by (induction xs arbitrary: c) (simp_all add: and_exp_eq_0_iff_not_bit)
  then show ?thesis by (simp add: CbitSet_def)
qed

lemma CbitSet_single: "n < 32 \<Longrightarrow> CbitSet (2 ^ n) = 1"
proof -
  assume n: "n < 32"
  then have "set (filter (bit (2 ^ n :: ULONG)) [0..<32]) = {n}" by (auto simp: bit_exp_iff)
  moreover have "distinct (filter (bit (2 ^ n :: ULONG)) [0..<32])" by simp
  ultimately show ?thesis by (metis CbitSet_filter distinct_card card.empty card_insert_disjoint finite.emptyI insert_absorb insert_not_empty One_nat_def)
qed

lemma correctable_halves:
  "FECCErrorIsCorrectable cb e e' \<longleftrightarrow>
     ecc_halves cb (DwECCChecksumFromXEChecksum (e XOR e')) = push_bit 3 (word_of_nat cb) - 1
     \<and> CbitSet (DwXORChecksumFromXEChecksum (e XOR e')) = 1"
  by (auto simp: FECCErrorIsCorrectable_def FECCErrorIsCorrectable32_def Let_def ecc_halves_def xor.commute)

lemma xor_self_left: "e XOR (e XOR s) = s" for e s :: "'a::len word"
  by (simp flip: xor.assoc)

text \<open>One flipped bit is found again.\<close>

lemma syndrome_correctable:
  assumes "valid_block cb" and "j < 8 * cb"
  shows "FECCErrorIsCorrectable cb e (e XOR syndrome cb j)"
  using assms by (simp add: correctable_halves xor_self_left syndrome_def ecc_halves_index CbitSet_single
      del: ecc_of_make(1) xor_of_make(1))

lemma syndrome_located:
  assumes "valid_block cb" and "j < 8 * cb"
  shows "IbitCorrupted cb e (e XOR syndrome cb j) = word_of_nat j"
proof -
  obtain k where k: "8 * cb = 2 ^ k" "k \<le> 16" using assms(1) by (rule valid_block_power)
  have "ecc_halves cb 0 = 0" by (simp add: ecc_halves_def)
  then have nonzero: "ecc_index cb j \<noteq> 0"
    using ecc_halves_index [OF assms] bit_number_mask_nonzero [OF assms(1)] by metis
  have m: "(0xffff :: ULONG) = mask 16" by (simp add: mask_eq_exp_minus_1)
  have low: "ecc_index cb j AND 0xffff = word_of_nat j"
    unfolding m using bit_nat_bound [of j 16] k power_increasing [of k 16 "2 :: nat"] assms(2)
    by (intro bit_word_eqI) (auto simp: bitwise bit_mask_iff bit_ecc_index [OF k assms(2)])
  have "j < 2 ^ 32" using assms(2) k power_increasing [of k 16 "2 :: nat"] by simp
  then have "unat (word_of_nat j div 8 :: ULONG) = j div 8"
    by (simp add: unat_div take_bit_nat_eq_self unsigned_of_nat)
  then have "unat (word_of_nat j div 8 :: ULONG) < cb" using assms(2) by simp
  then show ?thesis
    using nonzero low
    by (simp add: IbitCorrupted_def IbitCorrupted32_def Let_def syndrome_def xor.commute xor_self_left not_le)
qed

text \<open>Two flipped bits give a nonzero syndrome that is not taken for one flipped bit.\<close>

lemma two_syndromes_fatal:
  assumes "valid_block cb" and "i < 8 * cb" and "j < 8 * cb"
  shows "\<not> FECCErrorIsCorrectable cb e (e XOR (syndrome cb i XOR syndrome cb j))"
proof -
  have "ecc_halves cb (ecc_index cb i XOR ecc_index cb j) = 0"
    using assms by (simp add: ecc_halves_xor ecc_halves_index)
  then show ?thesis
    using bit_number_mask_nonzero [OF assms(1)]
    by (simp add: correctable_halves xor_self_left syndrome_def del: ecc_of_make(1) xor_of_make(1) flip: make_xor)
qed

lemma syndrome_inject:
  assumes "valid_block cb" and "i < 8 * cb" and "j < 8 * cb" and "syndrome cb i = syndrome cb j"
  shows "i = j"
proof -
  have "(word_of_nat i :: ULONG) = word_of_nat j"
    using syndrome_located [OF assms(1,2), of 0] syndrome_located [OF assms(1,3), of 0] assms(4) by simp
  moreover have "i < 2 ^ 32" "j < 2 ^ 32" using assms(1-3) by (auto simp: valid_block_def)
  then have "unat (word_of_nat i :: ULONG) = i" "unat (word_of_nat j :: ULONG) = j"
    by (simp_all add: unsigned_of_nat take_bit_nat_eq_self)
  ultimately show ?thesis by metis
qed

text \<open>A flipped bit of the stored checksum is not taken for a flipped bit of the block.\<close>

lemma checksum_bit_fatal:
  assumes "valid_block cb" and "n < 64"
  shows "\<not> FECCErrorIsCorrectable cb (e XOR 2 ^ n) e"
proof -
  obtain k where k: "8 * cb = 2 ^ k" "13 \<le> k" "k \<le> 16" using assms(1) by (rule valid_block_power)
  define dwEcc where "dwEcc = DwECCChecksumFromXEChecksum (2 ^ n)"
  have bit: "bit dwEcc m \<longleftrightarrow> m < 32 \<and> m + 32 = n" for m
    using assms(2) by (auto simp: dwEcc_def DwECCChecksumFromXEChecksum_def bitwise bit_exp_iff)
  have "ecc_halves cb dwEcc \<noteq> mask k"
  proof
    assume "ecc_halves cb dwEcc = mask k"
    then have "bit (ecc_halves cb dwEcc) 0" and "bit (ecc_halves cb dwEcc) 1" using k(2) by (simp_all add: bit_mask_iff)
    then show False by (auto simp: ecc_halves_def bitwise bit)
  qed
  then show ?thesis
    using bit_number_mask [OF k(1,3)] by (simp add: correctable_halves xor.commute xor_self_left dwEcc_def
        del: ecc_of_make(1) xor_of_make(1))
qed

end
