(* ===== verification/Page_Checksum.thy ===== *)
theory Page_Checksum
  imports Checksum_Old Ecc_Repair
begin

unbundle bit_operations_syntax

text \<open>
  The page checksum layer, \<open>ese/_osu/checksumu.cxx\<close>: where a page keeps its checksums, how
  a large page is divided into blocks, how the checksums are set and verified, and how a page
  is repaired. A page is the list of its bytes. Bit offsets are unsigned 32-bit integers with
  \<open>UINT_MAX\<close> as the initial value, as in the code. The failing \<open>Enforce\<close> and an index past
  \<open>rgChecksum\<close> are the result None.
\<close>

section \<open>Checksums of a page\<close>

datatype PAGETYPE = databasePage | databaseHeader | logfileHeader | flushmapHeaderPage

record PAGECHECKSUM =
  rgChecksum :: "QWORD list"

definition PAGECHECKSUM_of :: "QWORD \<Rightarrow> QWORD \<Rightarrow> QWORD \<Rightarrow> QWORD \<Rightarrow> PAGECHECKSUM" where
  "PAGECHECKSUM_of xe0 xe1 xe2 xe3 = \<lparr>rgChecksum = [xe0, xe1, xe2, xe3]\<rparr>"

definition cxeChecksumPerPage :: nat where
  "cxeChecksumPerPage = 4"

definition FIsSmallPage :: "nat \<Rightarrow> bool" where
  "FIsSmallPage cb \<longleftrightarrow> cb \<le> 1024 * 8"

text \<open>Byte offset of \<open>rgChecksum\<close> in \<open>PGHDR2\<close>, right behind the 40 bytes of \<open>PGHDR\<close>.\<close>

definition ib_rgChecksum :: nat where
  "ib_rgChecksum = 40"

definition LongChecksumFromShortChecksum :: "ULONG \<Rightarrow> ULONG \<Rightarrow> QWORD" where
  "LongChecksumFromShortChecksum xorChecksum pgno = push_bit 32 (ucast pgno) OR ucast xorChecksum"

definition IbitNewChecksumFormatFlag :: "PAGETYPE \<Rightarrow> ULONG" where
  "IbitNewChecksumFormatFlag pagetype = (if databasePage = pagetype then 9 * 32 + 13 else - 1)"

definition FPageHasNewChecksumFormat :: "BYTE list \<Rightarrow> PAGETYPE \<Rightarrow> bool" where
  "FPageHasNewChecksumFormat pv pagetype =
     (if databasePage = pagetype then
        let ibit = IbitNewChecksumFormatFlag pagetype in FGetBit pv (unat ibit)
      else False)"

definition SetNewChecksumFormatFlag :: "BYTE list \<Rightarrow> PAGETYPE \<Rightarrow> BYTE list" where
  "SetNewChecksumFormatFlag pv pagetype =
     (let ibit = IbitNewChecksumFormatFlag pagetype in SetBit pv (unat ibit))"

definition FPageHasLongChecksum :: "PAGETYPE \<Rightarrow> bool" where
  "FPageHasLongChecksum pagetype \<longleftrightarrow> databasePage = pagetype"

definition ShortChecksumFromPage :: "BYTE list \<Rightarrow> ULONG" where
  "ShortChecksumFromPage pv = dw_at pv 0"

definition SetShortChecksumOnPage :: "BYTE list \<Rightarrow> ULONG \<Rightarrow> BYTE list" where
  "SetShortChecksumOnPage pv checksum = blit pv 0 (store_le 4 checksum)"

definition LongChecksumFromPage :: "BYTE list \<Rightarrow> nat \<Rightarrow> PAGECHECKSUM" where
  "LongChecksumFromPage pv cb =
     (if FIsSmallPage cb then PAGECHECKSUM_of (load_le (subbuf 0 8 pv)) 0 0 0
      else PAGECHECKSUM_of (load_le (subbuf 0 8 pv)) (load_le (subbuf ib_rgChecksum 8 pv))
             (load_le (subbuf (ib_rgChecksum + 8) 8 pv)) (load_le (subbuf (ib_rgChecksum + 16) 8 pv)))"

text \<open>The three assignments to \<open>rgChecksum\<close> of the page header.\<close>

definition set_rgChecksum :: "BYTE list \<Rightarrow> PAGECHECKSUM \<Rightarrow> BYTE list" where
  "set_rgChecksum pv checksum =
     (let pv = blit pv ib_rgChecksum (store_le 8 (rgChecksum checksum ! 1));
          pv = blit pv (ib_rgChecksum + 8) (store_le 8 (rgChecksum checksum ! 2))
      in blit pv (ib_rgChecksum + 16) (store_le 8 (rgChecksum checksum ! 3)))"

definition SetLongChecksumOnPage :: "BYTE list \<Rightarrow> nat \<Rightarrow> PAGECHECKSUM \<Rightarrow> BYTE list" where
  "SetLongChecksumOnPage pv cb checksum =
     (let pv = blit pv 0 (store_le 8 (rgChecksum checksum ! 0))
      in if \<not> FIsSmallPage cb then set_rgChecksum pv checksum else pv)"

definition ChecksumFromPage :: "BYTE list \<Rightarrow> nat \<Rightarrow> PAGETYPE \<Rightarrow> PAGECHECKSUM" where
  "ChecksumFromPage pv cb pagetype =
     (if FPageHasLongChecksum pagetype then LongChecksumFromPage pv cb
      else PAGECHECKSUM_of (ucast (ShortChecksumFromPage pv)) 0 0 0)"

definition SetChecksumOnPage :: "BYTE list \<Rightarrow> nat \<Rightarrow> PAGETYPE \<Rightarrow> PAGECHECKSUM \<Rightarrow> BYTE list" where
  "SetChecksumOnPage pv cb pagetype checksum =
     (if FPageHasLongChecksum pagetype then SetLongChecksumOnPage pv cb checksum
      else
        let xeChecksum = rgChecksum checksum ! 0;
            shortChecksum = ucast xeChecksum
        in SetShortChecksumOnPage pv shortChecksum)"

definition CbBlockSize :: "nat \<Rightarrow> nat" where
  "CbBlockSize cb =
     (if \<not> FIsSmallPage cb then
        (if cb \<le> 16 * 1024 then 4096
         else if cb \<le> 32 * 1024 then 8 * 1024
         else cb)
      else cb)"

text \<open>The loop over the blocks behind the header block.\<close>

function block_checksums :: "cpu \<Rightarrow> BYTE list \<Rightarrow> nat \<Rightarrow> ULONG \<Rightarrow> nat \<Rightarrow> nat \<Rightarrow> nat \<Rightarrow> QWORD list
    \<Rightarrow> (nat \<times> nat \<times> QWORD list) option" where
  "block_checksums c pch cb pgno cbBlock ibT i rg =
     (if 0 < cbBlock \<and> ibT + cbBlock \<le> cb then
        (if \<not> i \<le> 3 then None
         else block_checksums c pch cb pgno cbBlock (ibT + cbBlock) (i + 1)
                (rg[i := ChecksumNewFormat c (drop ibT pch) cbBlock pgno False]))
      else Some (ibT, i, rg))"
  by pat_completeness auto
termination
  by (relation "measure (\<lambda>(c, pch, cb, pgno, cbBlock, ibT, i, rg). cb - ibT)") auto

definition ComputePageChecksum :: "cpu \<Rightarrow> BYTE list \<Rightarrow> nat \<Rightarrow> PAGETYPE \<Rightarrow> ULONG \<Rightarrow> bool
    \<Rightarrow> (BYTE list \<times> PAGECHECKSUM) option" where
  "ComputePageChecksum c pv cb pagetype pgno fNew =
     (if FPageHasLongChecksum pagetype then
        if FPageHasNewChecksumFormat pv pagetype then
          (let pgChecksum = [0, 0, 0, 0] in
           if \<not> FIsSmallPage cb then
             (let cbBlock = CbBlockSize cb in
              case block_checksums c pv cb pgno cbBlock cbBlock 1 pgChecksum of
                None \<Rightarrow> None
              | Some (ibT, i, rg) \<Rightarrow>
                  if cb - ibT > 0 \<and> \<not> i < cxeChecksumPerPage then None
                  else
                    let rg = (if cb - ibT > 0 then rg[i := ChecksumNewFormat c (drop ibT pv) (cb - ibT) pgno False] else rg);
                        pv' = (if fNew then set_rgChecksum pv \<lparr>rgChecksum = rg\<rparr> else pv)
                    in Some (pv', \<lparr>rgChecksum = rg[0 := ChecksumNewFormat c pv' cbBlock pgno True]\<rparr>))
           else Some (pv, \<lparr>rgChecksum = pgChecksum[0 := ChecksumNewFormat c pv cb pgno True]\<rparr>))
        else Some (pv, PAGECHECKSUM_of (LongChecksumFromShortChecksum (ChecksumOldFormat c pv cb) pgno) 0 0 0)
      else Some (pv, PAGECHECKSUM_of (ucast (ChecksumOldFormat c pv cb)) 0 0 0))"

section \<open>Repairing a page\<close>

datatype XECHECKSUMERROR = xeChecksumNoError | xeChecksumCorrectableError | xeChecksumFatalError

definition FTryFixBlock :: "nat \<Rightarrow> ULONG \<Rightarrow> QWORD \<Rightarrow> QWORD \<Rightarrow> XECHECKSUMERROR \<times> ULONG" where
  "FTryFixBlock cb pibitCorrupted xeChecksumExpected xeChecksumActual =
     (if xeChecksumExpected = xeChecksumActual then (xeChecksumNoError, pibitCorrupted)
      else if FECCErrorIsCorrectable cb xeChecksumExpected xeChecksumActual then
        let ibitCorrupted = IbitCorrupted cb xeChecksumExpected xeChecksumActual
        in if pibitCorrupted \<noteq> ibitCorrupted \<and> unat ibitCorrupted < 8 * cb
           then (xeChecksumCorrectableError, ibitCorrupted)
           else (xeChecksumFatalError, pibitCorrupted)
      else (xeChecksumFatalError, pibitCorrupted))"

text \<open>\<open>FlipBit\<close> on the bytes of a \<open>PAGECHECKSUM\<close>.\<close>

definition checksum_bytes :: "PAGECHECKSUM \<Rightarrow> BYTE list" where
  "checksum_bytes pc = concat (map (store_le 8) (rgChecksum pc))"

definition checksum_of_bytes :: "BYTE list \<Rightarrow> PAGECHECKSUM" where
  "checksum_of_bytes bs = \<lparr>rgChecksum = map (\<lambda>i. load_le (subbuf (8 * i) 8 bs)) [0..<cxeChecksumPerPage]\<rparr>"

definition FlipBitOfChecksum :: "PAGECHECKSUM \<Rightarrow> nat \<Rightarrow> PAGECHECKSUM" where
  "FlipBitOfChecksum pc ibit = checksum_of_bytes (FlipBit (checksum_bytes pc) ibit)"

text \<open>The step of the loop for one block; Inl is the return with a fatal error.\<close>

definition try_fix_block :: "bool \<Rightarrow> nat \<Rightarrow> nat \<Rightarrow> nat \<Rightarrow> PAGECHECKSUM
    \<Rightarrow> (XECHECKSUMERROR list \<times> ULONG list \<times> ULONG \<times> PAGECHECKSUM)
    \<Rightarrow> unit + (XECHECKSUMERROR list \<times> ULONG list \<times> ULONG \<times> PAGECHECKSUM)" where
  "try_fix_block fSmallPage iblk cbBlock ibT checksumActual = (\<lambda>(rgErr, rgibitCorrupted, ibitCorrupted, checksumExpected).
     let (err, ibit) = FTryFixBlock cbBlock (rgibitCorrupted ! iblk) (rgChecksum checksumExpected ! iblk) (rgChecksum checksumActual ! iblk);
         rgErr = rgErr[iblk := err];
         rgibitCorrupted = rgibitCorrupted[iblk := ibit + 8 * word_of_nat ibT]
     in case err of
          xeChecksumNoError \<Rightarrow> Inr (rgErr, rgibitCorrupted, ibitCorrupted, checksumExpected)
        | xeChecksumCorrectableError \<Rightarrow>
            (if - 1 = ibitCorrupted then
               let ibitCorrupted = rgibitCorrupted ! iblk;
                   ibitStart = 8 * word_of_nat ib_rgChecksum;
                   ibitLength = 8 * 8
               in if \<not> fSmallPage \<and> 0 = iblk \<and> ibitStart \<le> ibitCorrupted
                     \<and> ibitCorrupted < ibitStart + ibitLength * (word_of_nat cxeChecksumPerPage - 1)
                  then Inr (rgErr, rgibitCorrupted, ibitCorrupted,
                         FlipBitOfChecksum checksumExpected (unat (ibitLength + (ibitCorrupted - ibitStart))))
                  else Inr (rgErr, rgibitCorrupted, ibitCorrupted, checksumExpected)
             else Inr (rgErr, rgibitCorrupted, ibitCorrupted, checksumExpected))
        | xeChecksumFatalError \<Rightarrow> Inl ())"

datatype fix_outcome = TooManyBlocks | FatalBlock
  | Fixable nat "XECHECKSUMERROR list" "ULONG list" ULONG

function try_fix_blocks :: "nat \<Rightarrow> PAGECHECKSUM \<Rightarrow> nat \<Rightarrow> nat \<Rightarrow> nat
    \<Rightarrow> (XECHECKSUMERROR list \<times> ULONG list \<times> ULONG \<times> PAGECHECKSUM) \<Rightarrow> fix_outcome" where
  "try_fix_blocks cb checksumActual iblk cbBlock ibT st =
     (if cbBlock > 0 then
        (if iblk \<ge> cxeChecksumPerPage then TooManyBlocks
         else case try_fix_block (FIsSmallPage cb) iblk cbBlock ibT checksumActual st of
             Inl _ \<Rightarrow> FatalBlock
           | Inr st' \<Rightarrow>
               try_fix_blocks cb checksumActual (iblk + 1) (min (cb - (ibT + cbBlock)) cbBlock) (ibT + cbBlock) st')
      else (case st of (rgErr, rgibitCorrupted, ibitCorrupted, _) \<Rightarrow> Fixable iblk rgErr rgibitCorrupted ibitCorrupted))"
  by pat_completeness auto
termination
  by (relation "measure (\<lambda>(cb, checksumActual, iblk, cbBlock, ibT, st). cxeChecksumPerPage - iblk)")
    (auto simp: cxeChecksumPerPage_def)

text \<open>
  \<open>TryFixPage\<close> returns the page, \<open>*pfCorrectableError\<close> and \<open>*pibitCorrupted\<close>; the latter two
  come in with the values the caller set.
\<close>

definition TryFixPage :: "BYTE list \<Rightarrow> nat \<Rightarrow> PAGETYPE \<Rightarrow> bool \<Rightarrow> bool \<Rightarrow> int \<Rightarrow> PAGECHECKSUM \<Rightarrow> PAGECHECKSUM
    \<Rightarrow> BYTE list \<times> bool \<times> int" where
  "TryFixPage pv cb pagetype fCorrectError pfCorrectableError pibitCorrupted checksumExpected checksumActual =
     (case try_fix_blocks cb checksumActual 0 (CbBlockSize cb) 0
        ([xeChecksumNoError, xeChecksumNoError, xeChecksumNoError, xeChecksumNoError],
         [IbitNewChecksumFormatFlag pagetype, - 1, - 1, - 1], - 1, checksumExpected) of
        TooManyBlocks \<Rightarrow> (pv, pfCorrectableError, pibitCorrupted)
      | FatalBlock \<Rightarrow> (pv, False, pibitCorrupted)
      | Fixable cblk rgErr rgibitCorrupted ibitCorrupted \<Rightarrow>
          let pv' = fold (\<lambda>iblk pch. if fCorrectError \<and> rgErr ! iblk = xeChecksumCorrectableError
                       then FlipBit pch (unat (rgibitCorrupted ! iblk)) else pch) [0..<cblk] pv
          in (pv', True, sint ibitCorrupted))"

section \<open>Operations of the layer\<close>

definition ChecksumPage :: "cpu \<Rightarrow> BYTE list \<Rightarrow> nat \<Rightarrow> PAGETYPE \<Rightarrow> ULONG \<Rightarrow> (PAGECHECKSUM \<times> PAGECHECKSUM) option" where
  "ChecksumPage c pv cb pagetype pgno =
     (let checksumExpected = ChecksumFromPage pv cb pagetype
      in case ComputePageChecksum c pv cb pagetype pgno False of
           None \<Rightarrow> None
         | Some (_, checksumActual) \<Rightarrow> Some (checksumExpected, checksumActual))"

text \<open>
  The result of \<open>ChecksumAndPossiblyFixPage\<close>: the page and the four output parameters. The
  outcome of the fault injection point is the parameter \<open>fFault\<close>.
\<close>

record FIXRESULT =
  pvFixed :: "BYTE list"
  checksumExpected :: PAGECHECKSUM
  checksumActual :: PAGECHECKSUM
  fCorrectableError :: bool
  ibitCorrupted :: int

definition ChecksumAndPossiblyFixPage :: "cpu \<Rightarrow> bool \<Rightarrow> BYTE list \<Rightarrow> nat \<Rightarrow> PAGETYPE \<Rightarrow> ULONG \<Rightarrow> bool
    \<Rightarrow> FIXRESULT option" where
  "ChecksumAndPossiblyFixPage c fFault pv cb pagetype pgno fCorrectError =
     (let expected = ChecksumFromPage pv cb pagetype
      in case ComputePageChecksum c pv cb pagetype pgno False of
           None \<Rightarrow> None
         | Some (_, actual) \<Rightarrow>
             let fNewChecksumFormat = FPageHasNewChecksumFormat pv pagetype
             in if actual \<noteq> expected \<and> fNewChecksumFormat then
                  (case TryFixPage pv cb pagetype fCorrectError False (- 1) expected actual of
                     (pv', pfCorrectableError, pibitCorrupted) \<Rightarrow>
                       if fCorrectError \<and> pfCorrectableError then
                         let expected = ChecksumFromPage pv' cb pagetype
                         in case ComputePageChecksum c pv' cb pagetype pgno True of
                              None \<Rightarrow> None
                            | Some (pv'', actual) \<Rightarrow> Some \<lparr>pvFixed = pv'', checksumExpected = expected,
                                checksumActual = actual, fCorrectableError = pfCorrectableError, ibitCorrupted = pibitCorrupted\<rparr>
                       else Some \<lparr>pvFixed = pv', checksumExpected = expected, checksumActual = actual,
                              fCorrectableError = pfCorrectableError, ibitCorrupted = pibitCorrupted\<rparr>)
                else if fFault then
                  Some \<lparr>pvFixed = pv, checksumExpected = expected, checksumActual = actual,
                    fCorrectableError = True, ibitCorrupted = 1066\<rparr>
                else Some \<lparr>pvFixed = pv, checksumExpected = expected, checksumActual = actual,
                       fCorrectableError = False, ibitCorrupted = - 1\<rparr>)"

definition SetPageChecksum :: "cpu \<Rightarrow> BYTE list \<Rightarrow> nat \<Rightarrow> PAGETYPE \<Rightarrow> ULONG \<Rightarrow> BYTE list option" where
  "SetPageChecksum c pv cb pagetype pgno =
     (let pv = (if FPageHasLongChecksum pagetype then SetNewChecksumFormatFlag pv pagetype else pv)
      in case ComputePageChecksum c pv cb pagetype pgno True of
           None \<Rightarrow> None
         | Some (pv', checksum) \<Rightarrow> Some (SetChecksumOnPage pv' cb pagetype checksum))"

declare block_checksums.simps [simp del] try_fix_blocks.simps [simp del]

end
