(* ===== verification/Page_Repair.thy ===== *)
theory Page_Repair
  imports Page_Checksum
begin

unbundle bit_operations_syntax

text \<open>
  Correctness of the page checksum layer. A page that \<open>SetPageChecksum\<close> has sealed verifies
  on every processor; flipping any one of its protected bits is detected, located and undone;
  flipping two bits of one block, or a bit of the stored checksum, is detected and left alone.
\<close>

section \<open>Blocks of a page\<close>

definition valid_page :: "nat \<Rightarrow> bool" where
  "valid_page cb \<longleftrightarrow> valid_block cb \<or> 8192 < cb \<and> cb \<le> 32768 \<and> 4096 dvd cb"

definition nblk :: "nat \<Rightarrow> nat" where
  "nblk cb = (cb + CbBlockSize cb - 1) div CbBlockSize cb"

definition blk_off :: "nat \<Rightarrow> nat \<Rightarrow> nat" where
  "blk_off cb k = min cb (k * CbBlockSize cb)"

definition blk_size :: "nat \<Rightarrow> nat \<Rightarrow> nat" where
  "blk_size cb k = min (CbBlockSize cb) (cb - k * CbBlockSize cb)"

lemma valid_page_cases:
  assumes "valid_page cb"
  shows "cb \<in> {1024, 2048, 4096, 8192, 12288, 16384, 20480, 24576, 28672, 32768}"
proof (cases "valid_block cb")
  case False
  then obtain m where "cb = 4096 * m" "2 < m" "m \<le> 8" using assms by (auto simp: valid_page_def)
  moreover from this have "m = 3 \<or> m = 4 \<or> m = 5 \<or> m = 6 \<or> m = 7 \<or> m = 8" by linarith
  ultimately show ?thesis by auto
qed (auto simp: valid_block_def)

lemmas blk_defs = nblk_def blk_off_def blk_size_def CbBlockSize_def FIsSmallPage_def

lemma nblk_le_4: "valid_page cb \<Longrightarrow> nblk cb \<le> 4"
  using valid_page_cases by (fastforce simp: blk_defs)

lemma nblk_pos: "valid_page cb \<Longrightarrow> 0 < nblk cb"
  using valid_page_cases by (fastforce simp: blk_defs)

lemma less_4_cases: "k < 4 \<Longrightarrow> k = 0 \<or> k = 1 \<or> k = 2 \<or> k = (3 :: nat)"
  by linarith

lemma blk_geometry:
  assumes "valid_page cb" and "k < nblk cb"
  shows "valid_block (blk_size cb k)" and "blk_off cb k = k * CbBlockSize cb"
    and "blk_off cb k + blk_size cb k = blk_off cb (Suc k)" and "blk_off cb (Suc k) \<le> cb"
    and "min (cb - (blk_off cb k + blk_size cb k)) (blk_size cb k) = blk_size cb (Suc k)"
proof -
  have k: "k = 0 \<or> k = 1 \<or> k = 2 \<or> k = 3" using assms nblk_le_4 [OF assms(1)] by (intro less_4_cases) linarith
  show "valid_block (blk_size cb k)" "blk_off cb k = k * CbBlockSize cb"
    "blk_off cb k + blk_size cb k = blk_off cb (Suc k)" "blk_off cb (Suc k) \<le> cb"
    "min (cb - (blk_off cb k + blk_size cb k)) (blk_size cb k) = blk_size cb (Suc k)"
    using valid_page_cases [OF assms(1)] assms(2) k by (elim insertE disjE; simp add: blk_defs valid_block_def; fail)+
qed

lemma blk_off_le: "blk_off cb k \<le> cb"
  by (simp add: blk_off_def)

lemma blk_end: "valid_page cb \<Longrightarrow> blk_size cb (nblk cb) = 0"
  using valid_page_cases by (fastforce simp: blk_defs)

lemma blk_start [simp]: "blk_off cb 0 = 0" "blk_size cb 0 = CbBlockSize cb"
  by (simp_all add: blk_defs)

text \<open>The specification of all four checksums: one per block, zero where there is no block.\<close>

definition blk_checksum :: "BYTE list \<Rightarrow> nat \<Rightarrow> ULONG \<Rightarrow> nat \<Rightarrow> QWORD" where
  "blk_checksum pv cb pgno k =
     (if k < nblk cb then new_checksum_spec (drop (blk_off cb k) pv) (blk_size cb k) pgno (k = 0) else 0)"

definition page_checksum_spec :: "BYTE list \<Rightarrow> nat \<Rightarrow> ULONG \<Rightarrow> PAGECHECKSUM" where
  "page_checksum_spec pv cb pgno = \<lparr>rgChecksum = map (blk_checksum pv cb pgno) [0..<4]\<rparr>"

lemma upt_4: "[0..<4] = [0, 1, 2, 3 :: nat]"
  by (simp add: upt_rec)

lemma length_set_rgChecksum [simp]: "64 \<le> length pv \<Longrightarrow> length (set_rgChecksum pv rg) = length pv"
  by (simp add: set_rgChecksum_def ib_rgChecksum_def Let_def)

lemma block_checksums_run:
  assumes "valid_page cb" and "\<not> FIsSmallPage cb" and "length pv = cb"
  shows "\<exists>ibT i rg. block_checksums c pv cb pgno (CbBlockSize cb) (CbBlockSize cb) 1 [0, 0, 0, 0] = Some (ibT, i, rg)
     \<and> \<not> (cb - ibT > 0 \<and> \<not> i < cxeChecksumPerPage)
     \<and> (if cb - ibT > 0 then rg[i := ChecksumNewFormat c (drop ibT pv) (cb - ibT) pgno False] else rg)
        = 0 # map (blk_checksum pv cb pgno) [1, 2, 3]"
proof -
  consider "cb = 12288" | "cb = 16384" | "cb = 20480" | "cb = 24576" | "cb = 28672" | "cb = 32768"
    using valid_page_cases [OF assms(1)] assms(2) by (auto simp: FIsSmallPage_def)
  then show ?thesis
    by cases (use assms(3) in \<open>simp_all add: block_checksums.simps blk_checksum_def blk_defs cxeChecksumPerPage_def
        new_selected.checksum_spec valid_block_def\<close>)
qed

lemma FGetBit_drop: "8 * m + j < 8 * length pv \<Longrightarrow> FGetBit (drop m pv) j \<longleftrightarrow> FGetBit pv (8 * m + j)"
  by (auto simp: FGetBit_bit)

text \<open>Every block lies behind its predecessors, so a change is seen by one block checksum only.\<close>

lemma blk_checksum_cong:
  assumes "valid_page cb" and "length pv = cb" and "length pv' = cb"
    and "\<And>j. 8 * blk_off cb k \<le> j \<Longrightarrow> j < 8 * blk_off cb (Suc k) \<Longrightarrow> \<not> (k = 0 \<and> j < 64) \<Longrightarrow> FGetBit pv j \<longleftrightarrow> FGetBit pv' j"
  shows "blk_checksum pv cb pgno k = blk_checksum pv' cb pgno k"
proof (cases "k < nblk cb")
  case True
  note geo = blk_geometry [OF assms(1) True]
  have "new_checksum_spec (drop (blk_off cb k) pv) (blk_size cb k) pgno (k = 0)
    = new_checksum_spec (drop (blk_off cb k) pv') (blk_size cb k) pgno (k = 0)"
  proof (rule new_checksum_spec_cong [OF geo(1)])
    fix j assume j: "j < 8 * blk_size cb k" "\<not> (k = 0 \<and> j < 64)"
    then have "FGetBit pv (8 * blk_off cb k + j) = FGetBit pv' (8 * blk_off cb k + j)"
      using geo(3) by (intro assms(4)) auto
    then show "FGetBit (drop (blk_off cb k) pv) j = FGetBit (drop (blk_off cb k) pv') j"
      using j geo(3,4) assms(2,3) by (simp add: FGetBit_drop)
  qed (use geo(3,4) assms(2,3) in auto)
  then show ?thesis using True by (simp add: blk_checksum_def)
qed (simp add: blk_checksum_def)

lemma blk_checksum_header:
  assumes "valid_page cb" and "length pv = cb"
  shows "ChecksumNewFormat c pv (CbBlockSize cb) pgno True = blk_checksum pv cb pgno 0"
  using blk_geometry(1,3,4) [OF assms(1) nblk_pos [OF assms(1)]] assms nblk_pos [OF assms(1)]
  by (simp add: blk_checksum_def new_selected.checksum_spec)

lemma page_size:
  assumes "valid_page cb"
  shows "1024 \<le> cb" and "1024 \<le> blk_off cb (Suc 0)" and "k < 4 \<Longrightarrow> 0 < k \<Longrightarrow> 1024 \<le> blk_off cb k"
    and "FIsSmallPage cb \<Longrightarrow> nblk cb = 1 \<and> CbBlockSize cb = cb" and "cb \<le> 32768"
proof -
  show "1024 \<le> cb" "1024 \<le> blk_off cb (Suc 0)" "FIsSmallPage cb \<Longrightarrow> nblk cb = 1 \<and> CbBlockSize cb = cb" "cb \<le> 32768"
    using valid_page_cases [OF assms] by (elim insertE; simp add: blk_defs; fail)+
  show "k < 4 \<Longrightarrow> 0 < k \<Longrightarrow> 1024 \<le> blk_off cb k"
    using valid_page_cases [OF assms] less_4_cases [of k] by (elim insertE; fastforce simp: blk_defs)
qed

lemma compute_verify:
  assumes "valid_page cb" and "length pv = cb" and "FPageHasNewChecksumFormat pv databasePage"
  shows "ComputePageChecksum c pv cb databasePage pgno False = Some (pv, page_checksum_spec pv cb pgno)"
proof (cases "FIsSmallPage cb")
  case True
  then show ?thesis
    using assms page_size(4) [OF assms(1) True] blk_checksum_header [OF assms(1,2)]
    by (simp add: ComputePageChecksum_def FPageHasLongChecksum_def page_checksum_spec_def upt_4 blk_checksum_def)
next
  case False
  obtain ibT i rg where run: "block_checksums c pv cb pgno (CbBlockSize cb) (CbBlockSize cb) 1 [0, 0, 0, 0] = Some (ibT, i, rg)"
    "\<not> (cb - ibT > 0 \<and> \<not> i < cxeChecksumPerPage)"
    "(if cb - ibT > 0 then rg[i := ChecksumNewFormat c (drop ibT pv) (cb - ibT) pgno False] else rg)
      = 0 # map (blk_checksum pv cb pgno) [1, 2, 3]"
    using block_checksums_run [OF assms(1) False assms(2), of c pgno] by blast
  show ?thesis
    unfolding ComputePageChecksum_def Let_def run(1) option.case prod.case run(3)
    using assms(3) False run(2) blk_checksum_header [OF assms(1,2), of c pgno]
    by (simp add: FPageHasLongChecksum_def page_checksum_spec_def upt_4)
qed

section \<open>Sealing a page\<close>

text \<open>A sealed page carries the new format and the checksums of its own blocks.\<close>

definition sealed :: "BYTE list \<Rightarrow> nat \<Rightarrow> ULONG \<Rightarrow> bool" where
  "sealed pv cb pgno \<longleftrightarrow> valid_page cb \<and> length pv = cb \<and> FGetBit pv 301
     \<and> LongChecksumFromPage pv cb = page_checksum_spec pv cb pgno"

lemma new_format_bit [simp]: "FPageHasNewChecksumFormat pv databasePage \<longleftrightarrow> FGetBit pv 301"
  by (simp add: FPageHasNewChecksumFormat_def IbitNewChecksumFormatFlag_def)

lemma FGetBit_blit:
  assumes "k + length xs \<le> length pv" and "j < 8 * length pv" and "j < 8 * k \<or> 8 * (k + length xs) \<le> j"
  shows "FGetBit (blit pv k xs) j \<longleftrightarrow> FGetBit pv j"
  using assms by (auto simp: FGetBit_bit nth_blit)

lemma FGetBit_set_rgChecksum:
  "64 \<le> length pv \<Longrightarrow> j < 8 * length pv \<Longrightarrow> j < 320 \<or> 512 \<le> j \<Longrightarrow> FGetBit (set_rgChecksum pv rg) j \<longleftrightarrow> FGetBit pv j"
  by (auto simp: set_rgChecksum_def ib_rgChecksum_def Let_def FGetBit_blit)

lemma load_set_rgChecksum:
  assumes "64 \<le> length pv"
  shows "subbuf 40 8 (set_rgChecksum pv rg) = store_le 8 (rgChecksum rg ! 1)"
    and "subbuf 48 8 (set_rgChecksum pv rg) = store_le 8 (rgChecksum rg ! 2)"
    and "subbuf 56 8 (set_rgChecksum pv rg) = store_le 8 (rgChecksum rg ! 3)"
    and "subbuf 0 8 (set_rgChecksum pv rg) = subbuf 0 8 pv"
  using assms by (simp_all add: set_rgChecksum_def ib_rgChecksum_def Let_def subbuf_blit_disjoint del: subbuf_0)

definition holds_rgChecksum :: "BYTE list \<Rightarrow> PAGECHECKSUM \<Rightarrow> bool" where
  "holds_rgChecksum pv rg \<longleftrightarrow> subbuf 40 8 pv = store_le 8 (rgChecksum rg ! 1)
     \<and> subbuf 48 8 pv = store_le 8 (rgChecksum rg ! 2) \<and> subbuf 56 8 pv = store_le 8 (rgChecksum rg ! 3)"

lemma set_rgChecksum_same: "holds_rgChecksum pv rg \<Longrightarrow> set_rgChecksum pv rg = pv"
  by (simp add: holds_rgChecksum_def set_rgChecksum_def ib_rgChecksum_def blit_same)

lemma holds_set_rgChecksum: "64 \<le> length pv \<Longrightarrow> holds_rgChecksum (set_rgChecksum pv rg) rg"
  by (simp add: holds_rgChecksum_def load_set_rgChecksum)

lemma compute_small: "FIsSmallPage cb \<Longrightarrow> ComputePageChecksum c pv cb pagetype pgno fNew = ComputePageChecksum c pv cb pagetype pgno False"
  by (simp add: ComputePageChecksum_def)

lemma compute_seal:
  assumes "valid_page cb" and "length pv = cb" and "FGetBit pv 301"
  shows "\<exists>pv'. ComputePageChecksum c pv cb databasePage pgno True = Some (pv', page_checksum_spec pv' cb pgno)
    \<and> length pv' = cb \<and> FGetBit pv' 301 \<and> (FIsSmallPage cb \<or> holds_rgChecksum pv' (page_checksum_spec pv' cb pgno))
    \<and> pv' = (if FIsSmallPage cb then pv else set_rgChecksum pv (page_checksum_spec pv cb pgno))"
proof (cases "FIsSmallPage cb")
  case True
  have "ComputePageChecksum c pv cb databasePage pgno False = Some (pv, page_checksum_spec pv cb pgno)"
    using assms by (simp add: compute_verify)
  then show ?thesis using assms True by (simp add: compute_small [of cb c pv databasePage pgno True])
next
  case False
  let ?rg = "0 # map (blk_checksum pv cb pgno) [1, 2, 3]"
  let ?pv = "set_rgChecksum pv \<lparr>rgChecksum = ?rg\<rparr>"
  note size = page_size [OF assms(1)]
  have len: "64 \<le> length pv" "length ?pv = cb" using assms(2) size(1) by simp_all
  obtain ibT i rg where run: "block_checksums c pv cb pgno (CbBlockSize cb) (CbBlockSize cb) 1 [0, 0, 0, 0] = Some (ibT, i, rg)"
    "\<not> (cb - ibT > 0 \<and> \<not> i < cxeChecksumPerPage)"
    "(if cb - ibT > 0 then rg[i := ChecksumNewFormat c (drop ibT pv) (cb - ibT) pgno False] else rg) = ?rg"
    using block_checksums_run [OF assms(1) False assms(2), of c pgno] by blast
  have "blk_checksum ?pv cb pgno k = blk_checksum pv cb pgno k" if "0 < k" "k < 4" for k
    using that size(3) [of k] blk_off_le [of cb "Suc k"] assms(2) len
    by (intro blk_checksum_cong [OF assms(1)] FGetBit_set_rgChecksum) auto
  then have spec: "page_checksum_spec ?pv cb pgno = \<lparr>rgChecksum = ?rg[0 := blk_checksum ?pv cb pgno 0]\<rparr>"
    by (simp add: page_checksum_spec_def upt_4)
  have "ComputePageChecksum c pv cb databasePage pgno True = Some (?pv, page_checksum_spec ?pv cb pgno)"
    unfolding ComputePageChecksum_def Let_def run(1) option.case prod.case run(3) spec
    using assms(3) False run(2) blk_checksum_header [OF assms(1) len(2), of c pgno]
    by (simp add: FPageHasLongChecksum_def)
  moreover have "FGetBit ?pv 301" using assms(3) len(1) by (simp add: FGetBit_set_rgChecksum)
  moreover have "holds_rgChecksum ?pv (page_checksum_spec ?pv cb pgno)"
    unfolding spec using len(1) by (simp add: holds_rgChecksum_def load_set_rgChecksum)
  moreover have "?pv = set_rgChecksum pv (page_checksum_spec pv cb pgno)"
    by (simp add: set_rgChecksum_def page_checksum_spec_def upt_4)
  ultimately show ?thesis using len(2) False by auto
qed

lemma SetPageChecksum_sealed:
  assumes "valid_page cb" and "length pv = cb"
  shows "\<exists>pv'. SetPageChecksum c pv cb databasePage pgno = Some pv' \<and> sealed pv' cb pgno
    \<and> (\<forall>j. 64 \<le> j \<and> j < 8 * cb \<and> j \<noteq> 301 \<and> (FIsSmallPage cb \<or> j < 320 \<or> 512 \<le> j) \<longrightarrow> FGetBit pv' j = FGetBit pv j)"
proof -
  note size = page_size [OF assms(1)]
  define pv1 where "pv1 = SetBit pv 301"
  have "length pv1 = cb" "FGetBit pv1 301" using assms size(1) by (simp_all add: pv1_def)
  then obtain pv2 where pv2: "ComputePageChecksum c pv1 cb databasePage pgno True = Some (pv2, page_checksum_spec pv2 cb pgno)"
    "length pv2 = cb" "FGetBit pv2 301" "FIsSmallPage cb \<or> holds_rgChecksum pv2 (page_checksum_spec pv2 cb pgno)"
    "pv2 = (if FIsSmallPage cb then pv1 else set_rgChecksum pv1 (page_checksum_spec pv1 cb pgno))"
    using compute_seal [OF assms(1), of pv1 c pgno] by blast
  define rg where "rg = page_checksum_spec pv2 cb pgno"
  define pv3 where "pv3 = blit pv2 0 (store_le 8 (rgChecksum rg ! 0))"
  have len: "length pv3 = cb" "8 \<le> length pv2" using pv2(2) size(1) by (simp_all add: pv3_def)
  have held: "FIsSmallPage cb \<or> holds_rgChecksum pv3 rg"
    using pv2(4) len(2) unfolding rg_def [symmetric] by (auto simp: holds_rgChecksum_def pv3_def subbuf_blit_disjoint)
  then have "SetLongChecksumOnPage pv2 cb rg = pv3"
    by (auto simp: SetLongChecksumOnPage_def pv3_def [symmetric] set_rgChecksum_same)
  then have set: "SetPageChecksum c pv cb databasePage pgno = Some pv3"
    using pv2(1) by (simp add: SetPageChecksum_def FPageHasLongChecksum_def SetNewChecksumFormatFlag_def
        IbitNewChecksumFormatFlag_def SetChecksumOnPage_def rg_def pv1_def)
  have bits: "FGetBit pv3 j = FGetBit pv2 j" if "64 \<le> j" "j < 8 * cb" for j
    using that len pv2(2) by (auto simp: pv3_def FGetBit_blit)
  have "blk_checksum pv3 cb pgno k = blk_checksum pv2 cb pgno k" if "k < 4" for k
    using that size(3) [of k] blk_off_le [of cb "Suc k"] pv2(2) len
    by (intro blk_checksum_cong [OF assms(1)] bits) (auto simp: not_less)
  then have spec: "page_checksum_spec pv3 cb pgno = rg"
    by (simp add: page_checksum_spec_def rg_def upt_4)
  have "subbuf 0 8 pv3 = store_le 8 (rgChecksum rg ! 0)" using len by (simp add: pv3_def del: subbuf_0)
  moreover have "FIsSmallPage cb \<Longrightarrow> blk_checksum pv2 cb pgno k = 0" if "0 < k" for k
    using that size(4) by (simp add: blk_checksum_def)
  ultimately have "LongChecksumFromPage pv3 cb = rg"
    using held by (auto simp: LongChecksumFromPage_def PAGECHECKSUM_of_def holds_rgChecksum_def ib_rgChecksum_def
        rg_def page_checksum_spec_def upt_4 simp del: subbuf_0)
  then have "sealed pv3 cb pgno"
    using assms len pv2(3) bits [of 301] size(1) spec by (simp add: sealed_def)
  moreover have "FGetBit pv3 j = FGetBit pv j"
    if "64 \<le> j" "j < 8 * cb" "j \<noteq> 301" "FIsSmallPage cb \<or> j < 320 \<or> 512 \<le> j" for j
  proof -
    have "FGetBit pv2 j = FGetBit pv1 j"
      using that size(1) \<open>length pv1 = cb\<close> pv2(5) by (auto simp: FGetBit_set_rgChecksum)
    then show ?thesis using that bits [of j] assms size(1) by (simp add: pv1_def)
  qed
  ultimately show ?thesis using set by blast
qed

section \<open>The repair loop\<close>

lemma blocks_step:
  assumes "valid_page cb" and "k < nblk cb"
  shows "try_fix_blocks cb A k (blk_size cb k) (blk_off cb k) st =
    (case try_fix_block (FIsSmallPage cb) k (blk_size cb k) (blk_off cb k) A st of
       Inl _ \<Rightarrow> FatalBlock
     | Inr st' \<Rightarrow> try_fix_blocks cb A (Suc k) (blk_size cb (Suc k)) (blk_off cb (Suc k)) st')"
proof -
  note geo = blk_geometry [OF assms]
  have "0 < blk_size cb k" and "k < cxeChecksumPerPage"
    using geo(1) assms(2) nblk_le_4 [OF assms(1)] by (auto simp: valid_block_def cxeChecksumPerPage_def)
  then show ?thesis by (subst try_fix_blocks.simps) (simp add: geo(3) geo(5) [unfolded geo(3)] not_le split: sum.split)
qed

lemma blocks_end:
  assumes "valid_page cb"
  shows "try_fix_blocks cb A (nblk cb) (blk_size cb (nblk cb)) ibT (E, R, ib, X) = Fixable (nblk cb) E R ib"
  by (subst try_fix_blocks.simps) (simp add: blk_end [OF assms])

text \<open>Blocks whose checksums match leave everything but their own bit offset as it is.\<close>

lemma blocks_skip:
  assumes "valid_page cb" and "m \<le> nblk cb" and "k \<le> m" and "length R = 4"
    and "\<And>i. k \<le> i \<Longrightarrow> i < m \<Longrightarrow> rgChecksum X ! i = rgChecksum A ! i \<and> E ! i = xeChecksumNoError"
  shows "\<exists>R'. length R' = 4 \<and> (\<forall>i. i < k \<or> m \<le> i \<longrightarrow> R' ! i = R ! i)
    \<and> try_fix_blocks cb A k (blk_size cb k) (blk_off cb k) (E, R, ib, X)
      = try_fix_blocks cb A m (blk_size cb m) (blk_off cb m) (E, R', ib, X)"
  using assms(3,4,5)
proof (induction "m - k" arbitrary: k R)
  case 0
  then show ?case by auto
next
  case (Suc d)
  then have k: "k < nblk cb" and d: "d = m - Suc k" "Suc k \<le> m" using assms(2) by auto
  define R1 where "R1 = R[k := R ! k + 8 * word_of_nat (blk_off cb k)]"
  have "try_fix_blocks cb A k (blk_size cb k) (blk_off cb k) (E, R, ib, X)
      = try_fix_blocks cb A (Suc k) (blk_size cb (Suc k)) (blk_off cb (Suc k)) (E, R1, ib, X)"
    using Suc.prems(3) [of k] d(2) list_update_id [of E k]
    by (simp add: blocks_step [OF assms(1) k] try_fix_block_def FTryFixBlock_def R1_def)
  moreover obtain R' where "length R' = 4" "\<forall>i. i < Suc k \<or> m \<le> i \<longrightarrow> R' ! i = R1 ! i"
    "try_fix_blocks cb A (Suc k) (blk_size cb (Suc k)) (blk_off cb (Suc k)) (E, R1, ib, X)
      = try_fix_blocks cb A m (blk_size cb m) (blk_off cb m) (E, R', ib, X)"
    using Suc.hyps(1) [OF d, of R1] Suc.prems(2,3) by (auto simp: R1_def)
  moreover have "R1 ! i = R ! i" if "i < k \<or> m \<le> i" for i using that d(2) by (auto simp: R1_def)
  ultimately show ?case by (metis less_SucI)
qed

text \<open>The initial bit offsets: the format flag for the header block, \<open>UINT_MAX\<close> for the others.\<close>

definition no_errors :: "XECHECKSUMERROR list" where
  "no_errors = [xeChecksumNoError, xeChecksumNoError, xeChecksumNoError, xeChecksumNoError]"

definition init_bits :: "ULONG list" where
  "init_bits = [301, - 1, - 1, - 1]"

lemma nth_no_errors: "i < 4 \<Longrightarrow> no_errors ! i = xeChecksumNoError"
  using less_4_cases [of i] by (auto simp: no_errors_def)

lemma length_init [simp]: "length no_errors = 4" "length init_bits = 4"
  by (simp_all add: no_errors_def init_bits_def)

lemma blocks_reach:
  assumes page: "valid_page cb" and "k0 < nblk cb" and "\<And>i. i < k0 \<Longrightarrow> rgChecksum X ! i = rgChecksum A ! i"
  obtains R where "length R = 4" and "R ! k0 = init_bits ! k0"
    and "try_fix_blocks cb A 0 (CbBlockSize cb) 0 (no_errors, init_bits, - 1, X)
      = try_fix_blocks cb A k0 (blk_size cb k0) (blk_off cb k0) (no_errors, R, - 1, X)"
proof -
  have "\<exists>R'. length R' = 4 \<and> (\<forall>i. i < 0 \<or> k0 \<le> i \<longrightarrow> R' ! i = init_bits ! i)
    \<and> try_fix_blocks cb A 0 (blk_size cb 0) (blk_off cb 0) (no_errors, init_bits, - 1, X)
      = try_fix_blocks cb A k0 (blk_size cb k0) (blk_off cb k0) (no_errors, R', - 1, X)"
    using assms nblk_le_4 [OF page] by (intro blocks_skip [OF page]) (auto simp: nth_no_errors)
  then show thesis using that by auto
qed

text \<open>One correctable block among matching ones.\<close>

lemma blocks_one_error:
  assumes page: "valid_page cb" and k0: "k0 < nblk cb"
    and before: "\<And>i. i < k0 \<Longrightarrow> rgChecksum X ! i = rgChecksum A ! i"
    and at: "\<And>R. length R = 4 \<Longrightarrow> R ! k0 = init_bits ! k0 \<Longrightarrow>
      try_fix_block (FIsSmallPage cb) k0 (blk_size cb k0) (blk_off cb k0) A (no_errors, R, - 1, X)
        = Inr (no_errors[k0 := xeChecksumCorrectableError], R[k0 := ib], ib, X')"
    and after: "\<And>i. k0 < i \<Longrightarrow> i < nblk cb \<Longrightarrow> rgChecksum X' ! i = rgChecksum A ! i"
  shows "\<exists>R'. R' ! k0 = ib \<and> try_fix_blocks cb A 0 (CbBlockSize cb) 0 (no_errors, init_bits, - 1, X)
    = Fixable (nblk cb) (no_errors[k0 := xeChecksumCorrectableError]) R' ib"
proof -
  have n: "nblk cb \<le> 4" by (rule nblk_le_4 [OF page])
  obtain R where R: "length R = 4" "R ! k0 = init_bits ! k0"
    "try_fix_blocks cb A 0 (CbBlockSize cb) 0 (no_errors, init_bits, - 1, X)
      = try_fix_blocks cb A k0 (blk_size cb k0) (blk_off cb k0) (no_errors, R, - 1, X)"
    using page k0 before by (rule blocks_reach)
  define E where "E = no_errors[k0 := xeChecksumCorrectableError]"
  have "\<exists>R'. length R' = 4 \<and> (\<forall>i. i < Suc k0 \<or> nblk cb \<le> i \<longrightarrow> R' ! i = R[k0 := ib] ! i)
    \<and> try_fix_blocks cb A (Suc k0) (blk_size cb (Suc k0)) (blk_off cb (Suc k0)) (E, R[k0 := ib], ib, X')
      = try_fix_blocks cb A (nblk cb) (blk_size cb (nblk cb)) (blk_off cb (nblk cb)) (E, R', ib, X')"
    using k0 R(1) after n by (intro blocks_skip [OF page]) (auto simp: E_def nth_no_errors)
  then obtain R' where "R' ! k0 = ib"
    "try_fix_blocks cb A (Suc k0) (blk_size cb (Suc k0)) (blk_off cb (Suc k0)) (E, R[k0 := ib], ib, X')
      = Fixable (nblk cb) E R' ib"
    using R(1) k0 n by (auto simp: blocks_end [OF page])
  then show ?thesis
    using R at [OF R(1,2)] by (auto simp: blocks_step [OF page k0] E_def)
qed

text \<open>A fatal block behind matching ones.\<close>

lemma blocks_fatal:
  assumes page: "valid_page cb" and k0: "k0 < nblk cb"
    and before: "\<And>i. i < k0 \<Longrightarrow> rgChecksum X ! i = rgChecksum A ! i"
    and at: "rgChecksum X ! k0 \<noteq> rgChecksum A ! k0"
      "\<not> FECCErrorIsCorrectable (blk_size cb k0) (rgChecksum X ! k0) (rgChecksum A ! k0)"
  shows "try_fix_blocks cb A 0 (CbBlockSize cb) 0 (no_errors, init_bits, - 1, X) = FatalBlock"
proof -
  obtain R where "try_fix_blocks cb A 0 (CbBlockSize cb) 0 (no_errors, init_bits, - 1, X)
      = try_fix_blocks cb A k0 (blk_size cb k0) (blk_off cb k0) (no_errors, R, - 1, X)"
    using page k0 before by (rule blocks_reach)
  then show ?thesis
    using at by (simp add: blocks_step [OF page k0] try_fix_block_def FTryFixBlock_def)
qed

section \<open>Flipped bits\<close>

definition blk_of :: "nat \<Rightarrow> nat \<Rightarrow> nat" where
  "blk_of cb j = j div (8 * CbBlockSize cb)"

lemma blk_of_range:
  assumes "valid_page cb" and "j < 8 * cb"
  shows "blk_of cb j < nblk cb" and "8 * blk_off cb (blk_of cb j) \<le> j" and "j < 8 * blk_off cb (Suc (blk_of cb j))"
proof -
  have pos: "0 < CbBlockSize cb" using valid_page_cases [OF assms(1)] by (auto simp: blk_defs)
  have "cb \<le> nblk cb * CbBlockSize cb"
    using valid_page_cases [OF assms(1)] by (elim insertE) (simp_all add: blk_defs)
  then have "j < nblk cb * (8 * CbBlockSize cb)" using assms(2) by simp
  then show "blk_of cb j < nblk cb" unfolding blk_of_def by (rule less_mult_imp_div_less)
  have "8 * CbBlockSize cb * blk_of cb j \<le> j" unfolding blk_of_def by (rule times_div_less_eq_dividend)
  then show "8 * blk_off cb (blk_of cb j) \<le> j" by (auto simp: blk_off_def mult_ac min_def)
  have "j < 8 * CbBlockSize cb * Suc (blk_of cb j)"
    unfolding blk_of_def using pos dividend_less_times_div [of "8 * CbBlockSize cb" j] by simp
  then show "j < 8 * blk_off cb (Suc (blk_of cb j))" using assms(2) by (simp add: blk_off_def algebra_simps min_def)
qed

lemma blk_off_mono: "i \<le> k \<Longrightarrow> blk_off cb i \<le> blk_off cb k"
  by (auto simp: blk_off_def min_def intro: order_trans mult_le_mono1)

lemma drop_FlipBit:
  "8 * m \<le> j \<Longrightarrow> j < 8 * length pv \<Longrightarrow> drop m (FlipBit pv j) = FlipBit (drop m pv) (j - 8 * m)"
  by (rule buffer_eqI) (auto simp: FGetBit_drop)

lemma blk_checksum_FlipBit:
  assumes "valid_page cb" and "length pv = cb" and "64 \<le> j" and "j < 8 * cb"
  shows "blk_checksum (FlipBit pv j) cb pgno k = blk_checksum pv cb pgno k
    XOR (if k = blk_of cb j then syndrome (blk_size cb k) (j - 8 * blk_off cb k) else 0)"
proof (cases "k = blk_of cb j")
  case True
  then have k: "k < nblk cb" "8 * blk_off cb k \<le> j" "j < 8 * blk_off cb (Suc k)"
    using blk_of_range [OF assms(1,4)] by simp_all
  note geo = blk_geometry [OF assms(1) k(1)]
  have "\<not> (k = 0 \<and> j - 8 * blk_off cb k < 64)" using assms(3) by auto
  then show ?thesis
    using True k geo(1,3,4) assms(2,4) by (simp add: blk_checksum_def drop_FlipBit new_spec_FlipBit)
next
  case False
  have "j \<noteq> i" if "8 * blk_off cb k \<le> i" "i < 8 * blk_off cb (Suc k)" for i
  proof
    assume "j = i"
    with that blk_of_range(2,3) [OF assms(1,4)]
    have "blk_off cb k < blk_off cb (Suc (blk_of cb j))" "blk_off cb (blk_of cb j) < blk_off cb (Suc k)" by linarith+
    then have "\<not> Suc (blk_of cb j) \<le> k" "\<not> Suc k \<le> blk_of cb j" using blk_off_mono by (meson not_le)+
    then show False using False by linarith
  qed
  then have "blk_checksum (FlipBit pv j) cb pgno k = blk_checksum pv cb pgno k"
    using assms by (intro blk_checksum_cong) auto
  then show ?thesis using False by simp
qed

lemma subbuf_FlipBit:
  assumes "j < 8 * length pv" and "k + n \<le> length pv"
  shows "subbuf k n (FlipBit pv j) = (if 8 * k \<le> j \<and> j < 8 * (k + n) then FlipBit (subbuf k n pv) (j - 8 * k) else subbuf k n pv)"
proof (rule buffer_eqI)
  fix i assume "i < 8 * length (subbuf k n (FlipBit pv j))"
  then have "i < 8 * n" using assms(2) by simp
  moreover from this have "FGetBit (subbuf k n bs) i = FGetBit bs (8 * k + i)" if "length bs = length pv" for bs
    using that assms(2) by (auto simp: FGetBit_bit)
  ultimately show "FGetBit (subbuf k n (FlipBit pv j)) i
      = FGetBit (if 8 * k \<le> j \<and> j < 8 * (k + n) then FlipBit (subbuf k n pv) (j - 8 * k) else subbuf k n pv) i"
    using assms by auto
qed (use assms in auto)

text \<open>The copy of the stored checksums that the loop corrects, and its bytes in the page.\<close>

lemma checksum_bytes_page:
  assumes "\<not> FIsSmallPage cb" and "64 \<le> length pv"
  shows "checksum_bytes (LongChecksumFromPage pv cb) = subbuf 0 8 pv @ subbuf 40 24 pv"
proof -
  have "subbuf 40 24 pv = subbuf 40 8 pv @ subbuf 48 8 pv @ subbuf 56 8 pv"
    using assms(2) by (intro nth_equalityI) (auto simp: nth_append)
  then show ?thesis
    using assms by (simp add: checksum_bytes_def LongChecksumFromPage_def PAGECHECKSUM_of_def ib_rgChecksum_def del: subbuf_0)
qed

lemma checksum_of_bytes_inverse:
  "length (rgChecksum pc) = 4 \<Longrightarrow> checksum_of_bytes (checksum_bytes pc) = pc"
proof -
  assume "length (rgChecksum pc) = 4"
  then obtain a b c d where "pc = \<lparr>rgChecksum = [a, b, c, d]\<rparr>"
    by (cases pc) (auto simp: numeral_eq_Suc length_Suc_conv)
  then show ?thesis
    by (simp add: checksum_of_bytes_def checksum_bytes_def cxeChecksumPerPage_def upt_4 subbuf_def)
qed

lemma length_LongChecksum [simp]: "length (rgChecksum (LongChecksumFromPage pv cb)) = 4"
  by (simp add: LongChecksumFromPage_def PAGECHECKSUM_of_def)

lemma FlipBit_append:
  "8 * length xs \<le> j \<Longrightarrow> FlipBit (xs @ ys) j = xs @ FlipBit ys (j - 8 * length xs)"
proof -
  assume "8 * length xs \<le> j"
  then obtain i where "j = 8 * length xs + i" by (auto dest: le_Suc_ex)
  then show ?thesis by (simp add: FlipBit_def Let_def list_update_append nth_append)
qed

lemma stored_FlipBit_corrected:
  assumes "\<not> FIsSmallPage cb" and "64 \<le> length pv" and "320 \<le> j" and "j < 512"
  shows "FlipBitOfChecksum (LongChecksumFromPage (FlipBit pv j) cb) (64 + (j - 320)) = LongChecksumFromPage pv cb"
proof -
  have j: "j < 8 * length pv" using assms by linarith
  have "FlipBit (checksum_bytes (LongChecksumFromPage (FlipBit pv j) cb)) (64 + (j - 320))
    = subbuf 0 8 pv @ FlipBit (FlipBit (subbuf 40 24 pv) (j - 320)) (j - 320)"
    using assms j by (simp add: checksum_bytes_page subbuf_FlipBit FlipBit_append del: subbuf_0)
  also have "\<dots> = checksum_bytes (LongChecksumFromPage pv cb)"
    using assms by (simp add: checksum_bytes_page del: subbuf_0)
  finally show ?thesis by (simp add: FlipBitOfChecksum_def checksum_of_bytes_inverse)
qed

lemma stored_FlipBit_same:
  assumes "64 \<le> length pv" and "64 \<le> j" and "j < 8 * length pv" and "FIsSmallPage cb \<or> j < 320 \<or> 512 \<le> j"
  shows "LongChecksumFromPage (FlipBit pv j) cb = LongChecksumFromPage pv cb"
  using assms by (auto simp: LongChecksumFromPage_def ib_rgChecksum_def subbuf_FlipBit simp del: subbuf_0)

lemma stored_FlipBit_header:
  assumes "64 \<le> length pv" and "64 \<le> j" and "j < 8 * length pv"
  shows "rgChecksum (LongChecksumFromPage (FlipBit pv j) cb) ! 0 = rgChecksum (LongChecksumFromPage pv cb) ! 0"
  using assms by (auto simp: LongChecksumFromPage_def PAGECHECKSUM_of_def subbuf_FlipBit simp del: subbuf_0)

section \<open>One flipped bit\<close>

lemma bit_number_words:
  assumes "valid_page cb" and "j < 8 * cb"
  shows "unat (word_of_nat j :: ULONG) = j" and "sint (word_of_nat j :: ULONG) = int j" and "word_of_nat j \<noteq> (- 1 :: ULONG)"
proof -
  have j: "j < 2 ^ 18" using assms(2) page_size(5) [OF assms(1)] by simp
  then show u: "unat (word_of_nat j :: ULONG) = j" by (simp add: unsigned_of_nat take_bit_nat_eq_self)
  show "sint (word_of_nat j :: ULONG) = int j"
    using j by (simp add: signed_of_nat signed_take_bit_eq_if_positive bit_iff_odd take_bit_nat_eq_self take_bit_of_nat)
  have "unat (- 1 :: ULONG) \<noteq> j" using j by (simp add: unsigned_minus_1_eq_mask mask_eq_exp_minus_1)
  then show "word_of_nat j \<noteq> (- 1 :: ULONG)" using u by metis
qed

lemma same_not_correctable: "valid_block cb \<Longrightarrow> \<not> FECCErrorIsCorrectable cb e e"
  using bit_number_mask_nonzero [of cb]
  by (auto simp: correctable_halves ecc_halves_def DwECCChecksumFromXEChecksum_def simp del: ecc_of_make xor_of_make)

lemma syndrome_neq: "valid_block cb \<Longrightarrow> j < 8 * cb \<Longrightarrow> e XOR syndrome cb j \<noteq> e"
  using syndrome_correctable [of cb j e] same_not_correctable [of cb e] by auto

lemma block_of_flipped_bit:
  assumes page: "valid_page cb" and j: "64 \<le> j" "j < 8 * cb" "j \<noteq> 301" and k: "k = blk_of cb j"
    and R: "length R = 4" "R ! k = init_bits ! k"
    and "rgChecksum A ! k = rgChecksum X ! k XOR syndrome (blk_size cb k) (j - 8 * blk_off cb k)"
  shows "try_fix_block (FIsSmallPage cb) k (blk_size cb k) (blk_off cb k) A (no_errors, R, - 1, X)
    = Inr (no_errors[k := xeChecksumCorrectableError], R[k := word_of_nat j], word_of_nat j,
        if \<not> FIsSmallPage cb \<and> 320 \<le> j \<and> j < 512 then FlipBitOfChecksum X (64 + (j - 320)) else X)"
proof -
  define j' where "j' = j - 8 * blk_off cb k"
  have k4: "k < nblk cb" "8 * blk_off cb k \<le> j" "j < 8 * blk_off cb (Suc k)" and "k < 4"
    using blk_of_range [OF page j(2)] nblk_le_4 [OF page] k by simp_all
  note geo = blk_geometry [OF page k4(1)]
  have j': "j' < 8 * blk_size cb k" using k4 geo(3) by (auto simp: j'_def)
  have "j' < 8 * cb" using j(2) by (simp add: j'_def)
  note w = bit_number_words [OF page j(2)] and w' = bit_number_words [OF page this]
  have differs: "R ! k \<noteq> word_of_nat j'"
  proof (cases "k = 0")
    case True
    then show ?thesis using R(2) j(3) w'(1) by (auto simp: init_bits_def j'_def)
  next
    case False
    then have "init_bits ! k = - 1" using \<open>k < 4\<close> less_4_cases [of k] by (auto simp: init_bits_def)
    then show ?thesis using R(2) w'(3) by simp
  qed
  have "word_of_nat j' + 8 * word_of_nat (blk_off cb k) = (word_of_nat (j' + 8 * blk_off cb k) :: ULONG)" by simp
  then have sum: "word_of_nat j' + 8 * word_of_nat (blk_off cb k) = (word_of_nat j :: ULONG)"
    using k4(2) by (simp add: j'_def)
  have fixed: "FTryFixBlock (blk_size cb k) (R ! k) (rgChecksum X ! k) (rgChecksum A ! k)
      = (xeChecksumCorrectableError, word_of_nat j')"
    using assms(8) syndrome_neq [OF geo(1) j', of "rgChecksum X ! k"] differs j' w'(1)
      syndrome_correctable [OF geo(1) j', of "rgChecksum X ! k"] syndrome_located [OF geo(1) j', of "rgChecksum X ! k"]
    by (auto simp: FTryFixBlock_def Let_def j'_def [symmetric])
  have hit: "(320 :: ULONG) \<le> word_of_nat j \<longleftrightarrow> 320 \<le> j" "word_of_nat j < (512 :: ULONG) \<longleftrightarrow> j < 512"
    by (simp_all add: word_le_nat_alt word_less_nat_alt w(1))
  have first: "k = 0" if "j < 512"
    using that k4(2) page_size(3) [OF page \<open>k < 4\<close>] by (cases "k = 0") auto
  have "unat (64 + (word_of_nat j - 320) :: ULONG) = 64 + (j - 320)" if "320 \<le> j"
  proof -
    have "64 + (word_of_nat j - 320) = (word_of_nat (64 + (j - 320)) :: ULONG)" using that by (simp add: of_nat_diff)
    moreover have "64 + (j - 320) < 8 * cb" using that j(2) by linarith
    ultimately show ?thesis using bit_number_words(1) [OF page, of "64 + (j - 320)"] by simp
  qed
  then show ?thesis
    unfolding try_fix_block_def prod.case Let_def fixed sum
    using first hit R(1) \<open>k < 4\<close> by (auto simp: ib_rgChecksum_def cxeChecksumPerPage_def)
qed

lemma fold_one:
  assumes "k < n" and "\<And>i. i < n \<Longrightarrow> P i \<longleftrightarrow> i = k"
  shows "fold (\<lambda>i x. if P i then g i x else x) [0..<n] x = g k x"
proof -
  have "fold (\<lambda>i x. if P i then g i x else x) [0..<m] x = (if k < m then g k x else x)" if "m \<le> n" for m
    using that
  proof (induction m)
    case (Suc m)
    then show ?case using assms(2) [of m] by auto
  qed simp
  then show ?thesis using assms(1) by simp
qed

lemma sealed_compute:
  assumes "sealed pv cb pgno"
  shows "ComputePageChecksum c pv cb databasePage pgno fNew = Some (pv, LongChecksumFromPage pv cb)"
proof (cases fNew)
  case True
  note s = assms [unfolded sealed_def]
  have "64 \<le> length pv" using s page_size(1) [of cb] by simp
  have "pv = (if FIsSmallPage cb then pv else set_rgChecksum pv (page_checksum_spec pv cb pgno))"
  proof (cases "FIsSmallPage cb")
    case False
    have "LongChecksumFromPage pv cb = page_checksum_spec pv cb pgno" using s by simp
    then have "holds_rgChecksum pv (page_checksum_spec pv cb pgno)"
      using False \<open>64 \<le> length pv\<close> by (auto simp: holds_rgChecksum_def LongChecksumFromPage_def PAGECHECKSUM_of_def
          ib_rgChecksum_def simp flip: \<open>LongChecksumFromPage pv cb = page_checksum_spec pv cb pgno\<close>)
    then show ?thesis using False by (simp add: set_rgChecksum_same)
  qed simp
  moreover obtain pv' where "ComputePageChecksum c pv cb databasePage pgno True = Some (pv', page_checksum_spec pv' cb pgno)"
    "pv' = (if FIsSmallPage cb then pv else set_rgChecksum pv (page_checksum_spec pv cb pgno))"
    using compute_seal [of cb pv c pgno] s by blast
  ultimately show ?thesis using True s by simp
next
  case False
  then show ?thesis using assms by (simp add: sealed_def compute_verify)
qed

text \<open>The whole repair of one flipped bit, up to the decision to carry it out.\<close>

lemma TryFixPage_flip:
  assumes "sealed pv cb pgno" and j: "64 \<le> j" "j < 8 * cb" "j \<noteq> 301"
  shows "TryFixPage (FlipBit pv j) cb databasePage fCorrectError b ib (LongChecksumFromPage (FlipBit pv j) cb)
      (page_checksum_spec (FlipBit pv j) cb pgno)
    = (if fCorrectError then pv else FlipBit pv j, True, int j)"
proof -
  have s: "valid_page cb" "length pv = cb" "LongChecksumFromPage pv cb = page_checksum_spec pv cb pgno"
    using assms(1) by (simp_all add: sealed_def)
  note page = s(1)
  define k where "k = blk_of cb j"
  define X where "X = LongChecksumFromPage (FlipBit pv j) cb"
  define A where "A = page_checksum_spec (FlipBit pv j) cb pgno"
  define X' where "X' = (if \<not> FIsSmallPage cb \<and> 320 \<le> j \<and> j < 512 then FlipBitOfChecksum X (64 + (j - 320)) else X)"
  have k: "k < nblk cb" "k < 4" "8 * blk_off cb k \<le> j" using blk_of_range [OF page j(2)] nblk_le_4 [OF page] by (simp_all add: k_def)
  have len: "64 \<le> length pv" "j < 8 * length pv" using page_size(1) [OF page] s(2) j(2) by simp_all
  have A: "rgChecksum A ! i = rgChecksum (LongChecksumFromPage pv cb) ! i
      XOR (if i = k then syndrome (blk_size cb i) (j - 8 * blk_off cb i) else 0)" if "i < 4" for i
    using that blk_checksum_FlipBit [OF page s(2) j(1,2), of pgno i] by (simp add: A_def s(3) page_checksum_spec_def k_def)
  have X': "X' = LongChecksumFromPage pv cb"
  proof (cases "\<not> FIsSmallPage cb \<and> 320 \<le> j \<and> j < 512")
    case True
    then show ?thesis using stored_FlipBit_corrected [OF _ len(1), of cb j] by (simp only: X'_def X_def simp_thms if_True)
  next
    case False
    then have "FIsSmallPage cb \<or> j < 320 \<or> 512 \<le> j" by auto
    then show ?thesis
      using False stored_FlipBit_same [OF len(1) j(1) len(2), of cb] by (simp only: X'_def X_def simp_thms if_False)
  qed
  have first: "k = 0" if "j < 512" using that k page_size(3) [OF page k(2)] by (cases "k = 0") auto
  have X: "rgChecksum X ! i = rgChecksum (LongChecksumFromPage pv cb) ! i" if "i \<le> k" for i
  proof (cases "\<not> FIsSmallPage cb \<and> 320 \<le> j \<and> j < 512")
    case True
    then show ?thesis using that first len j(1) by (simp add: X_def stored_FlipBit_header)
  next
    case False
    then have "X = X'" unfolding X'_def by argo
    then show ?thesis by (simp add: X')
  qed
  have "\<exists>R'. R' ! k = word_of_nat j \<and> try_fix_blocks cb A 0 (CbBlockSize cb) 0 (no_errors, init_bits, - 1, X)
    = Fixable (nblk cb) (no_errors[k := xeChecksumCorrectableError]) R' (word_of_nat j)"
  proof (rule blocks_one_error [OF page k(1), where X' = X'])
    show "rgChecksum X ! i = rgChecksum A ! i" if "i < k" for i using that k X [of i] A [of i] by simp
    show "rgChecksum X' ! i = rgChecksum A ! i" if "k < i" "i < nblk cb" for i
      using that nblk_le_4 [OF page] X' A [of i] by simp
    fix R :: "ULONG list" assume R: "length R = 4" "R ! k = init_bits ! k"
    have "rgChecksum A ! k = rgChecksum X ! k XOR syndrome (blk_size cb k) (j - 8 * blk_off cb k)"
      using A [OF k(2)] X [of k] by simp
    from block_of_flipped_bit [OF page j k_def R this]
    show "try_fix_block (FIsSmallPage cb) k (blk_size cb k) (blk_off cb k) A (no_errors, R, - 1, X)
        = Inr (no_errors[k := xeChecksumCorrectableError], R[k := word_of_nat j], word_of_nat j, X')"
      by (simp only: X'_def)
  qed
  then obtain R' where R': "R' ! k = word_of_nat j" "try_fix_blocks cb A 0 (CbBlockSize cb) 0 (no_errors, init_bits, - 1, X)
    = Fixable (nblk cb) (no_errors[k := xeChecksumCorrectableError]) R' (word_of_nat j)" by blast
  have err: "no_errors[k := xeChecksumCorrectableError] ! i = xeChecksumCorrectableError \<longleftrightarrow> i = k" if "i < nblk cb" for i
    using that nblk_le_4 [OF page] k by (simp add: nth_list_update nth_no_errors)
  have run: "fold (\<lambda>iblk pch. if fCorrectError \<and> no_errors[k := xeChecksumCorrectableError] ! iblk = xeChecksumCorrectableError
       then FlipBit pch (unat (R' ! iblk)) else pch) [0..<nblk cb] (FlipBit pv j) = (if fCorrectError then pv else FlipBit pv j)"
  proof (cases fCorrectError)
    case True
    then show ?thesis
      using fold_one [OF k(1) err, of "\<lambda>iblk pch. FlipBit pch (unat (R' ! iblk))" "FlipBit pv j"]
        bit_number_words(1) [OF page j(2)] len(2) by (simp add: R'(1))
  next
    case False
    moreover have "fold (\<lambda>iblk pch. pch) xs p = p" for xs :: "nat list" and p :: "BYTE list" by (induction xs) auto
    ultimately show ?thesis by simp
  qed
  show ?thesis
    unfolding X_def [symmetric] A_def [symmetric] TryFixPage_def
    using R'(2) run bit_number_words(2) [OF page j(2)]
    by (simp add: no_errors_def [symmetric] init_bits_def [symmetric] IbitNewChecksumFormatFlag_def)
qed

section \<open>Verification and repair\<close>

lemma verify_new:
  assumes "valid_page cb" and "length pv = cb" and "FGetBit pv 301"
  shows "ChecksumAndPossiblyFixPage c fFault pv cb databasePage pgno fCorrectError =
    (let X = LongChecksumFromPage pv cb; A = page_checksum_spec pv cb pgno
     in if A = X then Some \<lparr>pvFixed = pv, checksumExpected = X, checksumActual = A, fCorrectableError = fFault,
            ibitCorrupted = (if fFault then 1066 else - 1)\<rparr>
        else case TryFixPage pv cb databasePage fCorrectError False (- 1) X A of (pv', fFix, ib) \<Rightarrow>
          if fCorrectError \<and> fFix then
            map_option (\<lambda>(pv'', A'). \<lparr>pvFixed = pv'', checksumExpected = LongChecksumFromPage pv' cb,
              checksumActual = A', fCorrectableError = fFix, ibitCorrupted = ib\<rparr>)
              (ComputePageChecksum c pv' cb databasePage pgno True)
          else Some \<lparr>pvFixed = pv', checksumExpected = X, checksumActual = A, fCorrectableError = fFix, ibitCorrupted = ib\<rparr>)"
  using assms by (auto simp: ChecksumAndPossiblyFixPage_def Let_def compute_verify ChecksumFromPage_def
      FPageHasLongChecksum_def split: option.split prod.split)

lemma flip_mismatch:
  assumes "sealed pv cb pgno" and "64 \<le> j" and "j < 8 * cb"
  shows "page_checksum_spec (FlipBit pv j) cb pgno \<noteq> LongChecksumFromPage (FlipBit pv j) cb"
proof -
  have s: "valid_page cb" "length pv = cb" "LongChecksumFromPage pv cb = page_checksum_spec pv cb pgno"
    using assms(1) by (simp_all add: sealed_def)
  define k where "k = blk_of cb j"
  have k: "k < nblk cb" "8 * blk_off cb k \<le> j" "j < 8 * blk_off cb (Suc k)" and "k < 4"
    using blk_of_range [OF s(1) assms(3)] nblk_le_4 [OF s(1)] by (simp_all add: k_def)
  note geo = blk_geometry [OF s(1) k(1)]
  have len: "64 \<le> length pv" "j < 8 * length pv" using page_size(1) [OF s(1)] s(2) assms(3) by simp_all
  have "rgChecksum (LongChecksumFromPage (FlipBit pv j) cb) ! k = rgChecksum (LongChecksumFromPage pv cb) ! k"
  proof (cases "k = 0")
    case False
    then have "512 \<le> j" using k(2) page_size(3) [OF s(1) \<open>k < 4\<close>] by simp
    then show ?thesis using stored_FlipBit_same [OF len(1) assms(2) len(2)] by simp
  qed (use stored_FlipBit_header [OF len(1) assms(2) len(2)] in simp)
  moreover have "rgChecksum (page_checksum_spec (FlipBit pv j) cb pgno) ! k
      = rgChecksum (LongChecksumFromPage pv cb) ! k XOR syndrome (blk_size cb k) (j - 8 * blk_off cb k)"
    using blk_checksum_FlipBit [OF s(1,2) assms(2,3), of pgno k] \<open>k < 4\<close> by (simp add: s(3) page_checksum_spec_def k_def)
  moreover have "j - 8 * blk_off cb k < 8 * blk_size cb k" using k geo(3) by auto
  ultimately show ?thesis using syndrome_neq [OF geo(1)] by metis
qed

lemma repair_one_bit:
  assumes "sealed pv cb pgno" and j: "64 \<le> j" "j < 8 * cb" "j \<noteq> 301"
  shows "ChecksumAndPossiblyFixPage c fFault (FlipBit pv j) cb databasePage pgno fCorrectError =
    Some \<lparr>pvFixed = if fCorrectError then pv else FlipBit pv j,
          checksumExpected = LongChecksumFromPage (if fCorrectError then pv else FlipBit pv j) cb,
          checksumActual = page_checksum_spec (if fCorrectError then pv else FlipBit pv j) cb pgno,
          fCorrectableError = True, ibitCorrupted = int j\<rparr>"
proof -
  have s: "valid_page cb" "length pv = cb" "FGetBit pv 301" "LongChecksumFromPage pv cb = page_checksum_spec pv cb pgno"
    using assms(1) by (simp_all add: sealed_def)
  then have "FGetBit (FlipBit pv j) 301" using j by auto
  then show ?thesis
    using s TryFixPage_flip [OF assms, of fCorrectError False "- 1"] flip_mismatch [OF assms(1) j(1,2)]
      sealed_compute [OF assms(1), of c True]
    by (simp add: verify_new Let_def)
qed

text \<open>A page whose first mismatching block is beyond repair is returned as it is.\<close>

lemma fatal_block_result:
  assumes "valid_page cb" and "length pv = cb" and "FGetBit pv 301" and "k < nblk cb"
    and "\<And>i. i < k \<Longrightarrow> rgChecksum (LongChecksumFromPage pv cb) ! i = blk_checksum pv cb pgno i"
    and "rgChecksum (LongChecksumFromPage pv cb) ! k \<noteq> blk_checksum pv cb pgno k"
    and "\<not> FECCErrorIsCorrectable (blk_size cb k) (rgChecksum (LongChecksumFromPage pv cb) ! k) (blk_checksum pv cb pgno k)"
  shows "ChecksumAndPossiblyFixPage c fFault pv cb databasePage pgno fCorrectError =
    Some \<lparr>pvFixed = pv, checksumExpected = LongChecksumFromPage pv cb, checksumActual = page_checksum_spec pv cb pgno,
          fCorrectableError = False, ibitCorrupted = - 1\<rparr>" (is ?result)
    and "LongChecksumFromPage pv cb \<noteq> page_checksum_spec pv cb pgno"
proof -
  have k: "k < 4" using assms(4) nblk_le_4 [OF assms(1)] by simp
  have nth: "rgChecksum (page_checksum_spec pv cb pgno) ! i = blk_checksum pv cb pgno i" if "i < 4" for i
    using that by (simp add: page_checksum_spec_def)
  show differ: "LongChecksumFromPage pv cb \<noteq> page_checksum_spec pv cb pgno" using nth [OF k] assms(6) by auto
  have "try_fix_blocks cb (page_checksum_spec pv cb pgno) 0 (CbBlockSize cb) 0
      (no_errors, init_bits, - 1, LongChecksumFromPage pv cb) = FatalBlock"
    using assms(5-7) k by (intro blocks_fatal [OF assms(1,4)]) (simp_all add: nth)
  then have "TryFixPage pv cb databasePage fCorrectError False (- 1) (LongChecksumFromPage pv cb) (page_checksum_spec pv cb pgno)
      = (pv, False, - 1)"
    by (simp add: TryFixPage_def no_errors_def init_bits_def IbitNewChecksumFormatFlag_def)
  then show ?result using differ by (simp add: verify_new [OF assms(1-3)] Let_def)
qed

lemma sealed_bits:
  assumes "sealed pv cb pgno"
  shows "valid_page cb" and "length pv = cb" and "FGetBit pv 301" and "64 \<le> length pv"
    and "i < 4 \<Longrightarrow> rgChecksum (LongChecksumFromPage pv cb) ! i = blk_checksum pv cb pgno i"
proof -
  show s: "valid_page cb" "length pv = cb" "FGetBit pv 301" using assms by (simp_all add: sealed_def)
  show "64 \<le> length pv" using page_size(1) [OF s(1)] s(2) by simp
  show "i < 4 \<Longrightarrow> rgChecksum (LongChecksumFromPage pv cb) ! i = blk_checksum pv cb pgno i"
    using assms by (simp add: sealed_def page_checksum_spec_def)
qed

lemma xor_pair_neq: "s \<noteq> t \<Longrightarrow> a \<noteq> a XOR (s XOR t)" for a s t :: "'a::len word"
proof
  assume "s \<noteq> t" and a: "a = a XOR (s XOR t)"
  have "s XOR t = a XOR a" using xor_self_left [of a "s XOR t"] a by simp
  then have "t = s" using xor_self_left [of s t] by simp
  then show False using \<open>s \<noteq> t\<close> by simp
qed

lemma detect_two_bits:
  assumes "sealed pv cb pgno" and i: "64 \<le> i" "i < 8 * cb" "i \<noteq> 301" and j: "64 \<le> j" "j < 8 * cb" "j \<noteq> 301"
    and "i \<noteq> j" and same: "blk_of cb i = blk_of cb j"
  defines "p \<equiv> FlipBit (FlipBit pv i) j"
  shows "ChecksumAndPossiblyFixPage c fFault p cb databasePage pgno fCorrectError =
    Some \<lparr>pvFixed = p, checksumExpected = LongChecksumFromPage p cb, checksumActual = page_checksum_spec p cb pgno,
          fCorrectableError = False, ibitCorrupted = - 1\<rparr>"
    and "LongChecksumFromPage p cb \<noteq> page_checksum_spec p cb pgno"
proof -
  note s = sealed_bits [OF assms(1)]
  define k where "k = blk_of cb j"
  have k: "k < nblk cb" "k < 4" "8 * blk_off cb k \<le> i" "8 * blk_off cb k \<le> j"
      "i < 8 * blk_off cb (Suc k)" "j < 8 * blk_off cb (Suc k)"
    using blk_of_range [OF s(1) i(2)] blk_of_range [OF s(1) j(2)] nblk_le_4 [OF s(1)] same by (simp_all add: k_def)
  note geo = blk_geometry [OF s(1) k(1)]
  have p: "length p = cb" "FGetBit p 301" using s i j by (simp_all add: p_def)
  have len: "64 \<le> length (FlipBit pv i)" "i < 8 * length pv" "j < 8 * length (FlipBit pv i)" using s i j by simp_all
  have stored: "rgChecksum (LongChecksumFromPage p cb) ! n = blk_checksum pv cb pgno n" if "n \<le> k" for n
  proof (cases "k = 0")
    case True
    then show ?thesis
      using that stored_FlipBit_header [OF len(1) j(1) len(3), of cb] stored_FlipBit_header [OF s(4) i(1) len(2), of cb] s(5) [of 0]
      by (simp add: p_def)
  next
    case False
    then have "512 \<le> i" "512 \<le> j" using k page_size(3) [OF s(1) k(2)] by simp_all
    then show ?thesis
      using that stored_FlipBit_same [OF len(1) j(1) len(3), of cb] stored_FlipBit_same [OF s(4) i(1) len(2), of cb] s(5) [of n] k(2)
      by (simp add: p_def)
  qed
  have actual: "blk_checksum p cb pgno n = blk_checksum pv cb pgno n XOR
      (if n = k then syndrome (blk_size cb n) (i - 8 * blk_off cb n) XOR syndrome (blk_size cb n) (j - 8 * blk_off cb n) else 0)" for n
    using blk_checksum_FlipBit [OF s(1) _ j(1,2), of "FlipBit pv i" pgno n] blk_checksum_FlipBit [OF s(1,2) i(1,2), of pgno n] s(2) same
    by (simp add: p_def k_def xor.assoc)
  have in_blk: "i - 8 * blk_off cb k < 8 * blk_size cb k" "j - 8 * blk_off cb k < 8 * blk_size cb k" using k geo(3) by auto
  have "i - 8 * blk_off cb k \<noteq> j - 8 * blk_off cb k" using assms(8) k by linarith
  then have "syndrome (blk_size cb k) (i - 8 * blk_off cb k) \<noteq> syndrome (blk_size cb k) (j - 8 * blk_off cb k)"
    using syndrome_inject [OF geo(1) in_blk] by blast
  then have "blk_checksum pv cb pgno k \<noteq> blk_checksum p cb pgno k"
    using actual [of k] xor_pair_neq by simp
  then show "ChecksumAndPossiblyFixPage c fFault p cb databasePage pgno fCorrectError =
    Some \<lparr>pvFixed = p, checksumExpected = LongChecksumFromPage p cb, checksumActual = page_checksum_spec p cb pgno,
          fCorrectableError = False, ibitCorrupted = - 1\<rparr>" "LongChecksumFromPage p cb \<noteq> page_checksum_spec p cb pgno"
    using fatal_block_result [OF s(1) p k(1), of pgno] stored actual two_syndromes_fatal [OF geo(1) in_blk, of "blk_checksum pv cb pgno k"]
    by simp_all
qed

text \<open>A flipped bit of the stored header checksum.\<close>

lemma detect_stored_bit:
  assumes "sealed pv cb pgno" and "j < 64"
  defines "p \<equiv> FlipBit pv j"
  shows "ChecksumAndPossiblyFixPage c fFault p cb databasePage pgno fCorrectError =
    Some \<lparr>pvFixed = p, checksumExpected = LongChecksumFromPage p cb, checksumActual = page_checksum_spec p cb pgno,
          fCorrectableError = False, ibitCorrupted = - 1\<rparr>"
    and "LongChecksumFromPage p cb \<noteq> page_checksum_spec p cb pgno"
proof -
  note s = sealed_bits [OF assms(1)]
  have j: "j < 8 * length pv" "j < 8 * cb" using s assms(2) by simp_all
  have p: "length p = cb" "FGetBit p 301" using s j assms(2) by (simp_all add: p_def)
  define e where "e = blk_checksum pv cb pgno 0"
  have stored: "rgChecksum (LongChecksumFromPage p cb) ! 0 = e XOR 2 ^ j"
    using s(5) [of 0] load_FlipBit [OF j(1), of 8 0, where 'a = 64] s(4) assms(2)
    by (simp add: p_def e_def LongChecksumFromPage_def PAGECHECKSUM_of_def del: subbuf_0 split: if_splits)
  have actual: "blk_checksum p cb pgno 0 = e"
    unfolding e_def using s j assms(2) p by (intro blk_checksum_cong) (auto simp: p_def)
  have "e XOR 2 ^ j \<noteq> e"
  proof
    assume "e XOR 2 ^ j = e"
    then have "(2 :: QWORD) ^ j = 0" using xor_self_left [of e "2 ^ j"] by simp
    then show False using assms(2) by (simp add: exp_eq_zero_iff)
  qed
  moreover have "\<not> FECCErrorIsCorrectable (blk_size cb 0) (e XOR 2 ^ j) e"
    using assms(2) by (intro checksum_bit_fatal blk_geometry(1) nblk_pos s(1)) auto
  ultimately show "ChecksumAndPossiblyFixPage c fFault p cb databasePage pgno fCorrectError =
    Some \<lparr>pvFixed = p, checksumExpected = LongChecksumFromPage p cb, checksumActual = page_checksum_spec p cb pgno,
          fCorrectableError = False, ibitCorrupted = - 1\<rparr>" "LongChecksumFromPage p cb \<noteq> page_checksum_spec p cb pgno"
    using fatal_block_result [OF s(1) p nblk_pos [OF s(1)], of pgno] stored actual by simp_all
qed

text \<open>Pages with a short checksum.\<close>

lemma short_checksum_roundtrip:
  assumes "pagetype \<noteq> databasePage" and "length pv = cb" and "128 dvd cb" and "0 < cb"
  shows "\<exists>pv' e. SetPageChecksum c pv cb pagetype pgno = Some pv' \<and> drop 4 pv' = drop 4 pv
    \<and> ChecksumPage c' pv' cb pagetype pgno = Some (e, e)"
proof -
  have "128 \<le> cb" using assms(3,4) by (rule dvd_imp_le)
  define pv' where "pv' = blit pv 0 (store_le 4 (ChecksumOldFormat c pv cb))"
  have len: "length pv' = length pv" "drop 4 pv' = drop 4 pv"
    using assms(2) \<open>128 \<le> cb\<close> by (simp_all add: pv'_def blit_def)
  have "ucast (ucast (ChecksumOldFormat c pv cb) :: QWORD) = ChecksumOldFormat c pv cb"
    by (rule bit_word_eqI) (auto simp: bitwise)
  then have "SetPageChecksum c pv cb pagetype pgno = Some pv'"
    using assms(1) by (simp add: SetPageChecksum_def FPageHasLongChecksum_def ComputePageChecksum_def
        SetChecksumOnPage_def PAGECHECKSUM_of_def SetShortChecksumOnPage_def pv'_def)
  moreover have "ChecksumOldFormat c' pv' cb = ChecksumOldFormat c pv cb"
    using selected.ignores_stored [OF assms(3,4) len(1,2), of c'] selected.checksum_spec [OF assms(3,4)] by simp
  moreover have "dw_at pv' 0 = ChecksumOldFormat c pv cb"
    using assms(2) \<open>128 \<le> cb\<close> by (simp add: dw_at_def pv'_def del: subbuf_0)
  ultimately show ?thesis
    using assms(1) len(2) by (simp add: ChecksumPage_def ChecksumFromPage_def FPageHasLongChecksum_def
        ShortChecksumFromPage_def ComputePageChecksum_def)
qed


section \<open>Properties\<close>

text \<open>
  C1. A database page of any supported size that has been sealed by \<open>SetPageChecksum\<close> and
  then has one bit flipped, outside the stored header checksum and the format flag, is
  restored by \<open>ChecksumAndPossiblyFixPage\<close>: the result is the sealed page, with matching
  checksums and the offset of the flipped bit. Writer and reader may use different routines.
\<close>

theorem page_single_bit_repair:
  assumes "valid_page cb" and "length pv = cb" and "64 \<le> j" and "j < 8 * cb" and "j \<noteq> 301"
  shows "\<exists>pv' X. SetPageChecksum c pv cb databasePage pgno = Some pv' \<and> X = ChecksumFromPage pv' cb databasePage
    \<and> ChecksumAndPossiblyFixPage c' fFault (FlipBit pv' j) cb databasePage pgno True
      = Some \<lparr>pvFixed = pv', checksumExpected = X, checksumActual = X, fCorrectableError = True, ibitCorrupted = int j\<rparr>"
proof -
  obtain pv' where pv': "SetPageChecksum c pv cb databasePage pgno = Some pv'" "sealed pv' cb pgno"
    using SetPageChecksum_sealed [OF assms(1,2)] by blast
  then have "page_checksum_spec pv' cb pgno = LongChecksumFromPage pv' cb" by (simp add: sealed_def)
  then show ?thesis
    using pv' repair_one_bit [OF pv'(2) assms(3-5), of c' fFault True]
    by (simp add: ChecksumFromPage_def FPageHasLongChecksum_def)
qed

theorem page_single_bit_repair_witness:
  "\<exists>pv' X. SetPageChecksum \<lparr>fSSE = True, fSSE2 = True, fPopcnt = False, fAVX = False, cbPointer = 8\<rparr>
      (replicate 16384 0) 16384 databasePage 7 = Some pv' \<and> X = ChecksumFromPage pv' 16384 databasePage
    \<and> ChecksumAndPossiblyFixPage \<lparr>fSSE = True, fSSE2 = True, fPopcnt = True, fAVX = True, cbPointer = 8\<rparr> False
        (FlipBit pv' 400) 16384 databasePage 7 True
      = Some \<lparr>pvFixed = pv', checksumExpected = X, checksumActual = X, fCorrectableError = True, ibitCorrupted = int 400\<rparr>"
  by (rule page_single_bit_repair) (simp_all add: valid_page_def)

text \<open>
  C2. Sealing a database page succeeds, keeps its length and every bit but the stored
  checksums and the format flag, and the sealed page verifies with any routine: the expected
  and the actual checksum agree.
\<close>

theorem page_seal_verifies:
  assumes "valid_page cb" and "length pv = cb"
  shows "\<exists>pv' e. SetPageChecksum c pv cb databasePage pgno = Some pv' \<and> length pv' = cb
    \<and> (\<forall>j. 64 \<le> j \<and> j < 8 * cb \<and> j \<noteq> 301 \<and> (FIsSmallPage cb \<or> j < 320 \<or> 512 \<le> j) \<longrightarrow> FGetBit pv' j = FGetBit pv j)
    \<and> ChecksumPage c' pv' cb databasePage pgno = Some (e, e)"
proof -
  obtain pv' where pv': "SetPageChecksum c pv cb databasePage pgno = Some pv'" "sealed pv' cb pgno"
    "\<forall>j. 64 \<le> j \<and> j < 8 * cb \<and> j \<noteq> 301 \<and> (FIsSmallPage cb \<or> j < 320 \<or> 512 \<le> j) \<longrightarrow> FGetBit pv' j = FGetBit pv j"
    using SetPageChecksum_sealed [OF assms] by blast
  then have "ChecksumPage c' pv' cb databasePage pgno = Some (LongChecksumFromPage pv' cb, LongChecksumFromPage pv' cb)"
    by (simp add: ChecksumPage_def sealed_compute ChecksumFromPage_def FPageHasLongChecksum_def)
  then show ?thesis using pv' by (auto simp: sealed_def)
qed

theorem page_seal_verifies_witness:
  "\<exists>pv' e. SetPageChecksum \<lparr>fSSE = False, fSSE2 = False, fPopcnt = False, fAVX = False, cbPointer = 8\<rparr>
      (replicate 32768 1) 32768 databasePage 9 = Some pv' \<and> length pv' = 32768
    \<and> (\<forall>j. 64 \<le> j \<and> j < 8 * 32768 \<and> j \<noteq> 301 \<and> (FIsSmallPage 32768 \<or> j < 320 \<or> 512 \<le> j)
        \<longrightarrow> FGetBit pv' j = FGetBit (replicate 32768 1) j)
    \<and> ChecksumPage \<lparr>fSSE = True, fSSE2 = True, fPopcnt = True, fAVX = True, cbPointer = 8\<rparr> pv' 32768 databasePage 9 = Some (e, e)"
  by (rule page_seal_verifies) (simp_all add: valid_page_def)

text \<open>
  C3. Two flipped bits of one block of a sealed database page, both outside the stored header
  checksum and the format flag, are detected and not mistaken for one: the page is returned
  unchanged, the checksums differ and the error is reported as not correctable.
\<close>

theorem page_double_bit_detected:
  assumes "valid_page cb" and "length pv = cb" and "64 \<le> i" and "i < 8 * cb" and "i \<noteq> 301"
    and "64 \<le> j" and "j < 8 * cb" and "j \<noteq> 301" and "i \<noteq> j"
    and "i div (8 * CbBlockSize cb) = j div (8 * CbBlockSize cb)"
  shows "\<exists>pv' p X A. SetPageChecksum c pv cb databasePage pgno = Some pv' \<and> p = FlipBit (FlipBit pv' i) j \<and> X \<noteq> A
    \<and> ChecksumAndPossiblyFixPage c' fFault p cb databasePage pgno fCorrectError
      = Some \<lparr>pvFixed = p, checksumExpected = X, checksumActual = A, fCorrectableError = False, ibitCorrupted = - 1\<rparr>"
proof -
  obtain pv' where pv': "SetPageChecksum c pv cb databasePage pgno = Some pv'" "sealed pv' cb pgno"
    using SetPageChecksum_sealed [OF assms(1,2)] by blast
  show ?thesis
    using pv'(1) detect_two_bits [OF pv'(2) assms(3-9) assms(10) [folded blk_of_def]] by blast
qed

theorem page_double_bit_detected_witness:
  "\<exists>pv' p X A. SetPageChecksum \<lparr>fSSE = True, fSSE2 = True, fPopcnt = False, fAVX = False, cbPointer = 8\<rparr>
      (replicate 8192 0) 8192 databasePage 3 = Some pv' \<and> p = FlipBit (FlipBit pv' 100) 60000 \<and> X \<noteq> A
    \<and> ChecksumAndPossiblyFixPage \<lparr>fSSE = False, fSSE2 = False, fPopcnt = False, fAVX = False, cbPointer = 4\<rparr> True p 8192 databasePage 3 True
      = Some \<lparr>pvFixed = p, checksumExpected = X, checksumActual = A, fCorrectableError = False, ibitCorrupted = - 1\<rparr>"
  by (rule page_double_bit_detected) (simp_all add: valid_page_def valid_block_def CbBlockSize_def FIsSmallPage_def)

text \<open>
  C4. A flipped bit of the header checksum stored on a sealed database page is detected; it is
  reported as not correctable and the page is left as it is.
\<close>

theorem page_stored_checksum_bit_detected:
  assumes "valid_page cb" and "length pv = cb" and "j < 64"
  shows "\<exists>pv' p X A. SetPageChecksum c pv cb databasePage pgno = Some pv' \<and> p = FlipBit pv' j \<and> X \<noteq> A
    \<and> ChecksumAndPossiblyFixPage c' fFault p cb databasePage pgno fCorrectError
      = Some \<lparr>pvFixed = p, checksumExpected = X, checksumActual = A, fCorrectableError = False, ibitCorrupted = - 1\<rparr>"
proof -
  obtain pv' where pv': "SetPageChecksum c pv cb databasePage pgno = Some pv'" "sealed pv' cb pgno"
    using SetPageChecksum_sealed [OF assms(1,2)] by blast
  show ?thesis using pv'(1) detect_stored_bit [OF pv'(2) assms(3)] by blast
qed

theorem page_stored_checksum_bit_detected_witness:
  "\<exists>pv' p X A. SetPageChecksum \<lparr>fSSE = True, fSSE2 = True, fPopcnt = False, fAVX = False, cbPointer = 8\<rparr>
      (replicate 4096 5) 4096 databasePage 12 = Some pv' \<and> p = FlipBit pv' 63 \<and> X \<noteq> A
    \<and> ChecksumAndPossiblyFixPage \<lparr>fSSE = True, fSSE2 = True, fPopcnt = False, fAVX = False, cbPointer = 8\<rparr> False p 4096 databasePage 12 True
      = Some \<lparr>pvFixed = p, checksumExpected = X, checksumActual = A, fCorrectableError = False, ibitCorrupted = - 1\<rparr>"
  by (rule page_stored_checksum_bit_detected) (simp_all add: valid_page_def valid_block_def)

text \<open>
  C5. The new-format checksum does not depend on the processor: for every block size, the
  routine that \<open>ChecksumSelectNewFormat\<close> picks returns the exclusive or of the double bit
  numbers of the set bits in its high half, and the exclusive or of the words and the page
  number in its low half.
\<close>

theorem new_checksum_any_processor:
  assumes "valid_block cb" and "cb \<le> length pb"
  shows "ChecksumNewFormat c pb cb pgno fHeaderBlock = new_checksum_spec pb cb pgno fHeaderBlock"
  using assms by (rule new_selected.checksum_spec)

theorem new_checksum_any_processor_witness:
  "ChecksumNewFormat \<lparr>fSSE = True, fSSE2 = True, fPopcnt = True, fAVX = True, cbPointer = 8\<rparr> (replicate 4096 3) 4096 5 True
    = new_checksum_spec (replicate 4096 3) 4096 5 True"
  by (rule new_checksum_any_processor) (simp_all add: valid_block_def)

text \<open>
  C6. The old-format checksum does not depend on the processor either: every routine that can
  be selected returns \<open>0x89abcdef\<close> combined with the exclusive or of all words but the first.
\<close>

theorem old_checksum_any_processor:
  assumes "128 dvd cb" and "0 < cb"
  shows "ChecksumOldFormat c pb cb = old_checksum_spec pb cb"
  using assms by (rule selected.checksum_spec)

theorem old_checksum_any_processor_witness:
  "ChecksumOldFormat \<lparr>fSSE = True, fSSE2 = True, fPopcnt = True, fAVX = True, cbPointer = 8\<rparr> (replicate 4096 3) 4096
    = old_checksum_spec (replicate 4096 3) 4096"
  by (rule old_checksum_any_processor) simp_all

text \<open>
  C7. A database, log file or flush map header sealed by \<open>SetPageChecksum\<close> verifies, and only
  its first four bytes have changed.
\<close>

theorem header_seal_verifies:
  assumes "pagetype \<noteq> databasePage" and "length pv = cb" and "128 dvd cb" and "0 < cb"
  shows "\<exists>pv' e. SetPageChecksum c pv cb pagetype pgno = Some pv' \<and> drop 4 pv' = drop 4 pv
    \<and> ChecksumPage c' pv' cb pagetype pgno = Some (e, e)"
  using assms by (rule short_checksum_roundtrip)

theorem header_seal_verifies_witness:
  "\<exists>pv' e. SetPageChecksum \<lparr>fSSE = True, fSSE2 = True, fPopcnt = True, fAVX = True, cbPointer = 8\<rparr> (replicate 4096 1) 4096
      databaseHeader 0 = Some pv' \<and> drop 4 pv' = drop 4 (replicate 4096 1)
    \<and> ChecksumPage \<lparr>fSSE = False, fSSE2 = False, fPopcnt = False, fAVX = False, cbPointer = 4\<rparr> pv' 4096 databaseHeader 0 = Some (e, e)"
  by (rule header_seal_verifies) simp_all


end
