(* ===== verification/Cpage.thy ===== *)
theory Cpage
  imports Ese_Prelude
begin

unbundle bit_operations_syntax

text \<open>
  The slotted page, \<open>ese/cpage.cxx\<close> and the inline part of \<open>inc/cpage.hxx\<close>. A page is its
  header, the bytes behind the header up to the end of the buffer, and the members of the
  \<open>CPAGE\<close> object the operations use. Lines grow up from the start of the bytes; the tag array
  grows down from their end, with tag 0 in the last four bytes. A tag is addressed by its
  index. Header counters and offsets are natural numbers, and every store to one is cut to 16
  bits with \<open>ushort\<close>. An \<open>Enforce\<close> that fails, and a corruption report with \<open>OnErrorEnforce\<close>,
  is the result None. The last three fields of the header are those of \<open>PGHDR2\<close>; a small page
  does not use them. Data handed in is given by value: it does not point into the page.
\<close>

section \<open>Data\<close>

record TAG =
  tag_cb :: USHORT
  tag_ib :: USHORT

record PGHDR =
  hdr_checksum :: QWORD
  dbtimeDirtied :: QWORD
  pgnoPrev :: ULONG
  pgnoNext :: ULONG
  objidFDP :: ULONG
  cbFree :: nat
  cbUncommittedFree :: nat
  ibMicFree :: nat
  itagState :: nat
  hdr_fFlags :: ULONG
  rgChecksum :: "QWORD list"
  hdr_pgno :: ULONG
  rgbReserved :: "BYTE list"

record CPAGE =
  pghdr :: PGHDR
  rgb :: "BYTE list"
  m_cbPage :: nat
  m_fSmallFormat :: bool
  m_itagMicFree :: nat
  m_ctagReserved :: nat
  m_fRuntimeScrubbingEnabled :: bool
  m_fResvTagFormatEnabled :: bool

record LINE =
  pvLine :: "nat option"
  cbLine :: nat
  fLineFlags :: USHORT

definition ushort :: "int \<Rightarrow> nat" where
  "ushort i = nat (i mod 65536)"

definition sizeof_TAG :: nat where
  "sizeof_TAG = 4"

definition upd_hdr :: "(PGHDR \<Rightarrow> PGHDR) \<Rightarrow> CPAGE \<Rightarrow> CPAGE" where
  "upd_hdr g p = p\<lparr>pghdr := g (pghdr p)\<rparr>"

definition set_cbFree :: "int \<Rightarrow> CPAGE \<Rightarrow> CPAGE" where
  "set_cbFree i = upd_hdr (\<lambda>h. h\<lparr>cbFree := ushort i\<rparr>)"

definition set_ibMicFree :: "int \<Rightarrow> CPAGE \<Rightarrow> CPAGE" where
  "set_ibMicFree i = upd_hdr (\<lambda>h. h\<lparr>ibMicFree := ushort i\<rparr>)"

text \<open>\<open>memset\<close> and \<open>memmove\<close> on the bytes behind the header.\<close>

definition set_bytes :: "CPAGE \<Rightarrow> nat \<Rightarrow> BYTE list \<Rightarrow> CPAGE" where
  "set_bytes p ib bs = p\<lparr>rgb := blit (rgb p) ib bs\<rparr>"

section \<open>Tags\<close>

text \<open>\<open>PtagFromItag_\<close>, as an offset behind the header.\<close>

definition PtagFromItag :: "CPAGE \<Rightarrow> nat \<Rightarrow> nat" where
  "PtagFromItag p itag = length (rgb p) - sizeof_TAG * (itag + 1)"

definition get_tag :: "CPAGE \<Rightarrow> nat \<Rightarrow> TAG" where
  "get_tag p itag = (let ptag = PtagFromItag p itag
     in \<lparr>tag_cb = load_le (subbuf ptag 2 (rgb p)), tag_ib = load_le (subbuf (ptag + 2) 2 (rgb p))\<rparr>)"

definition put_tag :: "CPAGE \<Rightarrow> nat \<Rightarrow> TAG \<Rightarrow> CPAGE" where
  "put_tag p itag t = (let ptag = PtagFromItag p itag
     in set_bytes (set_bytes p ptag (store_le 2 (tag_cb t))) (ptag + 2) (store_le 2 (tag_ib t)))"

definition mskTagFlags :: USHORT where
  "mskTagFlags = 0xe000"

definition mskTagIbCb :: "bool \<Rightarrow> USHORT" where
  "mskTagIbCb fSmallFormat = (if fSmallFormat then 0x1fff else 0x7fff)"

definition Cb :: "CPAGE \<Rightarrow> nat \<Rightarrow> nat" where
  "Cb p itag = unat (tag_cb (get_tag p itag) AND mskTagIbCb (m_fSmallFormat p))"

definition Ib :: "CPAGE \<Rightarrow> nat \<Rightarrow> nat" where
  "Ib p itag = unat (tag_ib (get_tag p itag) AND mskTagIbCb (m_fSmallFormat p))"

definition FFlags :: "CPAGE \<Rightarrow> nat \<Rightarrow> USHORT" where
  "FFlags p itag =
     (if m_fSmallFormat p then drop_bit 13 (tag_ib (get_tag p itag) AND mskTagFlags)
      else if 2 \<le> Cb p itag then
        let us = load_le (subbuf (Ib p itag) 2 (rgb p)) in drop_bit 13 (us AND mskTagFlags)
      else 0)"

definition SetIb :: "CPAGE \<Rightarrow> nat \<Rightarrow> nat \<Rightarrow> CPAGE" where
  "SetIb p itag ib =
     (let t = get_tag p itag; msk = mskTagIbCb (m_fSmallFormat p)
      in put_tag p itag (t\<lparr>tag_ib := (tag_ib t AND NOT msk) OR word_of_nat ib\<rparr>))"

definition SetCb :: "CPAGE \<Rightarrow> nat \<Rightarrow> nat \<Rightarrow> CPAGE" where
  "SetCb p itag cb =
     (let t = get_tag p itag; msk = mskTagIbCb (m_fSmallFormat p)
      in put_tag p itag (t\<lparr>tag_cb := (tag_cb t AND NOT msk) OR word_of_nat cb\<rparr>))"

definition SetFlags :: "CPAGE \<Rightarrow> nat \<Rightarrow> USHORT \<Rightarrow> CPAGE" where
  "SetFlags p itag fFlags =
     (if m_fSmallFormat p then
        let t = get_tag p itag
        in put_tag p itag (t\<lparr>tag_ib := (tag_ib t AND NOT mskTagFlags) OR push_bit 13 fFlags\<rparr>)
      else
        let fTag0 = (itag = 0)
        in if \<not> fTag0 \<and> 2 \<le> Cb p itag then
             let us = load_le (subbuf (Ib p itag) 2 (rgb p))
             in set_bytes p (Ib p itag) (store_le 2 ((us AND NOT mskTagFlags) OR push_bit 13 fFlags))
           else p)"

section \<open>Sizes\<close>

definition CbPageHeader :: "CPAGE \<Rightarrow> nat" where
  "CbPageHeader p = (if m_fSmallFormat p then 40 else 80)"

definition CbBuffer :: "CPAGE \<Rightarrow> nat" where
  "CbBuffer p = CbPageHeader p + length (rgb p)"

definition CbAdjustForPage :: "CPAGE \<Rightarrow> nat" where
  "CbAdjustForPage p = ushort (int (m_cbPage p) - int (CbBuffer p))"

definition CbBufferData :: "CPAGE \<Rightarrow> int" where
  "CbBufferData p = int (CbBuffer p) - int (CbPageHeader p)"

definition CbPageData :: "CPAGE \<Rightarrow> int" where
  "CbPageData p = CbBufferData p + int (CbAdjustForPage p)"

definition CbTagArray :: "CPAGE \<Rightarrow> nat" where
  "CbTagArray p = m_itagMicFree p * sizeof_TAG"

definition CbContiguousBufferFree :: "CPAGE \<Rightarrow> int" where
  "CbContiguousBufferFree p =
     (let cb = CbBufferData p - int (ibMicFree (pghdr p)) in cb - int (CbTagArray p))"

definition CbContiguousFree :: "CPAGE \<Rightarrow> int" where
  "CbContiguousFree p = CbContiguousBufferFree p + int (CbAdjustForPage p)"

definition CbFree :: "CPAGE \<Rightarrow> nat" where
  "CbFree p = cbFree (pghdr p)"

definition CbPageFree :: "CPAGE \<Rightarrow> nat" where
  "CbPageFree p = ushort (int (cbFree (pghdr p)) + int (CbAdjustForPage p))"

definition CbDataTotal :: "BYTE list list \<Rightarrow> nat" where
  "CbDataTotal rgdata = fold (\<lambda>d cbTotal. cbTotal + length d) rgdata 0"

definition Clines :: "CPAGE \<Rightarrow> int" where
  "Clines p = int (m_itagMicFree p) - int (m_ctagReserved p)"

section \<open>The tag counters\<close>

definition SetITagState :: "CPAGE \<Rightarrow> nat \<Rightarrow> nat \<Rightarrow> CPAGE" where
  "SetITagState p itagMicFree ctagReserved =
     (let p = p\<lparr>m_itagMicFree := ushort (int itagMicFree), m_ctagReserved := ushort (int ctagReserved)\<rparr>;
          st = itagState (pghdr p)
      in if m_fResvTagFormatEnabled p \<or> (st div 2 ^ 12) mod 8 > 0
         then upd_hdr (\<lambda>h. h\<lparr>itagState := ushort (int (or (ctagReserved * 2 ^ 12) itagMicFree))\<rparr>) p
         else upd_hdr (\<lambda>h. h\<lparr>itagState := ushort (int itagMicFree)\<rparr>) p)"

definition SetITagMicFree :: "CPAGE \<Rightarrow> nat \<Rightarrow> CPAGE" where
  "SetITagMicFree p itagMicFree = SetITagState p itagMicFree (m_ctagReserved p)"

definition SetCTagReserved :: "CPAGE \<Rightarrow> nat \<Rightarrow> CPAGE" where
  "SetCTagReserved p ctagReserved = SetITagState p (m_itagMicFree p) ctagReserved"

definition InitItagState :: "CPAGE \<Rightarrow> CPAGE" where
  "InitItagState p =
     (let st = itagState (pghdr p); ctagReserved = (st div 2 ^ 12) mod 8
      in p\<lparr>m_itagMicFree := st mod 2 ^ 12, m_ctagReserved := max 1 ctagReserved\<rparr>)"

section \<open>Reorganisation\<close>

text \<open>
  The loop of \<open>ReorganizeData_\<close> over the sorted tags. Tags with equal offsets are ordered by
  index; \<open>std::sort\<close> leaves their order open, which only concerns tags of no length.
\<close>

fun move_lines :: "nat list \<Rightarrow> CPAGE \<Rightarrow> nat \<Rightarrow> (CPAGE \<times> nat) option" where
  "move_lines [] p ibDest = Some (p, ibDest)"
| "move_lines (itag # rgitag) p ibDest =
     (if Cb p itag \<noteq> 0 \<and> Ib p itag < ibDest then None
      else
        let p = (if Cb p itag \<noteq> 0 then set_bytes p ibDest (subbuf (Ib p itag) (Cb p itag) (rgb p)) else p);
            p = SetIb p itag ibDest
        in move_lines rgitag p (ushort (int ibDest + int (Cb p itag))))"

definition ReorganizeData :: "CPAGE \<Rightarrow> CPAGE option" where
  "ReorganizeData p =
     (let rgptag = sort_key (Ib p) [0..<m_itagMicFree p]
      in case move_lines rgptag p 0 of
           None \<Rightarrow> None
         | Some (p, ibDest) \<Rightarrow>
             let p = set_ibMicFree (int ibDest) p
             in Some (if m_fRuntimeScrubbingEnabled p
                      then set_bytes p (ibMicFree (pghdr p)) (replicate (nat (CbContiguousBufferFree p)) (of_char CHR ''O''))
                      else p))"

definition FreeSpace :: "CPAGE \<Rightarrow> int \<Rightarrow> CPAGE option" where
  "FreeSpace p cb =
     (case (if CbContiguousFree p < cb then ReorganizeData p else Some p) of
        None \<Rightarrow> None
      | Some p \<Rightarrow> if CbContiguousFree p \<ge> cb then Some p else None)"

section \<open>Lines\<close>

definition copy_pieces :: "CPAGE \<Rightarrow> nat \<Rightarrow> BYTE list list \<Rightarrow> CPAGE" where
  "copy_pieces p pb rgdata = fst (fold (\<lambda>d (p, pb). (set_bytes p pb d, pb + length d)) rgdata (p, pb))"

definition CopyData :: "CPAGE \<Rightarrow> nat \<Rightarrow> BYTE list list \<Rightarrow> CPAGE" where
  "CopyData p itag rgdata =
     (let usFlags = FFlags p itag;
          p = copy_pieces p (Ib p itag) rgdata
      in if itag \<noteq> 0 then SetFlags p itag usFlags else p)"

text \<open>
  \<open>ExpandTagArray_\<close> moves the tags from \<open>itag\<close> on down by one, 4 bytes at a time, from low
  addresses to high ones. The loop is unrolled eight times and entered in the middle.
\<close>

definition move_dword :: "CPAGE \<Rightarrow> nat \<Rightarrow> CPAGE" where
  "move_dword p pdw = set_bytes p pdw (subbuf (pdw + 4) 4 (rgb p))"

fun move_dwords :: "nat \<Rightarrow> CPAGE \<Rightarrow> nat \<Rightarrow> CPAGE \<times> nat" where
  "move_dwords 0 p pdw = (p, pdw)"
| "move_dwords (Suc n) p pdw = move_dwords n (move_dword p pdw) (pdw + 4)"

function duff_rounds :: "CPAGE \<Rightarrow> nat \<Rightarrow> nat \<Rightarrow> CPAGE" where
  "duff_rounds p pdw pdwLast =
     (if pdw < pdwLast then (case move_dwords 8 p pdw of (p', pdw') \<Rightarrow> duff_rounds p' (pdw + 32) pdwLast) else p)"
  by pat_completeness auto
termination
  by (relation "measure (\<lambda>(p, pdw, pdwLast). pdwLast - pdw)") auto

definition ExpandTagArray :: "CPAGE \<Rightarrow> nat \<Rightarrow> CPAGE" where
  "ExpandTagArray p itag =
     (let p' = (if itag \<noteq> m_itagMicFree p then
                  let pdw = PtagFromItag p (m_itagMicFree p);
                      cTagsToMove = m_itagMicFree p - itag;
                      pdwLast = pdw + 4 * cTagsToMove;
                      first = (if cTagsToMove mod 8 = 0 then 8 else cTagsToMove mod 8)
                  in case move_dwords first p pdw of (p', pdw') \<Rightarrow> duff_rounds p' pdw' pdwLast
                else p)
      in SetITagMicFree p' (m_itagMicFree p' + 1))"

definition InsertTag :: "CPAGE \<Rightarrow> nat \<Rightarrow> BYTE list list \<Rightarrow> USHORT \<Rightarrow> CPAGE option" where
  "InsertTag p itag rgdata fFlags =
     (let cbTotal = ushort (int (CbDataTotal rgdata))
      in case FreeSpace p (int (cbTotal + sizeof_TAG)) of
           None \<Rightarrow> None
         | Some p \<Rightarrow>
             let p = ExpandTagArray p itag;
                 p = SetCb p itag 0;
                 p = SetIb p itag 0;
                 p = SetFlags p itag 0;
                 p = SetIb p itag (ibMicFree (pghdr p));
                 p = set_ibMicFree (int (ibMicFree (pghdr p)) + int cbTotal) p;
                 p = SetCb p itag cbTotal;
                 p = set_cbFree (int (cbFree (pghdr p)) - int (cbTotal + sizeof_TAG)) p;
                 p = SetFlags p itag fFlags
             in Some (CopyData p itag rgdata))"

text \<open>\<open>copy_backward\<close> over the tags behind \<open>itag\<close>, from high addresses to low ones.\<close>

definition copy_tags_back :: "CPAGE \<Rightarrow> nat \<Rightarrow> CPAGE" where
  "copy_tags_back p itag = fold (\<lambda>i p. put_tag p i (get_tag p (i + 1))) [itag..<m_itagMicFree p] p"

definition DeleteTag :: "CPAGE \<Rightarrow> nat \<Rightarrow> CPAGE" where
  "DeleteTag p itag =
     (let cb = Cb p itag; ib = Ib p itag;
          p = (if m_fRuntimeScrubbingEnabled p then set_bytes p ib (replicate cb (of_char CHR ''D'')) else p);
          p = (if cb + ib = ibMicFree (pghdr p) then set_ibMicFree (int (ibMicFree (pghdr p)) - int cb) p else p);
          p = set_cbFree (int (cbFree (pghdr p)) + int cb + int sizeof_TAG) p;
          p = SetITagMicFree p (m_itagMicFree p - 1);
          p = copy_tags_back p itag
      in if cbFree (pghdr p) + sizeof_TAG + CbPageHeader p = CbBuffer p then set_ibMicFree 0 p else p)"

definition ReplaceTag :: "CPAGE \<Rightarrow> nat \<Rightarrow> BYTE list list \<Rightarrow> USHORT \<Rightarrow> CPAGE option" where
  "ReplaceTag p itag rgdata fFlags =
     (let cbTotal = ushort (int (CbDataTotal rgdata));
          cbDiff = sint (word_of_int (int (Cb p itag) - int cbTotal) :: USHORT);
          moved =
            (if cbDiff \<ge> 0 \<or> Ib p itag + Cb p itag = ibMicFree (pghdr p) \<and> CbContiguousFree p \<ge> - cbDiff then
               let p = (if Ib p itag + Cb p itag = ibMicFree (pghdr p)
                        then set_ibMicFree (int (ibMicFree (pghdr p)) - cbDiff) p else p)
               in Some (set_cbFree (int (cbFree (pghdr p)) + cbDiff) p)
             else
               let p = (if m_fRuntimeScrubbingEnabled p
                        then set_bytes p (Ib p itag) (replicate (Cb p itag) (of_char CHR ''R'')) else p);
                   p = set_cbFree (int (cbFree (pghdr p)) + int (Cb p itag)) p;
                   p = SetIb p itag 0;
                   p = SetCb p itag 0;
                   p = SetFlags p itag 0
               in case FreeSpace p (int cbTotal) of
                    None \<Rightarrow> None
                  | Some p \<Rightarrow>
                      let p = SetIb p itag (ibMicFree (pghdr p));
                          p = set_ibMicFree (int (ibMicFree (pghdr p)) + int cbTotal) p
                      in Some (set_cbFree (int (cbFree (pghdr p)) - int cbTotal) p))
      in case moved of
           None \<Rightarrow> None
         | Some p \<Rightarrow>
             let p = SetCb p itag cbTotal;
                 p = SetFlags p itag fFlags;
                 p = CopyData p itag rgdata
             in Some (if cbDiff > 0 \<and> m_fRuntimeScrubbingEnabled p
                      then set_bytes p (Ib p itag + Cb p itag) (replicate (nat cbDiff) (of_char CHR ''R'')) else p))"

definition ReplaceTagFlags :: "CPAGE \<Rightarrow> nat \<Rightarrow> USHORT \<Rightarrow> CPAGE" where
  "ReplaceTagFlags p itag fFlags = SetFlags p itag fFlags"

section \<open>Reading a line\<close>

datatype PageNodeBoundsChecking = pgnbcNoChecks | pgnbcChecked

datatype JET_ERR = JET_errSuccess | JET_errPageTagCorrupted | JET_errNodeCorrupted | JET_errBadEmptyPage
  | JET_errBadLineCount | JET_errDatabaseCorrupted | JET_errInvalidBufferSize | errPMOutOfPageSpace
  | JET_errLogOperationInconsistentWithDatabase | JET_errLogWriteFail | wrnNDFoundGreater | wrnNDFoundLess

text \<open>
  Addresses are taken relative to the start of the data; None stands for the pointers
  \<open>nullptr\<close> and \<open>-29\<close> that do not point to a line.
\<close>

definition GetPtr :: "PageNodeBoundsChecking \<Rightarrow> CPAGE \<Rightarrow> nat \<Rightarrow> LINE \<times> JET_ERR" where
  "GetPtr pgnbc p itag =
     (let ptag = int (length (rgb p)) - int (sizeof_TAG * (itag + 1));
          pbPageBufferEnd = int (length (rgb p));
          pbPageDataEnd = int (length (rgb p)) - int (CbTagArray p) - 1
      in if pgnbc = pgnbcChecked \<and> (ptag < 0 \<or> ptag + int sizeof_TAG - 1 > pbPageBufferEnd) then
           (\<lparr>pvLine = None, cbLine = 0, fLineFlags = 0\<rparr>, JET_errPageTagCorrupted)
         else if Cb p itag = 0 then
           (\<lparr>pvLine = None, cbLine = 0, fLineFlags = FFlags p itag\<rparr>,
            if pgnbc = pgnbcChecked \<and> itag \<ge> m_ctagReserved p then JET_errPageTagCorrupted else JET_errSuccess)
         else
           let pbLine = int (Ib p itag);
               pbLineLastByte = pbLine + int (Cb p itag) - 1
           in if pgnbc = pgnbcChecked
                 \<and> (pbLineLastByte > pbPageDataEnd \<or> pbLine < 0 \<or> pbLine \<ge> pbPageDataEnd \<or> pbLineLastByte < 0) then
                let fFlagsOnPage = m_fSmallFormat p \<or> pbLine + 1 < pbPageDataEnd
                in (\<lparr>pvLine = Some (Ib p itag), cbLine = Cb p itag, fLineFlags = (if fFlagsOnPage then FFlags p itag else 0)\<rparr>,
                    JET_errPageTagCorrupted)
              else (\<lparr>pvLine = Some (Ib p itag), cbLine = Cb p itag, fLineFlags = FFlags p itag\<rparr>, JET_errSuccess))"

section \<open>Public operations\<close>

definition Insert :: "CPAGE \<Rightarrow> nat \<Rightarrow> BYTE list list \<Rightarrow> USHORT \<Rightarrow> CPAGE option" where
  "Insert p iline rgdata fFlags = InsertTag p (iline + m_ctagReserved p) rgdata fFlags"

definition Replace :: "CPAGE \<Rightarrow> nat \<Rightarrow> BYTE list list \<Rightarrow> USHORT \<Rightarrow> CPAGE option" where
  "Replace p iline rgdata fFlags = ReplaceTag p (iline + m_ctagReserved p) rgdata fFlags"

definition ReplaceFlags :: "CPAGE \<Rightarrow> nat \<Rightarrow> USHORT \<Rightarrow> CPAGE" where
  "ReplaceFlags p iline fFlags = ReplaceTagFlags p (iline + m_ctagReserved p) fFlags"

definition Delete :: "CPAGE \<Rightarrow> nat \<Rightarrow> CPAGE" where
  "Delete p iline = DeleteTag p (iline + m_ctagReserved p)"

definition SetExternalHeader :: "CPAGE \<Rightarrow> BYTE list list \<Rightarrow> USHORT \<Rightarrow> CPAGE option" where
  "SetExternalHeader p rgdata fFlags = ReplaceTag p 0 rgdata fFlags"

definition ReplaceReservedTag :: "CPAGE \<Rightarrow> nat \<Rightarrow> BYTE list list \<Rightarrow> CPAGE option" where
  "ReplaceReservedTag p itag rgdata = ReplaceTag p itag rgdata 0"

text \<open>The result of \<open>IAddReservedTag\<close> is the page and the new tag, or -1.\<close>

definition IAddReservedTag :: "CPAGE \<Rightarrow> nat \<Rightarrow> BYTE \<Rightarrow> (CPAGE \<times> int) option" where
  "IAddReservedTag p cb fill =
     (let itag = m_ctagReserved p
      in if m_fResvTagFormatEnabled p \<and> itag < 7 then
           (case FreeSpace p (int cb) of
              None \<Rightarrow> None
            | Some p \<Rightarrow>
                let p = ExpandTagArray p itag;
                    p = SetCTagReserved p (itag + 1);
                    p = SetCb p itag 0;
                    p = SetIb p itag 0;
                    p = SetFlags p itag 0;
                    p = SetIb p itag (ibMicFree (pghdr p));
                    p = set_ibMicFree (int (ibMicFree (pghdr p)) + int cb) p;
                    p = SetCb p itag (ushort (int cb));
                    p = set_cbFree (int (cbFree (pghdr p)) - int cb - int sizeof_TAG) p
                in Some (set_bytes p (Ib p itag) (replicate (Cb p itag) fill), int itag))
         else Some (p, - 1))"

section \<open>New pages\<close>

definition fPageEmpty :: ULONG where "fPageEmpty = 0x0008"
definition fPageRepair :: ULONG where "fPageRepair = 0x0010"
definition fPageSpaceTree :: ULONG where "fPageSpaceTree = 0x0020"
definition fPageIndex :: ULONG where "fPageIndex = 0x0040"
definition fPageLongValue :: ULONG where "fPageLongValue = 0x0080"
definition fPageNewRecordFormat :: ULONG where "fPageNewRecordFormat = 0x0800"
definition fPageLeaf :: ULONG where "fPageLeaf = 0x0002"
definition fPageNewChecksumFormat :: ULONG where "fPageNewChecksumFormat = 0x2000"
definition fPageScrubbed :: ULONG where "fPageScrubbed = 0x4000"
definition maskFlushType :: ULONG where "maskFlushType = 0x18000"
definition fPagePreInit :: ULONG where "fPagePreInit = 0x20000"

definition SetPageFlags :: "CPAGE \<Rightarrow> ULONG \<Rightarrow> CPAGE" where
  "SetPageFlags p fFlags = upd_hdr (\<lambda>h. h\<lparr>hdr_fFlags := fFlags\<rparr>) p"

definition SetFNewRecordFormat :: "CPAGE \<Rightarrow> CPAGE" where
  "SetFNewRecordFormat p = SetPageFlags p (hdr_fFlags (pghdr p) OR fPageNewRecordFormat)"

definition SetFEmpty :: "CPAGE \<Rightarrow> CPAGE" where
  "SetFEmpty p = SetPageFlags p (hdr_fFlags (pghdr p) OR fPageEmpty)"

definition SetFScrubbedValue :: "CPAGE \<Rightarrow> bool \<Rightarrow> CPAGE" where
  "SetFScrubbedValue p fValue =
     SetPageFlags p (if fValue then hdr_fFlags (pghdr p) OR fPageScrubbed else hdr_fFlags (pghdr p) AND NOT fPageScrubbed)"

definition PreInitializeNewPage :: "CPAGE \<Rightarrow> ULONG \<Rightarrow> ULONG \<Rightarrow> QWORD \<Rightarrow> CPAGE" where
  "PreInitializeNewPage p pgno objid dbtime =
     (let p = p\<lparr>m_itagMicFree := 0, m_ctagReserved := 0\<rparr>;
          h = \<lparr>hdr_checksum = 0, dbtimeDirtied = dbtime, pgnoPrev = 0, pgnoNext = 0, objidFDP = objid,
               cbFree = ushort (CbPageData p), cbUncommittedFree = 0, ibMicFree = 0, itagState = 0,
               hdr_fFlags = fPagePreInit, rgChecksum = [0, 0, 0], hdr_pgno = 0, rgbReserved = replicate 12 0\<rparr>;
          h = (if \<not> m_fSmallFormat p
               then h\<lparr>hdr_pgno := pgno, hdr_checksum := 0xdeadbeefbaadf00d,
                      rgChecksum := [0x6570755320455345, 0x524f584343452072, 0x6d75736b63656843]\<rparr>
               else h)
      in SetFNewRecordFormat (p\<lparr>pghdr := h, rgb := replicate (length (rgb p)) 0\<rparr>))"

definition ConsumePreInitPage :: "CPAGE \<Rightarrow> ULONG \<Rightarrow> CPAGE" where
  "ConsumePreInitPage p fPageFlags =
     (let p = SetITagState p 1 1;
          p = set_cbFree (int (cbFree (pghdr p)) - int sizeof_TAG) p;
          p = SetIb p 0 0;
          p = SetCb p 0 0;
          p = SetFlags p 0 0
      in SetPageFlags p ((fPageFlags OR fPageNewRecordFormat) AND NOT fPagePreInit))"

section \<open>Whole-page operations\<close>

definition SetCbUncommittedFree :: "CPAGE \<Rightarrow> int \<Rightarrow> CPAGE" where
  "SetCbUncommittedFree p cb = upd_hdr (\<lambda>h. h\<lparr>cbUncommittedFree := ushort cb\<rparr>) p"

definition AddUncommittedFreed :: "CPAGE \<Rightarrow> int \<Rightarrow> CPAGE" where
  "AddUncommittedFreed p cbToAdd = upd_hdr (\<lambda>h. h\<lparr>cbUncommittedFree := ushort (int (cbUncommittedFree h) + cbToAdd)\<rparr>) p"

definition ReclaimUncommittedFreed :: "CPAGE \<Rightarrow> int \<Rightarrow> CPAGE" where
  "ReclaimUncommittedFreed p cbToReclaim = upd_hdr (\<lambda>h. h\<lparr>cbUncommittedFree := ushort (int (cbUncommittedFree h) - cbToReclaim)\<rparr>) p"

definition ResetAllFlags :: "CPAGE \<Rightarrow> USHORT \<Rightarrow> CPAGE" where
  "ResetAllFlags p fFlags =
     fold (\<lambda>itag p. SetFlags p itag (FFlags p itag AND NOT fFlags)) (rev [m_ctagReserved p..<m_itagMicFree p]) p"

definition FAnyLineHasFlagSet :: "CPAGE \<Rightarrow> USHORT \<Rightarrow> bool" where
  "FAnyLineHasFlagSet p fFlags = list_ex (\<lambda>itag. FFlags p itag AND fFlags \<noteq> 0) (rev [m_ctagReserved p..<m_itagMicFree p])"

text \<open>The scan for a byte that is not zero goes in steps of 256 bytes.\<close>

function page_chunks :: "BYTE list \<Rightarrow> nat \<Rightarrow> bool" where
  "page_chunks pv i =
     (if i + 256 \<le> length pv then (if subbuf i 256 pv \<noteq> replicate 256 0 then True else page_chunks pv (i + 256))
      else if i < length pv then subbuf i (length pv - i) pv \<noteq> replicate (length pv - i) 0
      else False)"
  by pat_completeness auto
termination
  by (relation "measure (\<lambda>(pv, i). length pv - i)") auto

definition FPageIsInitialized :: "BYTE list \<Rightarrow> bool" where
  "FPageIsInitialized pv = page_chunks pv 0"

text \<open>
  The gaps between the lines, in the order of their offsets. Bytes are overwritten from the
  end of a line up to the next line; None reports lines that overlap.
\<close>

fun zero_gaps :: "BYTE \<Rightarrow> nat list \<Rightarrow> CPAGE \<Rightarrow> CPAGE option" where
  "zero_gaps ch (itag # itagNext # rgitag) p =
     (let ibStart = Ib p itag + Cb p itag; cbToZero = int (Ib p itagNext) - int ibStart
      in if cbToZero > 0 then zero_gaps ch (itagNext # rgitag) (set_bytes p ibStart (replicate (nat cbToZero) ch))
         else if cbToZero \<noteq> 0 then None
         else zero_gaps ch (itagNext # rgitag) p)"
| "zero_gaps ch _ p = Some p"

definition ZeroOutGaps :: "CPAGE \<Rightarrow> BYTE \<Rightarrow> CPAGE option" where
  "ZeroOutGaps p ch =
     (let rgptag = sort_key (Ib p) (filter (\<lambda>itag. Cb p itag > 0) [0..<m_itagMicFree p])
      in if rgptag = [] then Some (set_ibMicFree 0 p)
         else let p = set_bytes p 0 (replicate (Ib p (hd rgptag)) ch);
                  p = set_ibMicFree (int (Ib p (last rgptag)) + int (Cb p (last rgptag))) p
              in zero_gaps ch rgptag p)"

definition OverwriteUnusedSpace :: "CPAGE \<Rightarrow> BYTE \<Rightarrow> CPAGE option" where
  "OverwriteUnusedSpace p ch =
     (case (if CbContiguousFree p \<noteq> int (cbFree (pghdr p)) then ZeroOutGaps p ch else Some p) of
        None \<Rightarrow> None
      | Some p \<Rightarrow> Some (set_bytes p (ibMicFree (pghdr p)) (replicate (nat (CbContiguousFree p)) ch)))"

text \<open>\<open>ReorganizePage\<close> gives the two used parts of the page as offsets and lengths from the buffer start.\<close>

definition ReorganizePage :: "CPAGE \<Rightarrow> (CPAGE \<times> (nat \<times> nat) \<times> (nat \<times> nat)) option" where
  "ReorganizePage p =
     (case (if CbContiguousFree p \<noteq> int (cbFree (pghdr p)) then ReorganizeData p else Some p) of
        None \<Rightarrow> None
      | Some p \<Rightarrow>
          let pbFree = CbPageHeader p + ibMicFree (pghdr p);
              pbTags = CbPageHeader p + PtagFromItag p (m_itagMicFree p - 1)
          in Some (p, (0, pbFree), (pbTags, CbBuffer p - pbTags)))"

declare duff_rounds.simps [simp del] page_chunks.simps [simp del]

end
