(* ===== verification/Cpage_Tags.thy ===== *)
theory Cpage_Tags
  imports Cpage
begin

unbundle bit_operations_syntax

text \<open>
  How reads and writes of tags and lines in the page bytes interact. Tag \<open>itag\<close> occupies the
  four bytes from \<open>PtagFromItag p itag\<close> on; a write below the tag array leaves every tag, and a
  write to one tag leaves every other tag and all lines as they are.
\<close>

section \<open>Bytes and header\<close>

lemma ushort_int [simp]: "n < 65536 \<Longrightarrow> ushort (int n) = n"
  by (simp add: ushort_def)

lemma ushort_nonneg: "0 \<le> i \<Longrightarrow> i < 65536 \<Longrightarrow> ushort i = nat i"
  by (simp add: ushort_def)

lemma set_bytes_sel [simp]:
  "pghdr (set_bytes p k bs) = pghdr p" "m_cbPage (set_bytes p k bs) = m_cbPage p"
  "m_fSmallFormat (set_bytes p k bs) = m_fSmallFormat p" "m_itagMicFree (set_bytes p k bs) = m_itagMicFree p"
  "m_ctagReserved (set_bytes p k bs) = m_ctagReserved p"
  "m_fRuntimeScrubbingEnabled (set_bytes p k bs) = m_fRuntimeScrubbingEnabled p"
  "m_fResvTagFormatEnabled (set_bytes p k bs) = m_fResvTagFormatEnabled p"
  "rgb (set_bytes p k bs) = blit (rgb p) k bs"
  by (simp_all add: set_bytes_def)

lemma upd_hdr_sel [simp]:
  "pghdr (upd_hdr g p) = g (pghdr p)" "m_cbPage (upd_hdr g p) = m_cbPage p"
  "m_fSmallFormat (upd_hdr g p) = m_fSmallFormat p" "m_itagMicFree (upd_hdr g p) = m_itagMicFree p"
  "m_ctagReserved (upd_hdr g p) = m_ctagReserved p"
  "m_fRuntimeScrubbingEnabled (upd_hdr g p) = m_fRuntimeScrubbingEnabled p"
  "m_fResvTagFormatEnabled (upd_hdr g p) = m_fResvTagFormatEnabled p"
  "rgb (upd_hdr g p) = rgb p"
  by (simp_all add: upd_hdr_def)

lemma set_cbFree_sel [simp]:
  "pghdr (set_cbFree i p) = (pghdr p)\<lparr>cbFree := ushort i\<rparr>" "m_cbPage (set_cbFree i p) = m_cbPage p"
  "m_fSmallFormat (set_cbFree i p) = m_fSmallFormat p" "m_itagMicFree (set_cbFree i p) = m_itagMicFree p"
  "m_ctagReserved (set_cbFree i p) = m_ctagReserved p"
  "m_fRuntimeScrubbingEnabled (set_cbFree i p) = m_fRuntimeScrubbingEnabled p"
  "m_fResvTagFormatEnabled (set_cbFree i p) = m_fResvTagFormatEnabled p" "rgb (set_cbFree i p) = rgb p"
  by (simp_all add: set_cbFree_def)

lemma set_ibMicFree_sel [simp]:
  "pghdr (set_ibMicFree i p) = (pghdr p)\<lparr>ibMicFree := ushort i\<rparr>" "m_cbPage (set_ibMicFree i p) = m_cbPage p"
  "m_fSmallFormat (set_ibMicFree i p) = m_fSmallFormat p" "m_itagMicFree (set_ibMicFree i p) = m_itagMicFree p"
  "m_ctagReserved (set_ibMicFree i p) = m_ctagReserved p"
  "m_fRuntimeScrubbingEnabled (set_ibMicFree i p) = m_fRuntimeScrubbingEnabled p"
  "m_fResvTagFormatEnabled (set_ibMicFree i p) = m_fResvTagFormatEnabled p" "rgb (set_ibMicFree i p) = rgb p"
  by (simp_all add: set_ibMicFree_def)

text \<open>A tag is read from the bytes only.\<close>

lemma get_tag_rgb: "rgb p = rgb q \<Longrightarrow> get_tag p = get_tag q"
  by (rule ext) (simp add: get_tag_def PtagFromItag_def)

definition slot :: "CPAGE \<Rightarrow> nat \<Rightarrow> bool" where
  "slot p itag \<longleftrightarrow> 4 * (itag + 1) \<le> length (rgb p)"

lemma slot_mono: "slot p i \<Longrightarrow> j \<le> i \<Longrightarrow> slot p j"
  by (simp add: slot_def)

lemma ptag_slot: "slot p itag \<Longrightarrow> PtagFromItag p itag + 4 * (itag + 1) = length (rgb p)"
  by (simp add: slot_def PtagFromItag_def sizeof_TAG_def)

lemma get_tag_blit:
  assumes "slot p itag" and "k + length bs + 4 * (itag + 1) \<le> length (rgb p) \<or> PtagFromItag p itag + 4 \<le> k"
    and "k + length bs \<le> length (rgb p)"
  shows "get_tag (set_bytes p k bs) itag = get_tag p itag"
  using assms ptag_slot [OF assms(1)]
  by (auto simp: get_tag_def PtagFromItag_def Let_def subbuf_blit_disjoint)

lemma put_tag_sel [simp]:
  "pghdr (put_tag p i t) = pghdr p" "m_cbPage (put_tag p i t) = m_cbPage p"
  "m_fSmallFormat (put_tag p i t) = m_fSmallFormat p" "m_itagMicFree (put_tag p i t) = m_itagMicFree p"
  "m_ctagReserved (put_tag p i t) = m_ctagReserved p"
  "m_fRuntimeScrubbingEnabled (put_tag p i t) = m_fRuntimeScrubbingEnabled p"
  "m_fResvTagFormatEnabled (put_tag p i t) = m_fResvTagFormatEnabled p"
  by (simp_all add: put_tag_def Let_def)

lemma length_put_tag [simp]: "slot p i \<Longrightarrow> length (rgb (put_tag p i t)) = length (rgb p)"
  using ptag_slot [of p i] by (simp add: put_tag_def Let_def)

lemma slot_put_tag [simp]: "slot p i \<Longrightarrow> slot (put_tag p i t) j \<longleftrightarrow> slot p j"
  by (simp add: slot_def)

lemma get_put_tag:
  assumes "slot p i" and "slot p j"
  shows "get_tag (put_tag p i t) j = (if i = j then t else get_tag p j)"
proof -
  note pi = ptag_slot [OF assms(1)] and pj = ptag_slot [OF assms(2)]
  show ?thesis
  proof (cases "i = j")
    case True
    then show ?thesis
      using pi by (simp add: get_tag_def put_tag_def Let_def PtagFromItag_def subbuf_blit_disjoint)
  next
    case False
    then have "PtagFromItag p i + 4 \<le> PtagFromItag p j \<or> PtagFromItag p j + 4 \<le> PtagFromItag p i"
      using pi pj by arith
    then show ?thesis
      using False pi pj by (auto simp: get_tag_def put_tag_def Let_def PtagFromItag_def subbuf_blit_disjoint)
  qed
qed

lemma subbuf_put_tag:
  assumes "slot p i" and "k + n + 4 * (i + 1) \<le> length (rgb p)"
  shows "subbuf k n (rgb (put_tag p i t)) = subbuf k n (rgb p)"
  using assms ptag_slot [OF assms(1)] by (simp add: put_tag_def Let_def subbuf_blit_disjoint)

section \<open>Fields of a tag\<close>

definition msk :: "CPAGE \<Rightarrow> nat" where
  "msk p = (if m_fSmallFormat p then 8191 else 32767)"

lemma mskTagIbCb_mask: "mskTagIbCb f = mask (if f then 13 else 15)"
  by (simp add: mskTagIbCb_def mask_eq_exp_minus_1)

lemma mskTagFlags_bits: "bit mskTagFlags n \<longleftrightarrow> 13 \<le> n \<and> n < 16"
proof -
  have "mskTagFlags = push_bit 13 (mask 3)" by (simp add: mskTagFlags_def mask_eq_exp_minus_1)
  show ?thesis unfolding \<open>mskTagFlags = _\<close> by (auto simp: bit_push_bit_iff bit_mask_iff)
qed

lemma unat_field:
  assumes "n < 2 ^ k" and "k \<le> 16"
  shows "unat (((w AND NOT (mask k)) OR word_of_nat n) AND mask k :: USHORT) = n"
proof -
  have "((w AND NOT (mask k)) OR word_of_nat n) AND mask k = (word_of_nat n :: USHORT)"
    using bit_nat_bound [OF assms(1)] by (intro bit_word_eqI) (auto simp: bitwise bit_not_iff bit_mask_iff)
  moreover have "n < 2 ^ 16" using assms power_increasing [of k 16 "2 :: nat"] by simp
  ultimately show ?thesis by (simp add: unsigned_of_nat take_bit_nat_eq_self)
qed

lemma field_eq: "msk p < 2 ^ (if m_fSmallFormat p then 13 else 15)"
  by (simp add: msk_def)

lemma Cb_le: "Cb p i \<le> msk p" and Ib_le: "Ib p i \<le> msk p"
proof -
  have "unat (w AND mask k :: USHORT) \<le> 2 ^ k - 1" for w :: USHORT and k
  proof -
    have "unat (w AND mask k) = take_bit k (unat w)" by (simp add: unsigned_take_bit_eq flip: take_bit_eq_mask)
    moreover have "take_bit k (unat w) < 2 ^ k" by (rule take_bit_nat_less_exp)
    ultimately show ?thesis by linarith
  qed
  from this [where k = 13] this [where k = 15]
  show "Cb p i \<le> msk p" "Ib p i \<le> msk p"
    unfolding Cb_def Ib_def mskTagIbCb_mask msk_def by simp_all
qed

lemma SetIb_sel [simp]:
  "pghdr (SetIb p i ib) = pghdr p" "m_cbPage (SetIb p i ib) = m_cbPage p"
  "m_fSmallFormat (SetIb p i ib) = m_fSmallFormat p" "m_itagMicFree (SetIb p i ib) = m_itagMicFree p"
  "m_ctagReserved (SetIb p i ib) = m_ctagReserved p"
  "m_fRuntimeScrubbingEnabled (SetIb p i ib) = m_fRuntimeScrubbingEnabled p"
  "m_fResvTagFormatEnabled (SetIb p i ib) = m_fResvTagFormatEnabled p"
  by (simp_all add: SetIb_def Let_def)

lemma SetCb_sel [simp]:
  "pghdr (SetCb p i cb) = pghdr p" "m_cbPage (SetCb p i cb) = m_cbPage p"
  "m_fSmallFormat (SetCb p i cb) = m_fSmallFormat p" "m_itagMicFree (SetCb p i cb) = m_itagMicFree p"
  "m_ctagReserved (SetCb p i cb) = m_ctagReserved p"
  "m_fRuntimeScrubbingEnabled (SetCb p i cb) = m_fRuntimeScrubbingEnabled p"
  "m_fResvTagFormatEnabled (SetCb p i cb) = m_fResvTagFormatEnabled p"
  by (simp_all add: SetCb_def Let_def)

lemma SetFlags_sel [simp]:
  "pghdr (SetFlags p i f) = pghdr p" "m_cbPage (SetFlags p i f) = m_cbPage p"
  "m_fSmallFormat (SetFlags p i f) = m_fSmallFormat p" "m_itagMicFree (SetFlags p i f) = m_itagMicFree p"
  "m_ctagReserved (SetFlags p i f) = m_ctagReserved p"
  "m_fRuntimeScrubbingEnabled (SetFlags p i f) = m_fRuntimeScrubbingEnabled p"
  "m_fResvTagFormatEnabled (SetFlags p i f) = m_fResvTagFormatEnabled p"
  by (simp_all add: SetFlags_def Let_def)

lemma length_SetIb [simp]: "slot p i \<Longrightarrow> length (rgb (SetIb p i ib)) = length (rgb p)"
  by (simp add: SetIb_def Let_def)

lemma length_SetCb [simp]: "slot p i \<Longrightarrow> length (rgb (SetCb p i cb)) = length (rgb p)"
  by (simp add: SetCb_def Let_def)

lemma Cb_SetCb: "slot p i \<Longrightarrow> slot p j \<Longrightarrow> cb \<le> msk p \<Longrightarrow> Cb (SetCb p i cb) j = (if i = j then cb else Cb p j)"
  using field_eq [of p] by (auto simp: Cb_def SetCb_def Let_def get_put_tag mskTagIbCb_mask intro!: unat_field split: if_splits)

lemma Ib_SetCb: "slot p i \<Longrightarrow> slot p j \<Longrightarrow> Ib (SetCb p i cb) j = Ib p j"
  by (auto simp: Ib_def SetCb_def Let_def get_put_tag)

lemma Ib_SetIb: "slot p i \<Longrightarrow> slot p j \<Longrightarrow> ib \<le> msk p \<Longrightarrow> Ib (SetIb p i ib) j = (if i = j then ib else Ib p j)"
  using field_eq [of p] by (auto simp: Ib_def SetIb_def Let_def get_put_tag mskTagIbCb_mask intro!: unat_field split: if_splits)

lemma Cb_SetIb: "slot p i \<Longrightarrow> slot p j \<Longrightarrow> Cb (SetIb p i ib) j = Cb p j"
  by (auto simp: Cb_def SetIb_def Let_def get_put_tag)

lemma subbuf_SetIb: "slot p i \<Longrightarrow> k + n + 4 * (i + 1) \<le> length (rgb p) \<Longrightarrow> subbuf k n (rgb (SetIb p i ib)) = subbuf k n (rgb p)"
  by (simp add: SetIb_def Let_def subbuf_put_tag)

lemma subbuf_SetCb: "slot p i \<Longrightarrow> k + n + 4 * (i + 1) \<le> length (rgb p) \<Longrightarrow> subbuf k n (rgb (SetCb p i cb)) = subbuf k n (rgb p)"
  by (simp add: SetCb_def Let_def subbuf_put_tag)

text \<open>The flag bits a small page keeps in the tag.\<close>

definition tag_flags :: "CPAGE \<Rightarrow> nat \<Rightarrow> USHORT" where
  "tag_flags p i = drop_bit 13 (tag_ib (get_tag p i) AND mskTagFlags)"

lemma tag_flags_SetIb:
  "slot p i \<Longrightarrow> slot p j \<Longrightarrow> ib \<le> msk p \<Longrightarrow> m_fSmallFormat p \<Longrightarrow> tag_flags (SetIb p i ib) j = tag_flags p j"
proof -
  assume a: "slot p i" "slot p j" "ib \<le> msk p" "m_fSmallFormat p"
  have "ib < 2 ^ 13" using a by (simp add: msk_def)
  from bit_nat_bound [OF this]
  have "drop_bit 13 (((w AND NOT (mask 13)) OR word_of_nat ib) AND mskTagFlags) = drop_bit 13 (w AND mskTagFlags)" for w :: USHORT
    by (intro bit_word_eqI) (auto simp: bitwise bit_not_iff bit_mask_iff mskTagFlags_bits)
  then show ?thesis using a by (auto simp: tag_flags_def SetIb_def Let_def get_put_tag mskTagIbCb_mask)
qed

lemma tag_flags_SetCb: "slot p i \<Longrightarrow> slot p j \<Longrightarrow> tag_flags (SetCb p i cb) j = tag_flags p j"
  by (auto simp: tag_flags_def SetCb_def Let_def get_put_tag)

text \<open>The flags a large page keeps in the second byte of the line.\<close>

definition line_flags :: "BYTE list \<Rightarrow> USHORT" where
  "line_flags bs = (if 2 \<le> length bs then drop_bit 5 (ucast (bs ! 1)) else 0)"

definition line_bytes :: "CPAGE \<Rightarrow> nat \<Rightarrow> BYTE list" where
  "line_bytes p i = subbuf (Ib p i) (Cb p i) (rgb p)"

lemma bit_USHORT_byte: "m < 16 \<Longrightarrow> bit (load_le [a, b] :: USHORT) m \<longleftrightarrow> (if m < 8 then bit a m else bit b (m - 8))"
proof -
  assume "m < 16"
  moreover have "\<not> m < 8 \<Longrightarrow> m div 8 = 1 \<and> m mod 8 = m - 8" using \<open>m < 16\<close> by presburger
  ultimately show ?thesis by (cases "m < 8") (auto simp: bit_load_le)
qed

lemma FFlags_eq:
  assumes "Ib p i + Cb p i \<le> length (rgb p)"
  shows "FFlags p i = (if m_fSmallFormat p then tag_flags p i else line_flags (line_bytes p i))"
proof (cases "\<not> m_fSmallFormat p \<and> 2 \<le> Cb p i")
  case True
  then obtain a b where ab: "subbuf (Ib p i) 2 (rgb p) = [a, b]" "line_bytes p i ! 1 = b"
    using assms by (auto simp: line_bytes_def numeral_2_eq_2 subbuf_def take_Suc_conv_app_nth)
  have "drop_bit 13 (load_le [a, b] AND mskTagFlags) = (drop_bit 5 (ucast b) :: USHORT)"
  proof (rule bit_word_eqI)
    fix n
    show "bit (drop_bit 13 (load_le [a, b] AND mskTagFlags)) n = bit (drop_bit 5 (ucast b) :: USHORT) n"
      using bit_imp_le_length [of b "5 + n"]
      by (auto simp: bit_drop_bit_eq bit_and_iff bit_unsigned_iff mskTagFlags_bits bit_USHORT_byte)
  qed
  then show ?thesis using True ab assms by (simp add: FFlags_def line_flags_def line_bytes_def)
qed (use assms in \<open>auto simp: FFlags_def tag_flags_def line_flags_def line_bytes_def\<close>)

section \<open>Writing a line\<close>

text \<open>What a line holds after its flags and data have been written.\<close>

definition stamp :: "bool \<Rightarrow> nat \<Rightarrow> USHORT \<Rightarrow> BYTE list \<Rightarrow> BYTE list" where
  "stamp fSmallFormat itag f bs =
     (if fSmallFormat \<or> itag = 0 \<or> length bs < 2 then bs else bs[1 := (bs ! 1 AND 0x1f) OR push_bit 5 (ucast f)])"

lemma length_stamp [simp]: "length (stamp s i f bs) = length bs"
  by (simp add: stamp_def)

lemma copy_pieces_eq:
  "pb + length (concat rgdata) \<le> length (rgb p) \<Longrightarrow> copy_pieces p pb rgdata = set_bytes p pb (concat rgdata)"
proof (induction rgdata arbitrary: p pb)
  case Nil
  then show ?case by (simp add: copy_pieces_def set_bytes_def blit_def)
next
  case (Cons d rgdata)
  have "copy_pieces p pb (d # rgdata) = copy_pieces (set_bytes p pb d) (pb + length d) rgdata"
    by (simp add: copy_pieces_def)
  also have "\<dots> = set_bytes (set_bytes p pb d) (pb + length d) (concat rgdata)"
    using Cons by simp
  also have "\<dots> = set_bytes p pb (concat (d # rgdata))"
    using Cons.prems by (simp add: set_bytes_def blit_append)
  finally show ?case .
qed

lemma set_bytes_twice: "length xs = length ys \<Longrightarrow> k + length xs \<le> length (rgb p) \<Longrightarrow> set_bytes (set_bytes p k xs) k ys = set_bytes p k ys"
  by (simp add: set_bytes_def blit_overwrite)

lemma stamp_bytes:
  assumes "2 \<le> length bs"
  shows "blit bs 0 (store_le 2 ((load_le (subbuf 0 2 bs) AND NOT mskTagFlags) OR push_bit 13 f :: USHORT)) = bs[1 := (bs ! 1 AND 0x1f) OR push_bit 5 (ucast f)]"
    (is "blit bs 0 (store_le 2 ?w) = _")
proof -
  obtain a b cs where bs: "bs = a # b # cs" using assms by (auto simp: numeral_2_eq_2 Suc_le_length_iff)
  have w: "?w = (load_le [a, b] AND NOT mskTagFlags) OR push_bit 13 f" by (simp add: bs)
  have "ucast ?w = a"
    unfolding w by (rule bit_word_eqI) (auto simp: bit_or_iff bit_and_iff bit_not_iff bit_unsigned_iff bit_push_bit_iff mskTagFlags_bits bit_USHORT_byte)
  moreover have "ucast (drop_bit 8 ?w) = (b AND 0x1f) OR push_bit 5 (ucast f)"
  proof (rule bit_word_eqI)
    fix n assume "n < LENGTH(8)"
    moreover have m: "(0x1f :: BYTE) = mask 5" by (simp add: mask_eq_exp_minus_1)
    ultimately show "bit (ucast (drop_bit 8 ?w) :: BYTE) n = bit ((b AND 0x1f) OR push_bit 5 (ucast f)) n"
      unfolding w m by (auto simp: bit_or_iff bit_and_iff bit_not_iff bit_unsigned_iff bit_push_bit_iff bit_drop_bit_eq
          bit_mask_iff mskTagFlags_bits bit_USHORT_byte)
  qed
  moreover have "store_le 2 ?w = [ucast ?w, ucast (drop_bit 8 ?w)]"
    by (simp add: store_le_def upt_rec numeral_2_eq_2)
  ultimately show ?thesis by (simp only: bs blit_def) simp
qed

text \<open>The same page with other flag bits in a tag.\<close>

definition put_flags :: "CPAGE \<Rightarrow> nat \<Rightarrow> USHORT \<Rightarrow> CPAGE" where
  "put_flags p i f = (if m_fSmallFormat p
     then put_tag p i ((get_tag p i)\<lparr>tag_ib := (tag_ib (get_tag p i) AND NOT mskTagFlags) OR push_bit 13 f\<rparr>) else p)"

lemma put_flags_sel [simp]:
  "pghdr (put_flags p i f) = pghdr p" "m_cbPage (put_flags p i f) = m_cbPage p"
  "m_fSmallFormat (put_flags p i f) = m_fSmallFormat p" "m_itagMicFree (put_flags p i f) = m_itagMicFree p"
  "m_ctagReserved (put_flags p i f) = m_ctagReserved p"
  "m_fRuntimeScrubbingEnabled (put_flags p i f) = m_fRuntimeScrubbingEnabled p"
  "m_fResvTagFormatEnabled (put_flags p i f) = m_fResvTagFormatEnabled p"
  "slot p i \<Longrightarrow> length (rgb (put_flags p i f)) = length (rgb p)"
  by (simp_all add: put_flags_def)

lemma flags_keep_field: "((w AND NOT mskTagFlags) OR push_bit 13 f) AND mask 13 = w AND mask 13" for w f :: USHORT
  by (rule bit_word_eqI) (auto simp: bit_or_iff bit_and_iff bit_not_iff bit_push_bit_iff bit_mask_iff mskTagFlags_bits)

lemma flags_read_back: "f < 8 \<Longrightarrow> drop_bit 13 (((w AND NOT mskTagFlags) OR push_bit 13 f) AND mskTagFlags) = f" for w f :: USHORT
proof -
  assume "f < 8"
  then have "unat f < 2 ^ 3" by (simp add: word_less_nat_alt)
  then have "bit f n \<Longrightarrow> n < 3" for n
    using bit_nat_bound [of "unat f" 3 n] bit_imp_le_length [of f n] by (simp add: bit_unsigned_iff)
  then show ?thesis
    by (intro bit_word_eqI) (auto simp: bit_drop_bit_eq bit_or_iff bit_and_iff bit_not_iff bit_push_bit_iff mskTagFlags_bits)
qed

lemma Ib_put_flags: "slot p i \<Longrightarrow> slot p j \<Longrightarrow> Ib (put_flags p i f) j = Ib p j"
  by (auto simp: put_flags_def Ib_def get_put_tag mskTagIbCb_mask flags_keep_field)

lemma Cb_put_flags: "slot p i \<Longrightarrow> slot p j \<Longrightarrow> Cb (put_flags p i f) j = Cb p j"
  by (auto simp: put_flags_def Cb_def get_put_tag)

lemma tag_flags_put_flags:
  "slot p i \<Longrightarrow> slot p j \<Longrightarrow> f < 8 \<Longrightarrow> m_fSmallFormat p \<Longrightarrow> tag_flags (put_flags p i f) j = (if i = j then f else tag_flags p j)"
  using flags_read_back [of f "tag_ib (get_tag p i)"] by (auto simp: put_flags_def tag_flags_def get_put_tag)

lemma subbuf_put_flags: "slot p i \<Longrightarrow> k + n + 4 * (i + 1) \<le> length (rgb p) \<Longrightarrow> subbuf k n (rgb (put_flags p i f)) = subbuf k n (rgb p)"
  by (simp add: put_flags_def subbuf_put_tag)

lemma SetFlags_small: "m_fSmallFormat p \<Longrightarrow> SetFlags p i f = put_flags p i f"
  by (simp add: SetFlags_def put_flags_def Let_def)

lemma tag_fields_set_bytes:
  assumes "slot p i" and "k + length bs + 4 * (i + 1) \<le> length (rgb p)"
  shows "Ib (set_bytes p k bs) i = Ib p i" and "Cb (set_bytes p k bs) i = Cb p i"
    and "tag_flags (set_bytes p k bs) i = tag_flags p i"
  using assms by (simp_all add: Ib_def Cb_def tag_flags_def get_tag_blit)

lemma put_flags_twice: "slot p i \<Longrightarrow> put_flags (put_flags p i f) i f = put_flags p i f"
proof -
  assume "slot p i"
  then have "PtagFromItag p i + 4 \<le> length (rgb p)" using ptag_slot [OF \<open>slot p i\<close>] by simp
  then have overwrite: "put_tag (put_tag p i t) i t = put_tag p i t" for t
    by (simp add: put_tag_def Let_def set_bytes_def PtagFromItag_def blit_append [of _ "store_le 2 (tag_cb t)", simplified] blit_overwrite)
  have "((((w AND NOT mskTagFlags) OR push_bit 13 f) AND NOT mskTagFlags) OR push_bit 13 f)
      = (w AND NOT mskTagFlags) OR push_bit 13 f" for w :: USHORT
    by (rule bit_word_eqI) (auto simp: bit_or_iff bit_and_iff bit_not_iff)
  then show ?thesis using \<open>slot p i\<close> by (simp add: put_flags_def get_put_tag overwrite)
qed

lemma put_flags_set_bytes:
  assumes "slot p i" and "k + length bs + 4 * (i + 1) \<le> length (rgb p)"
  shows "put_flags (set_bytes p k bs) i f = set_bytes (put_flags p i f) k bs"
proof -
  have ptag: "PtagFromItag p i + 4 * (i + 1) = length (rgb p)" using ptag_slot [OF assms(1)] .
  have "put_tag (set_bytes p k bs) i t = set_bytes (put_tag p i t) k bs" for t
  proof -
    have same: "PtagFromItag (set_bytes p k bs) i = PtagFromItag p i"
      using assms(2) by (simp add: PtagFromItag_def)
    have "blit (blit (blit (rgb p) k bs) (PtagFromItag p i) xs) (PtagFromItag p i + 2) ys
      = blit (blit (blit (rgb p) (PtagFromItag p i) xs) (PtagFromItag p i + 2) ys) k bs"
      if "length xs = 2" "length ys = 2" for xs ys :: "BYTE list"
      using that assms(2) ptag by (intro nth_equalityI) (auto simp: nth_blit)
    then show ?thesis unfolding put_tag_def Let_def same by (simp add: set_bytes_def)
  qed
  then show ?thesis using assms by (simp add: put_flags_def get_tag_blit)
qed

text \<open>The effect of the last two steps of an insertion or replacement, as one write.\<close>

lemma write_line:
  assumes "slot p i" and "f < 8" and "Cb p i = length (concat rgdata)" and "Ib p i + Cb p i + 4 * (i + 1) \<le> length (rgb p)"
  shows "CopyData (SetFlags p i f) i rgdata
    = set_bytes (put_flags p i f) (Ib p i) (stamp (m_fSmallFormat p) i f (concat rgdata))"
proof (cases "m_fSmallFormat p")
  case True
  let ?q = "put_flags p i f"
  have q: "slot ?q i" "Ib ?q i = Ib p i" "length (rgb ?q) = length (rgb p)" "m_fSmallFormat ?q"
    using assms(1) True by (simp_all add: Ib_put_flags slot_def)
  have fl: "FFlags ?q i = f"
    using tag_flags_put_flags [OF assms(1,1,2) True] q(4) by (simp add: FFlags_def tag_flags_def)
  have "copy_pieces ?q (Ib p i) rgdata = set_bytes ?q (Ib p i) (concat rgdata)"
    using assms(3,4) q(3) by (intro copy_pieces_eq) simp
  then have "CopyData ?q i rgdata = set_bytes ?q (Ib p i) (concat rgdata)"
    using assms q fl True put_flags_set_bytes [OF q(1), of "Ib p i" "concat rgdata" f] put_flags_twice [OF assms(1), of f]
    by (simp add: CopyData_def Let_def SetFlags_small)
  then show ?thesis using True by (simp add: SetFlags_small stamp_def)
next
  case False
  let ?bs = "concat rgdata"
  have bs: "Cb p i = length ?bs" "Ib p i + length ?bs + 4 * (i + 1) \<le> length (rgb p)" using assms(3,4) by simp_all
  have pieces: "copy_pieces q (Ib p i) rgdata = set_bytes q (Ib p i) ?bs" if "length (rgb q) = length (rgb p)" for q
    using that bs by (intro copy_pieces_eq) simp
  show ?thesis
  proof (cases "i = 0 \<or> length ?bs < 2")
    case True
    have "SetFlags p i f = p" using True False bs(1) by (auto simp: SetFlags_def)
    moreover have "SetFlags (set_bytes p (Ib p i) ?bs) i g = set_bytes p (Ib p i) ?bs" for g
      using True False bs tag_fields_set_bytes(2) [OF assms(1) bs(2)] by (auto simp: SetFlags_def)
    ultimately show ?thesis
      using True False pieces [of p] by (auto simp: CopyData_def Let_def stamp_def put_flags_def)
  next
    case stamped: False
    define w where "w us = store_le 2 ((us AND NOT mskTagFlags) OR push_bit 13 f)" for us :: USHORT
    have lw: "length (w us) = 2" for us by (simp add: w_def)
    define q where "q = set_bytes p (Ib p i) (w (load_le (subbuf (Ib p i) 2 (rgb p))))"
    have q0: "SetFlags p i f = q" using False stamped bs(1) by (simp add: SetFlags_def q_def w_def)
    have q: "Ib q i = Ib p i" "Cb q i = Cb p i" "length (rgb q) = length (rgb p)" "\<not> m_fSmallFormat q"
      using stamped bs False tag_fields_set_bytes [OF assms(1), of "Ib p i" "w (load_le (subbuf (Ib p i) 2 (rgb p)))"] lw
      by (simp_all add: q_def)
    have fl: "FFlags q i = f"
      using stamped bs q flags_read_back [OF assms(2), of "load_le (subbuf (Ib p i) 2 (rgb p))"] lw
      by (simp add: FFlags_def q_def w_def)
    have r: "set_bytes q (Ib p i) ?bs = set_bytes p (Ib p i) ?bs"
      using stamped bs lw by (simp add: q_def set_bytes_def blit_overwrite)
    have "SetFlags (set_bytes p (Ib p i) ?bs) i f
        = set_bytes (set_bytes p (Ib p i) ?bs) (Ib p i) (w (load_le (subbuf (Ib p i) 2 (blit (rgb p) (Ib p i) ?bs))))"
      using stamped False bs tag_fields_set_bytes [OF assms(1) bs(2)] by (simp add: SetFlags_def w_def)
    also have "subbuf (Ib p i) 2 (blit (rgb p) (Ib p i) ?bs) = subbuf 0 2 ?bs"
      using stamped bs by (intro nth_equalityI) (auto simp: nth_blit subbuf_def)
    also have "set_bytes (set_bytes p (Ib p i) ?bs) (Ib p i) (w (load_le (subbuf 0 2 ?bs))) = set_bytes p (Ib p i) (blit ?bs 0 (w (load_le (subbuf 0 2 ?bs))))"
      using stamped bs lw blit_blit_inside [of "Ib p i" ?bs "rgb p" 0 "w (load_le (subbuf 0 2 ?bs))"] by (simp add: set_bytes_def)
    also have "blit ?bs 0 (w (load_le (subbuf 0 2 ?bs))) = stamp False i f ?bs"
      using stamped stamp_bytes [of ?bs f] by (simp only: stamp_def w_def) auto
    finally show ?thesis
      using stamped False q fl r pieces [of q] q0 by (simp add: CopyData_def Let_def put_flags_def)
  qed
qed

text \<open>A line of no length may have any offset: nothing is written but the flags.\<close>

lemma set_bytes_Nil [simp]: "set_bytes p k [] = p"
  by (simp add: set_bytes_def blit_def)

lemma write_empty:
  assumes "slot p i" and "f < 8" and "Cb p i = 0" and "concat rgdata = []"
  shows "CopyData (SetFlags p i f) i rgdata = put_flags p i f"
proof -
  have pieces: "copy_pieces q k rgdata = q" for q k
    using assms(4) by (induction rgdata) (simp_all add: copy_pieces_def)
  show ?thesis
  proof (cases "m_fSmallFormat p")
    case True
    have "FFlags (put_flags p i f) i = f"
      using tag_flags_put_flags [OF assms(1,1,2) True] True by (simp add: FFlags_def tag_flags_def)
    then show ?thesis
      using True put_flags_twice [OF assms(1), of f] by (simp add: CopyData_def Let_def pieces SetFlags_small)
  next
    case False
    then have "SetFlags p i g = p" for g using assms(3) by (simp add: SetFlags_def)
    then show ?thesis using False by (simp add: CopyData_def Let_def pieces put_flags_def)
  qed
qed

text \<open>The flags of a line on a large page are the three high bits of its second byte.\<close>

lemma line_flags_high: "f < 8 \<Longrightarrow> line_flags (x # ((y AND 0x1f) OR push_bit 5 (ucast f)) # bs) = f"
proof -
  assume f: "f < 8"
  have fb: "bit f n \<Longrightarrow> n < 3" for n
  proof -
    assume b: "bit f n"
    have "unat f < 8" using f by (simp add: word_less_nat_alt)
    moreover have "bit (unat f) n" using b by (simp add: bit_unsigned_iff)
    ultimately show "n < 3" using bit_nat_bound [of "unat f" 3 n] by simp
  qed
  have m: "(0x1f :: BYTE) = mask 5" by (simp add: mask_eq_exp_minus_1)
  have "drop_bit 5 (ucast ((y AND 0x1f) OR push_bit 5 (ucast f))) = f"
    unfolding m by (rule bit_word_eqI) (auto simp: bit_simps dest: fb)
  then show ?thesis by (simp add: line_flags_def)
qed

end
