(* ===== verification/Cpage_Reorg.thy ===== *)
theory Cpage_Reorg
  imports Cpage_Tags
begin

unbundle bit_operations_syntax

text \<open>
  The well-formedness invariant of a page, the lines a page holds, and the compaction of the
  page: \<open>ReorganizeData\<close> and \<open>FreeSpace\<close> keep every line and gather all free bytes at the end.
\<close>

section \<open>Lines and invariant\<close>

definition line :: "CPAGE \<Rightarrow> nat \<Rightarrow> BYTE list \<times> USHORT" where
  "line p i = (line_bytes p i, if m_fSmallFormat p then tag_flags p i else line_flags (line_bytes p i))"

definition lines :: "CPAGE \<Rightarrow> (BYTE list \<times> USHORT) list" where
  "lines p = map (line p) [0..<m_itagMicFree p]"

text \<open>Two nonempty lines do not overlap.\<close>

definition apart :: "CPAGE \<Rightarrow> nat \<Rightarrow> nat \<Rightarrow> bool" where
  "apart p i j \<longleftrightarrow> Cb p i = 0 \<or> Cb p j = 0 \<or> Ib p i + Cb p i \<le> Ib p j \<or> Ib p j + Cb p j \<le> Ib p i"

definition page_inv :: "CPAGE \<Rightarrow> bool" where
  "page_inv p \<longleftrightarrow>
     1 \<le> m_ctagReserved p \<and> m_ctagReserved p \<le> m_itagMicFree p \<and> length (rgb p) \<le> msk p
     \<and> m_cbPage p = CbBuffer p
     \<and> ibMicFree (pghdr p) + 4 * m_itagMicFree p \<le> length (rgb p)
     \<and> (\<forall>i < m_itagMicFree p. Cb p i \<noteq> 0 \<longrightarrow> Ib p i + Cb p i \<le> ibMicFree (pghdr p))
     \<and> (\<forall>i < m_itagMicFree p. \<forall>j < m_itagMicFree p. i \<noteq> j \<longrightarrow> apart p i j)
     \<and> cbFree (pghdr p) + (\<Sum>i<m_itagMicFree p. Cb p i) + 4 * m_itagMicFree p = length (rgb p)"

definition frame :: "CPAGE \<Rightarrow> CPAGE \<Rightarrow> bool" where
  "frame p q \<longleftrightarrow> q = p\<lparr>rgb := rgb q\<rparr> \<and> length (rgb q) = length (rgb p)"

lemma frameI:
  assumes "pghdr q = pghdr p" "m_cbPage q = m_cbPage p" "m_fSmallFormat q = m_fSmallFormat p"
    "m_itagMicFree q = m_itagMicFree p" "m_ctagReserved q = m_ctagReserved p"
    "m_fRuntimeScrubbingEnabled q = m_fRuntimeScrubbingEnabled p" "m_fResvTagFormatEnabled q = m_fResvTagFormatEnabled p"
    "length (rgb q) = length (rgb p)"
  shows "frame p q"
  using assms by (cases p; cases q) (simp add: frame_def)

lemma frameD:
  assumes "frame p q"
  shows "pghdr q = pghdr p" "m_cbPage q = m_cbPage p" "m_fSmallFormat q = m_fSmallFormat p"
    "m_itagMicFree q = m_itagMicFree p" "m_ctagReserved q = m_ctagReserved p"
    "m_fRuntimeScrubbingEnabled q = m_fRuntimeScrubbingEnabled p" "m_fResvTagFormatEnabled q = m_fResvTagFormatEnabled p"
    "length (rgb q) = length (rgb p)" "msk q = msk p" "slot q i \<longleftrightarrow> slot p i"
proof -
  have q: "q = p\<lparr>rgb := rgb q\<rparr>" and len: "length (rgb q) = length (rgb p)" using assms by (simp_all add: frame_def)
  show "length (rgb q) = length (rgb p)" by (rule len)
  show "slot q i \<longleftrightarrow> slot p i" by (simp add: slot_def len)
  show "pghdr q = pghdr p" by (subst q) simp
  show "m_cbPage q = m_cbPage p" by (subst q) simp
  show s: "m_fSmallFormat q = m_fSmallFormat p" by (subst q) simp
  show "m_itagMicFree q = m_itagMicFree p" by (subst q) simp
  show "m_ctagReserved q = m_ctagReserved p" by (subst q) simp
  show "m_fRuntimeScrubbingEnabled q = m_fRuntimeScrubbingEnabled p" by (subst q) simp
  show "m_fResvTagFormatEnabled q = m_fResvTagFormatEnabled p" by (subst q) simp
  show "msk q = msk p" by (simp add: msk_def s)
qed

lemma set_ibMicFree_frame:
  "frame p q \<Longrightarrow> set_ibMicFree i q = p\<lparr>pghdr := (pghdr p)\<lparr>ibMicFree := ushort i\<rparr>, rgb := rgb q\<rparr>"
  by (cases p; cases q) (simp add: frame_def set_ibMicFree_def upd_hdr_def)

lemma frame_refl [simp]: "frame p p"
  by (simp add: frame_def)

lemma frame_trans: "frame p q \<Longrightarrow> frame q r \<Longrightarrow> frame p r"
  by (rule frameI) (simp_all add: frameD(1-8))

lemma frame_set_bytes: "k + length bs \<le> length (rgb p) \<Longrightarrow> frame p (set_bytes p k bs)"
  by (rule frameI) simp_all

lemma frame_SetIb: "slot p i \<Longrightarrow> frame p (SetIb p i ib)"
  by (rule frameI) simp_all

section \<open>Moving the lines down\<close>

lemma subbuf_line_disjoint:
  "k + length bs \<le> length (rgb p) \<Longrightarrow> j + n \<le> k \<or> k + length bs \<le> j \<Longrightarrow> subbuf j n (rgb (set_bytes p k bs)) = subbuf j n (rgb p)"
  by (simp add: subbuf_blit_disjoint)

text \<open>One step of the loop.\<close>

lemma move_step:
  assumes n: "4 * n \<le> length (rgb q)" "i < n" and fit: "d \<le> msk q" "length (rgb q) \<le> msk q"
    and room: "d + Cb q i + 4 * n \<le> length (rgb q)" "Cb q i \<noteq> 0 \<longrightarrow> d \<le> Ib q i \<and> Ib q i + Cb q i + 4 * n \<le> length (rgb q)"
  defines "q1 \<equiv> SetIb (if Cb q i \<noteq> 0 then set_bytes q d (subbuf (Ib q i) (Cb q i) (rgb q)) else q) i d"
  shows "frame q q1" and "j < n \<Longrightarrow> Cb q1 j = Cb q j" and "j < n \<Longrightarrow> Ib q1 j = (if j = i then d else Ib q j)"
    and "j < n \<Longrightarrow> m_fSmallFormat q \<Longrightarrow> tag_flags q1 j = tag_flags q j"
    and "line_bytes q1 i = line_bytes q i"
    and "k + m + 4 * n \<le> length (rgb q) \<Longrightarrow> k + m \<le> d \<or> d + Cb q i \<le> k \<Longrightarrow> subbuf k m (rgb q1) = subbuf k m (rgb q)"
proof -
  define q0 where "q0 = (if Cb q i \<noteq> 0 then set_bytes q d (subbuf (Ib q i) (Cb q i) (rgb q)) else q)"
  have slots: "slot q j" if "j < n" for j using that n(1) by (simp add: slot_def)
  have len: "Cb q i \<noteq> 0 \<Longrightarrow> length (subbuf (Ib q i) (Cb q i) (rgb q)) = Cb q i" using room(2) by auto
  have f0: "frame q q0" unfolding q0_def using room len by (auto intro: frame_set_bytes)
  note f0D = frameD [OF f0]
  have s0: "slot q0 j" if "j < n" for j using slots [OF that] f0D(10) by simp
  have tags: "Cb q0 j = Cb q j" "Ib q0 j = Ib q j" "tag_flags q0 j = tag_flags q j" if "j < n" for j
    using tag_fields_set_bytes [OF slots [OF that], of d "subbuf (Ib q i) (Cb q i) (rgb q)"] that room len
    by (simp_all add: q0_def)
  have q1: "q1 = SetIb q0 i d" by (simp add: q1_def q0_def)
  show f1: "frame q q1" unfolding q1 using frame_trans [OF f0] frame_SetIb [OF s0 [OF n(2)]] by blast
  have cb: "Cb q1 j = Cb q j" if "j < n" for j using that s0 n(2) tags by (simp add: q1 Cb_SetIb)
  then show "j < n \<Longrightarrow> Cb q1 j = Cb q j" .
  have ib: "Ib q1 j = (if j = i then d else Ib q j)" if "j < n" for j using that s0 n(2) tags fit f0D(9) by (simp add: q1 Ib_SetIb)
  then show "j < n \<Longrightarrow> Ib q1 j = (if j = i then d else Ib q j)" .
  show "j < n \<Longrightarrow> m_fSmallFormat q \<Longrightarrow> tag_flags q1 j = tag_flags q j"
    using s0 n(2) tags fit f0D(3,9) by (simp add: q1 tag_flags_SetIb)
  have sub: "subbuf k m (rgb q1) = subbuf k m (rgb q0)" if "k + m + 4 * n \<le> length (rgb q)" for k m
    using that n(2) s0 f0D(8) by (simp add: q1 subbuf_SetIb)
  show "line_bytes q1 i = line_bytes q i"
  proof (cases "Cb q i = 0")
    case False
    then show ?thesis using sub [OF room(1)] cb [OF n(2)] ib [OF n(2)] room len by (simp add: line_bytes_def q0_def)
  qed (use cb [OF n(2)] in \<open>simp add: line_bytes_def\<close>)
  show "k + m + 4 * n \<le> length (rgb q) \<Longrightarrow> k + m \<le> d \<or> d + Cb q i \<le> k \<Longrightarrow> subbuf k m (rgb q1) = subbuf k m (rgb q)"
    using sub [of k m] room len subbuf_line_disjoint [of d "subbuf (Ib q i) (Cb q i) (rgb q)" q k m] by (auto simp: q0_def)
qed

text \<open>
  The whole loop, for tags in the order of their offsets: every line keeps its bytes, length
  and flags, and the moved lines fill the space from \<open>d\<close> on without gaps.
\<close>

lemma move_lines_ok:
  assumes "distinct xs" and "set xs \<subseteq> {..<n}" and "4 * n \<le> length (rgb q)" and "length (rgb q) \<le> msk q"
    and msk: "msk q < 65536"
    and order: "sorted_wrt (\<lambda>i j. Cb q i = 0 \<or> Cb q j = 0 \<or> Ib q i + Cb q i \<le> Ib q j) xs"
    and above: "\<And>i. i \<in> set xs \<Longrightarrow> Cb q i \<noteq> 0 \<Longrightarrow> d \<le> Ib q i \<and> Ib q i + Cb q i \<le> F"
    and "d \<le> F" and "F + 4 * n \<le> length (rgb q)"
  shows "\<exists>q'. move_lines xs q d = Some (q', d + (\<Sum>i\<leftarrow>xs. Cb q i)) \<and> frame q q' \<and> d + (\<Sum>i\<leftarrow>xs. Cb q i) \<le> F
    \<and> (\<forall>j<n. Cb q' j = Cb q j \<and> (m_fSmallFormat q \<longrightarrow> tag_flags q' j = tag_flags q j) \<and> (j \<notin> set xs \<longrightarrow> Ib q' j = Ib q j))
    \<and> (\<forall>i\<in>set xs. line_bytes q' i = line_bytes q i \<and> d \<le> Ib q' i \<and> Ib q' i + Cb q i \<le> d + (\<Sum>i\<leftarrow>xs. Cb q i))
    \<and> (\<forall>i\<in>set xs. \<forall>j\<in>set xs. i \<noteq> j \<longrightarrow> apart q' i j)
    \<and> (\<forall>k m. k + m \<le> d \<longrightarrow> subbuf k m (rgb q') = subbuf k m (rgb q))"
  using assms
proof (induction xs arbitrary: q d)
  case Nil
  then show ?case by auto
next
  case (Cons x xs)
  define q1 where "q1 = SetIb (if Cb q x \<noteq> 0 then set_bytes q d (subbuf (Ib q x) (Cb q x) (rgb q)) else q) x d"
  have x: "x < n" "x \<notin> set xs" "\<And>j. j \<in> set xs \<Longrightarrow> j < n" using Cons.prems(1,2) by auto
  have dx: "d + Cb q x \<le> F" using Cons.prems(7) [of x] Cons.prems(8) by (cases "Cb q x = 0") auto
  have fit: "d \<le> msk q" "d + Cb q x + 4 * n \<le> length (rgb q)"
    "Cb q x \<noteq> 0 \<longrightarrow> d \<le> Ib q x \<and> Ib q x + Cb q x + 4 * n \<le> length (rgb q)"
    using dx Cons.prems(3,4,9) Cons.prems(7) [of x] by auto
  note step = move_step [OF Cons.prems(3) x(1) fit(1) Cons.prems(4) fit(2,3), folded q1_def]
  note fr = frameD [OF step(1)]
  have move: "move_lines (x # xs) q d = move_lines xs q1 (d + Cb q x)"
    using fit Cons.prems(4,5) step(2) [OF x(1)] by (auto simp: q1_def Let_def simp flip: of_nat_add)
  have same: "Cb q1 j = Cb q j" "Ib q1 j = Ib q j" if "j \<in> set xs" for j
    using step(2,3) [OF x(3) [OF that]] that x(2) by auto
  have after: "Cb q x = 0 \<or> Cb q j = 0 \<or> Ib q x + Cb q x \<le> Ib q j" if "j \<in> set xs" for j
    using Cons.prems(6) that by auto
  have "\<exists>q'. move_lines xs q1 (d + Cb q x) = Some (q', (d + Cb q x) + (\<Sum>i\<leftarrow>xs. Cb q1 i)) \<and> frame q1 q' \<and> (d + Cb q x) + (\<Sum>i\<leftarrow>xs. Cb q1 i) \<le> F
    \<and> (\<forall>j<n. Cb q' j = Cb q1 j \<and> (m_fSmallFormat q1 \<longrightarrow> tag_flags q' j = tag_flags q1 j) \<and> (j \<notin> set xs \<longrightarrow> Ib q' j = Ib q1 j))
    \<and> (\<forall>i\<in>set xs. line_bytes q' i = line_bytes q1 i \<and> d + Cb q x \<le> Ib q' i \<and> Ib q' i + Cb q1 i \<le> (d + Cb q x) + (\<Sum>i\<leftarrow>xs. Cb q1 i))
    \<and> (\<forall>i\<in>set xs. \<forall>j\<in>set xs. i \<noteq> j \<longrightarrow> apart q' i j)
    \<and> (\<forall>k m. k + m \<le> d + Cb q x \<longrightarrow> subbuf k m (rgb q') = subbuf k m (rgb q1))"
  proof (rule Cons.IH)
    show "sorted_wrt (\<lambda>i j. Cb q1 i = 0 \<or> Cb q1 j = 0 \<or> Ib q1 i + Cb q1 i \<le> Ib q1 j) xs"
    proof (rule sorted_wrt_mono_rel [of xs "\<lambda>i j. Cb q i = 0 \<or> Cb q j = 0 \<or> Ib q i + Cb q i \<le> Ib q j"])
      show "sorted_wrt (\<lambda>i j. Cb q i = 0 \<or> Cb q j = 0 \<or> Ib q i + Cb q i \<le> Ib q j) xs" using Cons.prems(6) by simp
    qed (simp add: same)
    fix i assume i: "i \<in> set xs" "Cb q1 i \<noteq> 0"
    then show "d + Cb q x \<le> Ib q1 i \<and> Ib q1 i + Cb q1 i \<le> F"
      using after [OF i(1)] Cons.prems(7) [of i] Cons.prems(7) [of x] same [OF i(1)] by fastforce
  qed (use Cons.prems fr dx in auto)
  then obtain q' where Q: "move_lines xs q1 (d + Cb q x) = Some (q', (d + Cb q x) + (\<Sum>i\<leftarrow>xs. Cb q1 i)) \<and> frame q1 q' \<and> (d + Cb q x) + (\<Sum>i\<leftarrow>xs. Cb q1 i) \<le> F
    \<and> (\<forall>j<n. Cb q' j = Cb q1 j \<and> (m_fSmallFormat q1 \<longrightarrow> tag_flags q' j = tag_flags q1 j) \<and> (j \<notin> set xs \<longrightarrow> Ib q' j = Ib q1 j))
    \<and> (\<forall>i\<in>set xs. line_bytes q' i = line_bytes q1 i \<and> d + Cb q x \<le> Ib q' i \<and> Ib q' i + Cb q1 i \<le> (d + Cb q x) + (\<Sum>i\<leftarrow>xs. Cb q1 i))
    \<and> (\<forall>i\<in>set xs. \<forall>j\<in>set xs. i \<noteq> j \<longrightarrow> apart q' i j)
    \<and> (\<forall>k m. k + m \<le> d + Cb q x \<longrightarrow> subbuf k m (rgb q') = subbuf k m (rgb q1))" by (elim exE)
  note q' = Q [THEN conjunct1] Q [THEN conjunct2, THEN conjunct1] Q [THEN conjunct2, THEN conjunct2, THEN conjunct1]
    Q [THEN conjunct2, THEN conjunct2, THEN conjunct2, THEN conjunct1, THEN spec, THEN mp]
    Q [THEN conjunct2, THEN conjunct2, THEN conjunct2, THEN conjunct2, THEN conjunct1, THEN bspec]
    Q [THEN conjunct2, THEN conjunct2, THEN conjunct2, THEN conjunct2, THEN conjunct2, THEN conjunct1, THEN bspec, THEN bspec, THEN mp]
    Q [THEN conjunct2, THEN conjunct2, THEN conjunct2, THEN conjunct2, THEN conjunct2, THEN conjunct2, THEN spec, THEN spec, THEN mp]
  have sums: "(\<Sum>i\<leftarrow>xs. Cb q1 i) = (\<Sum>i\<leftarrow>xs. Cb q i)" using same by (intro arg_cong [where f = sum_list] map_cong) auto
  have ibx: "Ib q' x = d" "Cb q' x = Cb q x" using q'(4) [OF x(1)] step(2,3) [OF x(1)] x(2) by auto
  have bytes: "line_bytes q' i = line_bytes q i \<and> d \<le> Ib q' i \<and> Ib q' i + Cb q i \<le> d + (\<Sum>i\<leftarrow>x # xs. Cb q i)" if "i \<in> set (x # xs)" for i
  proof (cases "i = x")
    case True
    have "line_bytes q' x = line_bytes q1 x"
      using q'(7) [of d "Cb q x"] ibx step(2,3) [OF x(1)] by (simp add: line_bytes_def)
    then show ?thesis using True step(5) ibx by simp
  next
    case False
    then have i: "i \<in> set xs" using that by simp
    have "line_bytes q1 i = line_bytes q i"
    proof (cases "Cb q x = 0 \<or> Cb q i = 0")
      case True
      then show ?thesis
      proof (cases "Cb q i = 0")
        case False
        then have "d \<le> Ib q i" "Ib q i + Cb q i + 4 * n \<le> length (rgb q)" "Cb q x = 0"
          using Cons.prems(7) [of i] i Cons.prems(9) True by simp_all
        then show ?thesis using same [OF i] step(6) [of "Ib q i" "Cb q i"] by (simp add: line_bytes_def)
      qed (simp add: line_bytes_def same [OF i])
    next
      case False
      then have "d + Cb q x \<le> Ib q i" "Ib q i + Cb q i + 4 * n \<le> length (rgb q)"
        using after [OF i] Cons.prems(7) [of x] Cons.prems(7) [of i] i Cons.prems(9) by auto
      then show ?thesis using same [OF i] step(6) by (simp add: line_bytes_def)
    qed
    then show ?thesis using q'(5) [OF i] same [OF i] sums by simp
  qed
  have "apart q' i j" if "i \<in> set (x # xs)" "j \<in> set (x # xs)" "i \<noteq> j" for i j
  proof -
    have "apart q' x k \<and> apart q' k x" if "k \<in> set xs" for k
      using q'(5) [OF that] ibx by (auto simp: apart_def)
    then show ?thesis using that q'(6) by auto
  qed
  moreover have "Cb q' j = Cb q j \<and> (m_fSmallFormat q \<longrightarrow> tag_flags q' j = tag_flags q j) \<and> (j \<notin> set (x # xs) \<longrightarrow> Ib q' j = Ib q j)" if "j < n" for j
    using q'(4) [OF that] step(2-4) [OF that] fr(3) by auto
  moreover have "subbuf k m (rgb q') = subbuf k m (rgb q)" if "k + m \<le> d" for k m
    using q'(7) [of k m] step(6) [of k m] that fit(2) by simp
  moreover have "move_lines (x # xs) q d = Some (q', d + (\<Sum>i\<leftarrow>x # xs. Cb q i))" using move q'(1) sums by simp
  moreover have "d + (\<Sum>i\<leftarrow>x # xs. Cb q i) \<le> F" using q'(3) sums by simp
  moreover have "frame q q'" using frame_trans [OF step(1) q'(2)] .
  ultimately show ?case using bytes by blast
qed

section \<open>Compaction\<close>

lemma msk_bound: "msk p < 65536"
  by (simp add: msk_def)

lemma inv_facts:
  assumes "page_inv p"
  shows "1 \<le> m_ctagReserved p" "m_ctagReserved p \<le> m_itagMicFree p" "length (rgb p) \<le> msk p" "m_cbPage p = CbBuffer p"
    "ibMicFree (pghdr p) + 4 * m_itagMicFree p \<le> length (rgb p)"
    "\<And>i. i < m_itagMicFree p \<Longrightarrow> Cb p i \<noteq> 0 \<Longrightarrow> Ib p i + Cb p i \<le> ibMicFree (pghdr p)"
    "\<And>i j. i < m_itagMicFree p \<Longrightarrow> j < m_itagMicFree p \<Longrightarrow> i \<noteq> j \<Longrightarrow> apart p i j"
    "cbFree (pghdr p) + (\<Sum>i<m_itagMicFree p. Cb p i) + 4 * m_itagMicFree p = length (rgb p)"
    "length (rgb p) < 65536"
  using assms msk_bound [of p] by (simp_all add: page_inv_def)

lemma inv_slot: "page_inv p \<Longrightarrow> i < m_itagMicFree p \<Longrightarrow> slot p i"
  using inv_facts(5) [of p] by (simp add: slot_def)

lemma sizes_eq:
  "CbBufferData p = int (length (rgb p))"
  "m_cbPage p = CbBuffer p \<Longrightarrow> CbAdjustForPage p = 0"
  "CbContiguousBufferFree p = int (length (rgb p)) - int (ibMicFree (pghdr p)) - 4 * int (m_itagMicFree p)"
  "m_cbPage p = CbBuffer p \<Longrightarrow> CbContiguousFree p = int (length (rgb p)) - int (ibMicFree (pghdr p)) - 4 * int (m_itagMicFree p)"
  by (simp_all add: CbBufferData_def CbBuffer_def CbAdjustForPage_def ushort_def CbContiguousBufferFree_def
      CbContiguousFree_def CbTagArray_def sizeof_TAG_def)

lemma line_cong:
  "m_fSmallFormat q = m_fSmallFormat p \<Longrightarrow> line_bytes q i = line_bytes p i \<Longrightarrow>
   (m_fSmallFormat p \<Longrightarrow> tag_flags q i = tag_flags p i) \<Longrightarrow> line q i = line p i"
  by (auto simp: line_def)

lemma sorted_tags_apart:
  assumes "page_inv p"
  shows "sorted_wrt (\<lambda>i j. Cb p i = 0 \<or> Cb p j = 0 \<or> Ib p i + Cb p i \<le> Ib p j) (sort_key (Ib p) [0..<m_itagMicFree p])"
proof -
  let ?xs = "sort_key (Ib p) [0..<m_itagMicFree p]"
  have "sorted_wrt (\<lambda>i j. Ib p i \<le> Ib p j) ?xs"
    using sorted_sort_key [of "Ib p" "[0..<m_itagMicFree p]"] unfolding sorted_map .
  then have le: "Ib p (?xs ! a) \<le> Ib p (?xs ! b)" if "a < b" "b < length ?xs" for a b
    using that unfolding sorted_wrt_iff_nth_less by blast
  have distinct: "distinct ?xs" by simp
  show ?thesis
    unfolding sorted_wrt_iff_nth_less
  proof (intro allI impI)
    fix a b assume ab: "a < b" "b < length ?xs"
    have "?xs ! a \<in> set ?xs" "?xs ! b \<in> set ?xs" by (rule nth_mem, use ab in linarith)+
    then have "?xs ! a < m_itagMicFree p" "?xs ! b < m_itagMicFree p" by simp_all
    moreover have "?xs ! a \<noteq> ?xs ! b" using nth_eq_iff_index_eq [OF distinct, of a b] ab by simp
    ultimately have "apart p (?xs ! a) (?xs ! b)" by (rule inv_facts(7) [OF assms])
    then show "Cb p (?xs ! a) = 0 \<or> Cb p (?xs ! b) = 0 \<or> Ib p (?xs ! a) + Cb p (?xs ! a) \<le> Ib p (?xs ! b)"
      using le [OF ab] unfolding apart_def by linarith
  qed
qed

lemma inv_frame_hdr:
  assumes "m_fSmallFormat q = m_fSmallFormat p" "m_itagMicFree q = m_itagMicFree p" "m_ctagReserved q = m_ctagReserved p"
    "m_cbPage q = m_cbPage p" "length (rgb q) = length (rgb p)" "cbFree (pghdr q) = cbFree (pghdr p)"
    and "\<And>i. i < m_itagMicFree p \<Longrightarrow> Cb q i = Cb p i"
    and "\<And>i. i < m_itagMicFree p \<Longrightarrow> Cb p i \<noteq> 0 \<Longrightarrow> Ib q i + Cb p i \<le> ibMicFree (pghdr q)"
    and "\<And>i j. i < m_itagMicFree p \<Longrightarrow> j < m_itagMicFree p \<Longrightarrow> i \<noteq> j \<Longrightarrow> apart q i j"
    and "ibMicFree (pghdr q) + 4 * m_itagMicFree p \<le> length (rgb p)" and "page_inv p"
  shows "page_inv q"
proof -
  have "(\<Sum>i<m_itagMicFree p. Cb q i) = (\<Sum>i<m_itagMicFree p. Cb p i)" using assms(7) by (intro sum.cong) auto
  moreover have "msk q = msk p" "CbBuffer q = CbBuffer p" using assms by (simp_all add: msk_def CbBuffer_def CbPageHeader_def)
  ultimately show ?thesis using assms inv_facts [OF assms(11)] by (auto simp: page_inv_def)
qed

lemma scrub_tail:
  assumes "page_inv p" and "b = set_bytes p (ibMicFree (pghdr p)) bs" and "ibMicFree (pghdr p) + length bs + 4 * m_itagMicFree p \<le> length (rgb p)"
  shows "page_inv b" and "lines b = lines p" and "frame p b"
proof -
  note inv = inv_facts [OF assms(1)]
  show fr: "frame p b" using assms(3) by (simp add: assms(2) frame_set_bytes)
  have tags: "Ib b i = Ib p i" "Cb b i = Cb p i" "tag_flags b i = tag_flags p i" if "i < m_itagMicFree p" for i
    using that assms(3) tag_fields_set_bytes [OF inv_slot [OF assms(1) that]] by (simp_all add: assms(2))
  have "line_bytes b i = line_bytes p i" if "i < m_itagMicFree p" for i
    using tags [OF that] inv(6) [OF that] assms(3)
    by (cases "Cb p i = 0") (simp_all add: line_bytes_def assms(2) subbuf_blit_disjoint)
  then have "line b i = line p i" if "i < m_itagMicFree p" for i
    using that tags(3) frameD(3) [OF fr] by (intro line_cong) auto
  then show "lines b = lines p" using frameD(4) [OF fr] by (simp add: lines_def)
  have ap: "apart b i j" if "i < m_itagMicFree p" "j < m_itagMicFree p" "i \<noteq> j" for i j
    using inv(7) [OF that] tags that by (simp add: apart_def)
  show "page_inv b"
    by (rule inv_frame_hdr [where p = p]) (simp_all add: frameD(1-8) [OF fr] tags inv(5,6) assms(1) ap)
qed

theorem ReorganizeData_ok:
  assumes "page_inv p"
  shows "\<exists>p'. ReorganizeData p = Some p' \<and> page_inv p' \<and> lines p' = lines p
    \<and> pghdr p' = (pghdr p)\<lparr>ibMicFree := (\<Sum>i<m_itagMicFree p. Cb p i)\<rparr> \<and> CbContiguousFree p' = int (cbFree (pghdr p))
    \<and> p' = p\<lparr>pghdr := pghdr p', rgb := rgb p'\<rparr> \<and> length (rgb p') = length (rgb p)
    \<and> (\<forall>i<m_itagMicFree p. Cb p' i = Cb p i \<and> (m_fSmallFormat p \<longrightarrow> tag_flags p' i = tag_flags p i))"
proof -
  note inv = inv_facts [OF assms]
  let ?n = "m_itagMicFree p" and ?xs = "sort_key (Ib p) [0..<m_itagMicFree p]"
  have sum: "(\<Sum>i\<leftarrow>?xs. Cb p i) = (\<Sum>i<?n. Cb p i)"
    using sum.distinct_set_conv_list [of ?xs "Cb p"] by (simp add: atLeast0LessThan)
  have "\<exists>q'. move_lines ?xs p 0 = Some (q', 0 + (\<Sum>i\<leftarrow>?xs. Cb p i)) \<and> frame p q' \<and> 0 + (\<Sum>i\<leftarrow>?xs. Cb p i) \<le> ibMicFree (pghdr p)
    \<and> (\<forall>j<?n. Cb q' j = Cb p j \<and> (m_fSmallFormat p \<longrightarrow> tag_flags q' j = tag_flags p j) \<and> (j \<notin> set ?xs \<longrightarrow> Ib q' j = Ib p j))
    \<and> (\<forall>i\<in>set ?xs. line_bytes q' i = line_bytes p i \<and> 0 \<le> Ib q' i \<and> Ib q' i + Cb p i \<le> 0 + (\<Sum>i\<leftarrow>?xs. Cb p i))
    \<and> (\<forall>i\<in>set ?xs. \<forall>j\<in>set ?xs. i \<noteq> j \<longrightarrow> apart q' i j)
    \<and> (\<forall>k m. k + m \<le> 0 \<longrightarrow> subbuf k m (rgb q') = subbuf k m (rgb p))"
    using inv msk_bound [of p] sorted_tags_apart [OF assms] by (intro move_lines_ok) auto
  then obtain q where q: "move_lines ?xs p 0 = Some (q, \<Sum>i<?n. Cb p i)" "frame p q" "(\<Sum>i<?n. Cb p i) \<le> ibMicFree (pghdr p)"
    "\<And>j. j < ?n \<Longrightarrow> Cb q j = Cb p j \<and> (m_fSmallFormat p \<longrightarrow> tag_flags q j = tag_flags p j)"
    "\<And>i. i < ?n \<Longrightarrow> line_bytes q i = line_bytes p i \<and> Ib q i + Cb p i \<le> (\<Sum>i<?n. Cb p i)"
    "\<And>i j. i < ?n \<Longrightarrow> j < ?n \<Longrightarrow> i \<noteq> j \<Longrightarrow> apart q i j"
    unfolding sum by auto
  note fr = frameD [OF q(2)]
  define r where "r = set_ibMicFree (int (\<Sum>i<?n. Cb p i)) q"
  have small: "(\<Sum>i<?n. Cb p i) < 65536" using q(3) inv(5,9) by linarith
  have r: "rgb r = rgb q" "pghdr r = (pghdr p)\<lparr>ibMicFree := (\<Sum>i<?n. Cb p i)\<rparr>" "r = p\<lparr>pghdr := pghdr r, rgb := rgb r\<rparr>"
    "m_itagMicFree r = ?n" "m_fSmallFormat r = m_fSmallFormat p" "m_ctagReserved r = m_ctagReserved p" "m_cbPage r = m_cbPage p"
    using small set_ibMicFree_frame [OF q(2)] by (simp_all add: r_def fr(1-7) del: of_nat_sum)
  have tags: "Cb r i = Cb q i" "Ib r i = Ib q i" "tag_flags r i = tag_flags q i" "line_bytes r i = line_bytes q i" for i
    using get_tag_rgb [OF r(1)] r(5) fr(3) by (simp_all add: Cb_def Ib_def tag_flags_def line_bytes_def r(1))
  have ap: "apart r i j" if "i < ?n" "j < ?n" "i \<noteq> j" for i j using q(6) [OF that] by (simp add: apart_def tags)
  have inv_r: "page_inv r"
    by (rule inv_frame_hdr [where p = p]) (use q(3,4,5) inv(5) in \<open>simp_all add: r(1,2,4-7) fr(8) tags assms ap\<close>)
  have "line r i = line p i" if "i < ?n" for i
    using q(4,5) [OF that] r(5) by (intro line_cong) (simp_all add: tags)
  then have lines_r: "lines r = lines p" by (simp add: lines_def r(4))
  define b where "b = (if m_fRuntimeScrubbingEnabled r
    then set_bytes r (ibMicFree (pghdr r)) (replicate (nat (CbContiguousBufferFree r)) (of_char CHR ''O'')) else r)"
  have res: "ReorganizeData p = Some b" by (simp add: ReorganizeData_def q(1) Let_def b_def r_def)
  have b: "page_inv b" "lines b = lines r" "frame r b"
    using scrub_tail [OF inv_r, of b] inv_facts(5) [OF inv_r] inv_r by (auto simp: b_def sizes_eq(3) split: if_splits)
  note frb = frameD [OF b(3)]
  have "Cb b i = Cb r i \<and> tag_flags b i = tag_flags r i" if "i < ?n" for i
    using that tag_fields_set_bytes [OF inv_slot [OF inv_r, of i]] inv_facts(5) [OF inv_r]
    by (auto simp: b_def r(4) sizes_eq(3))
  then have tags_b: "Cb b i = Cb p i \<and> (m_fSmallFormat p \<longrightarrow> tag_flags b i = tag_flags p i)" if "i < ?n" for i
    using that q(4) tags by simp
  have whole: "b = p\<lparr>pghdr := pghdr b, rgb := rgb b\<rparr>"
    using b(3) r(3) by (cases p; cases b; cases r) (simp add: frame_def)
  have free: "CbContiguousFree b = int (cbFree (pghdr p))"
    using inv_facts(4) [OF b(1)] by (simp add: sizes_eq(4) frb(1,4,8) r(1,2,4) fr(8) flip: inv(8))
  have hdr: "pghdr b = (pghdr p)\<lparr>ibMicFree := (\<Sum>i<?n. Cb p i)\<rparr>" using frb(1) r(2) by (rule trans)
  have len: "length (rgb b) = length (rgb p)" using frb(8) r(1) fr(8) by simp
  have "\<forall>i<?n. Cb b i = Cb p i \<and> (m_fSmallFormat p \<longrightarrow> tag_flags b i = tag_flags p i)" using tags_b by blast
  from res b(1) trans [OF b(2) lines_r] hdr free whole len this show ?thesis by blast
qed

text \<open>
  \<open>relaid\<close> relates a page to the page after a compaction: the lines, the sizes of the tags and
  everything but the layout are the same.
\<close>

definition relaid :: "CPAGE \<Rightarrow> CPAGE \<Rightarrow> bool" where
  "relaid p q \<longleftrightarrow> page_inv q \<and> lines q = lines p \<and> length (rgb q) = length (rgb p)
     \<and> (\<exists>ib. pghdr q = (pghdr p)\<lparr>ibMicFree := ib\<rparr>) \<and> q = p\<lparr>pghdr := pghdr q, rgb := rgb q\<rparr>
     \<and> (\<forall>i<m_itagMicFree p. Cb q i = Cb p i \<and> (m_fSmallFormat p \<longrightarrow> tag_flags q i = tag_flags p i))"

lemma relaidD:
  assumes "relaid p q"
  shows "page_inv q" "lines q = lines p" "length (rgb q) = length (rgb p)" "cbFree (pghdr q) = cbFree (pghdr p)"
    "m_fSmallFormat q = m_fSmallFormat p" "m_itagMicFree q = m_itagMicFree p" "m_ctagReserved q = m_ctagReserved p"
    "m_cbPage q = m_cbPage p" "m_fRuntimeScrubbingEnabled q = m_fRuntimeScrubbingEnabled p"
    "m_fResvTagFormatEnabled q = m_fResvTagFormatEnabled p" "itagState (pghdr q) = itagState (pghdr p)"
    "i < m_itagMicFree p \<Longrightarrow> Cb q i = Cb p i" "i < m_itagMicFree p \<Longrightarrow> m_fSmallFormat p \<Longrightarrow> tag_flags q i = tag_flags p i"
proof -
  have q: "q = p\<lparr>pghdr := pghdr q, rgb := rgb q\<rparr>" using assms by (simp add: relaid_def)
  show "page_inv q" "lines q = lines p" "length (rgb q) = length (rgb p)" "cbFree (pghdr q) = cbFree (pghdr p)"
    "itagState (pghdr q) = itagState (pghdr p)"
    "i < m_itagMicFree p \<Longrightarrow> Cb q i = Cb p i" "i < m_itagMicFree p \<Longrightarrow> m_fSmallFormat p \<Longrightarrow> tag_flags q i = tag_flags p i"
    using assms by (auto simp: relaid_def)
  show "m_fSmallFormat q = m_fSmallFormat p" by (subst q) simp
  show "m_itagMicFree q = m_itagMicFree p" by (subst q) simp
  show "m_ctagReserved q = m_ctagReserved p" by (subst q) simp
  show "m_cbPage q = m_cbPage p" by (subst q) simp
  show "m_fRuntimeScrubbingEnabled q = m_fRuntimeScrubbingEnabled p" by (subst q) simp
  show "m_fResvTagFormatEnabled q = m_fResvTagFormatEnabled p" by (subst q) simp
qed

lemma relaid_refl: "page_inv p \<Longrightarrow> relaid p p"
  unfolding relaid_def by (metis CPAGE.surjective CPAGE.update_convs(1,2) PGHDR.surjective PGHDR.update_convs(8))

theorem FreeSpace_ok:
  assumes "page_inv p" and "int cb \<le> int (cbFree (pghdr p))"
  shows "\<exists>q. FreeSpace p (int cb) = Some q \<and> relaid p q \<and> ibMicFree (pghdr q) + 4 * m_itagMicFree p + cb \<le> length (rgb p)"
proof -
  have room: "ibMicFree (pghdr q) + 4 * m_itagMicFree p + cb \<le> length (rgb p)"
    if "relaid p q" "CbContiguousFree q \<ge> int cb" for q
    using that(2) sizes_eq(4) [OF inv_facts(4) [OF relaidD(1) [OF that(1)]]] relaidD(3,6) [OF that(1)] by simp
  show ?thesis
  proof (cases "CbContiguousFree p < int cb")
    case True
    obtain q where "ReorganizeData p = Some q" "relaid p q" "CbContiguousFree q = int (cbFree (pghdr p))"
      using ReorganizeData_ok [OF assms(1)] unfolding relaid_def by blast
    then show ?thesis using True assms(2) room [of q] by (simp add: FreeSpace_def)
  next
    case False
    then show ?thesis using room [OF relaid_refl [OF assms(1)]] relaid_refl [OF assms(1)] by (simp add: FreeSpace_def)
  qed
qed

end
