(* ===== verification/Cpage_Lines.thy ===== *)
theory Cpage_Lines
  imports Cpage_Reorg
begin

unbundle bit_operations_syntax

text \<open>
  The operations that change the lines of a page. Each keeps the page invariant, and its
  effect on the list of lines is the list operation of the same name. \<open>ExpandTagArray\<close>, with
  its unrolled copy loop, and \<open>copy_tags_back\<close> are shown to renumber the tags behind one tag.
\<close>

section \<open>What a page shows\<close>

lemma view_rgb:
  assumes "rgb q = rgb p" and "m_fSmallFormat q = m_fSmallFormat p"
  shows "Cb q = Cb p" "Ib q = Ib p" "tag_flags q = tag_flags p" "line_bytes q = line_bytes p" "line q = line p"
    "slot q = slot p" "msk q = msk p" "apart q = apart p"
  using get_tag_rgb [OF assms(1)] assms
  by (simp_all add: fun_eq_iff Cb_def Ib_def tag_flags_def line_bytes_def line_def slot_def msk_def apart_def)

lemmas view_hdr [simp] =
  view_rgb [of "set_cbFree i p" p for i p, simplified] view_rgb [of "set_ibMicFree i p" p for i p, simplified]
  view_rgb [of "upd_hdr g p" p for g p, simplified]

lemma SetITagState_sel [simp]:
  "rgb (SetITagState p n c) = rgb p" "m_cbPage (SetITagState p n c) = m_cbPage p"
  "m_fSmallFormat (SetITagState p n c) = m_fSmallFormat p"
  "m_itagMicFree (SetITagState p n c) = ushort (int n)" "m_ctagReserved (SetITagState p n c) = ushort (int c)"
  "m_fRuntimeScrubbingEnabled (SetITagState p n c) = m_fRuntimeScrubbingEnabled p"
  "m_fResvTagFormatEnabled (SetITagState p n c) = m_fResvTagFormatEnabled p"
  "cbFree (pghdr (SetITagState p n c)) = cbFree (pghdr p)" "ibMicFree (pghdr (SetITagState p n c)) = ibMicFree (pghdr p)"
  by (simp_all add: SetITagState_def Let_def)

lemmas view_state [simp] = view_rgb [of "SetITagState p n c" p for p n c, simplified]

text \<open>The invariant without the count of free bytes.\<close>

definition laid :: "CPAGE \<Rightarrow> bool" where
  "laid p \<longleftrightarrow>
     1 \<le> m_ctagReserved p \<and> m_ctagReserved p \<le> m_itagMicFree p \<and> length (rgb p) \<le> msk p \<and> m_cbPage p = CbBuffer p
     \<and> ibMicFree (pghdr p) + 4 * m_itagMicFree p \<le> length (rgb p)
     \<and> (\<forall>i < m_itagMicFree p. Cb p i \<noteq> 0 \<longrightarrow> Ib p i + Cb p i \<le> ibMicFree (pghdr p))
     \<and> (\<forall>i < m_itagMicFree p. \<forall>j < m_itagMicFree p. i \<noteq> j \<longrightarrow> apart p i j)"

definition used :: "CPAGE \<Rightarrow> nat" where
  "used p = (\<Sum>i<m_itagMicFree p. Cb p i) + 4 * m_itagMicFree p"

lemma page_inv_laid: "page_inv p \<longleftrightarrow> laid p \<and> cbFree (pghdr p) + used p = length (rgb p)"
  by (auto simp: page_inv_def laid_def used_def)

lemma laid_facts:
  assumes "laid p"
  shows "1 \<le> m_ctagReserved p" "m_ctagReserved p \<le> m_itagMicFree p" "length (rgb p) \<le> msk p" "m_cbPage p = CbBuffer p"
    "ibMicFree (pghdr p) + 4 * m_itagMicFree p \<le> length (rgb p)"
    "\<And>i. i < m_itagMicFree p \<Longrightarrow> Cb p i \<noteq> 0 \<Longrightarrow> Ib p i + Cb p i \<le> ibMicFree (pghdr p)"
    "\<And>i j. i < m_itagMicFree p \<Longrightarrow> j < m_itagMicFree p \<Longrightarrow> i \<noteq> j \<Longrightarrow> apart p i j"
    "length (rgb p) < 65536" "\<And>i. i < m_itagMicFree p \<Longrightarrow> slot p i"
  using assms msk_bound [of p] by (auto simp: laid_def slot_def)

section \<open>Renumbering\<close>

definition skip :: "nat \<Rightarrow> nat \<Rightarrow> nat" where
  "skip k i = (if i < k then i else Suc i)"

lemma skip_simps [simp]:
  "skip k i \<noteq> k" "skip k i = skip k j \<longleftrightarrow> i = j" "k \<le> n \<Longrightarrow> skip k i < Suc n \<longleftrightarrow> i < n"
  by (auto simp: skip_def)

lemma skip_cases: "i < Suc n \<Longrightarrow> k \<le> n \<Longrightarrow> i = k \<or> (\<exists>j<n. i = skip k j)"
  by (cases "i < k") (auto simp: skip_def intro: exI [of _ "i - 1"])

lemma sum_skip: "k \<le> n \<Longrightarrow> (\<Sum>i<Suc n. f i) = f k + (\<Sum>i<n. f (skip k i))" for f :: "nat \<Rightarrow> nat"
proof -
  assume k: "k \<le> n"
  have "{..<Suc n} = insert k (skip k ` {..<n})" using k skip_cases [OF _ k] by force
  moreover have "k \<notin> skip k ` {..<n}" by (auto simp: skip_def split: if_splits)
  moreover have "inj_on (skip k) {..<n}" by (simp add: inj_on_def)
  ultimately show ?thesis by (simp add: sum.reindex)
qed

lemma map_skip:
  assumes "k \<le> n" and "\<And>i. i < n \<Longrightarrow> f (skip k i) = g i"
  shows "map f [0..<Suc n] = take k (map g [0..<n]) @ f k # drop k (map g [0..<n])"
proof (rule nth_equalityI)
  fix i assume "i < length (map f [0..<Suc n])"
  then have "i < Suc n" by simp
  then consider "i = k" | j where "j < n" "i = skip k j" using skip_cases assms(1) by blast
  then show "map f [0..<Suc n] ! i = (take k (map g [0..<n]) @ f k # drop k (map g [0..<n])) ! i"
  proof cases
    case 2
    have "map f [0..<Suc n] ! i = f i" using \<open>i < Suc n\<close> by (simp del: upt_Suc)
    then show ?thesis using 2 assms by (auto simp: skip_def nth_append nth_Cons' min_def simp del: upt_Suc split: if_splits)
  qed (use assms(1) in \<open>simp add: nth_append min_def del: upt_Suc\<close>)
qed (use assms(1) in simp)

text \<open>Two pages, where the second one has the tags of the first and one more tag \<open>k\<close>.\<close>

definition extends :: "nat \<Rightarrow> CPAGE \<Rightarrow> CPAGE \<Rightarrow> bool" where
  "extends k p q \<longleftrightarrow> k \<le> m_itagMicFree p \<and> m_itagMicFree q = Suc (m_itagMicFree p)
     \<and> (\<forall>i<m_itagMicFree p. Cb q (skip k i) = Cb p i \<and> line q (skip k i) = line p i)"

lemma extends_used: "extends k p q \<Longrightarrow> used q = used p + Cb q k + 4"
  using sum_skip [of k "m_itagMicFree p" "Cb q"] by (simp add: extends_def used_def del: sum.lessThan_Suc)

lemma extends_lines: "extends k p q \<Longrightarrow> lines q = take k (lines p) @ line q k # drop k (lines p)"
  using map_skip [of k "m_itagMicFree p" "line q" "line p"] by (simp add: extends_def lines_def del: upt_Suc)

lemma extends_lines_back: "extends k p q \<Longrightarrow> lines p = take k (lines q) @ drop (Suc k) (lines q)"
  by (simp add: extends_lines) (simp add: extends_def lines_def)

section \<open>Making room in the tag array\<close>

lemma move_dword_tag:
  assumes "slot p (Suc i)"
  shows "move_dword p (PtagFromItag p (Suc i)) = put_tag p (Suc i) (get_tag p i)"
proof -
  let ?a = "PtagFromItag p (Suc i)"
  have a: "?a + 4 = PtagFromItag p i" "?a + 8 \<le> length (rgb p)"
    using ptag_slot [OF assms] ptag_slot [OF slot_mono [OF assms, of i]] by simp_all
  have "subbuf (?a + 4) 4 (rgb p) = subbuf (?a + 4) 2 (rgb p) @ subbuf (?a + 6) 2 (rgb p)"
    using a(2) by (intro nth_equalityI) (auto simp: nth_append add.commute add.left_commute)
  moreover have "put_tag p (Suc i) (get_tag p i) = set_bytes (set_bytes p ?a (subbuf (?a + 4) 2 (rgb p))) (?a + 2) (subbuf (?a + 6) 2 (rgb p))"
    using a(2) by (simp add: put_tag_def get_tag_def Let_def a(1) [symmetric] add.commute)
  moreover have "blit (blit (rgb p) ?a (subbuf (?a + 4) 2 (rgb p))) (?a + 2) (subbuf (?a + 6) 2 (rgb p))
    = blit (rgb p) ?a (subbuf (?a + 4) 2 (rgb p) @ subbuf (?a + 6) 2 (rgb p))"
    using a(2) blit_append [of ?a "subbuf (?a + 4) 2 (rgb p)" "subbuf (?a + 6) 2 (rgb p)" "rgb p"] by simp
  ultimately show ?thesis by (simp add: move_dword_def set_bytes_def)
qed

text \<open>Moving \<open>c\<close> tags from tag \<open>n\<close> downwards.\<close>

definition shifted :: "nat \<Rightarrow> nat \<Rightarrow> CPAGE \<Rightarrow> CPAGE \<Rightarrow> bool" where
  "shifted n c p q \<longleftrightarrow> frame p q
     \<and> (\<forall>j. slot p j \<longrightarrow> get_tag q j = (if n - c < j \<and> j \<le> n then get_tag p (j - 1) else get_tag p j))
     \<and> (\<forall>k m. k + m + 4 * (n + 1) \<le> length (rgb p) \<longrightarrow> subbuf k m (rgb q) = subbuf k m (rgb p))"

lemma move_dwords_add: "move_dwords (a + b) p pdw = (case move_dwords a p pdw of (q, pdw') \<Rightarrow> move_dwords b q pdw')"
  by (induction a p pdw rule: move_dwords.induct) auto

lemma move_dwords_end: "snd (move_dwords n p pdw) = pdw + 4 * n"
  by (induction n p pdw rule: move_dwords.induct) auto

lemma move_dwords_shift:
  "c \<le> n \<Longrightarrow> slot p n \<Longrightarrow> shifted n c p (fst (move_dwords c p (PtagFromItag p n)))"
proof (induction c arbitrary: p n)
  case 0
  then show ?case by (auto simp: shifted_def)
next
  case (Suc c)
  then obtain m where n: "n = Suc m" by (cases n) auto
  define p1 where "p1 = put_tag p n (get_tag p m)"
  have slots: "slot p m" using slot_mono Suc.prems(2) n by auto
  have p1: "length (rgb p1) = length (rgb p)" "frame p p1" "slot p1 j \<longleftrightarrow> slot p j" for j
    using Suc.prems by (auto simp: p1_def intro!: frameI)
  have a: "PtagFromItag p n + 4 = PtagFromItag p1 m"
    using ptag_slot [OF Suc.prems(2)] ptag_slot [OF slots] p1(1) n by (simp add: PtagFromItag_def)
  have eq: "move_dwords (Suc c) p (PtagFromItag p n) = move_dwords c p1 (PtagFromItag p1 m)"
    using move_dword_tag [of p m] Suc.prems(2) by (simp add: n p1_def flip: a [unfolded n p1_def])
  have IH: "shifted m c p1 (fst (move_dwords c p1 (PtagFromItag p1 m)))"
    using Suc.IH [of m p1] Suc.prems slots p1(3) n by simp
  have tag: "get_tag p1 j = (if j = n then get_tag p m else get_tag p j)" if "slot p j" for j
    using get_put_tag [OF Suc.prems(2) that] by (auto simp: p1_def)
  have "get_tag p1 (j - 1) = get_tag p (j - 1)" if "j \<le> m" "slot p j" for j
    using that tag [of "j - 1"] slot_mono [of p j "j - 1"] n by auto
  then show ?case
    using IH frame_trans [OF p1(2)] tag subbuf_put_tag [OF Suc.prems(2), of _ _ "get_tag p m", folded p1_def] p1(1,3) n
    unfolding eq shifted_def by (auto simp: le_Suc_eq)
qed

lemma duff_rounds_eq: "duff_rounds p pdw (pdw + 32 * m) = fst (move_dwords (8 * m) p pdw)"
proof (induction m arbitrary: p pdw)
  case 0
  then show ?case by (simp add: duff_rounds.simps)
next
  case (Suc m)
  obtain q where q: "move_dwords 8 p pdw = (q, pdw + 32)"
    using move_dwords_end [of 8 p pdw] by (cases "move_dwords 8 p pdw") auto
  have "duff_rounds p pdw (pdw + 32 * Suc m) = duff_rounds q (pdw + 32) ((pdw + 32) + 32 * m)"
    by (subst duff_rounds.simps) (simp add: q add.assoc)
  also have "\<dots> = fst (move_dwords (8 + 8 * m) p pdw)" unfolding Suc.IH move_dwords_add q by simp
  finally show ?case by simp
qed

text \<open>The loop entered in the middle moves each tag once.\<close>

lemma duff_device:
  assumes "0 < c"
  shows "(case move_dwords (if c mod 8 = 0 then 8 else c mod 8) p pdw of (q, pdw') \<Rightarrow> duff_rounds q pdw' (pdw + 4 * c))
    = fst (move_dwords c p pdw)"
proof -
  define first where "first = (if c mod 8 = 0 then 8 else c mod 8)"
  have "first \<le> c" using assms by (auto simp: first_def dest: mod_0_imp_dvd dvd_imp_le)
  moreover have "8 dvd c - first" unfolding first_def by (auto simp: dvd_minus_mod mod_0_imp_dvd)
  ultimately obtain m where c: "c = first + 8 * m" by (metis dvdE le_add_diff_inverse)
  obtain q where q: "move_dwords first p pdw = (q, pdw + 4 * first)"
    using move_dwords_end [of first p pdw] by (cases "move_dwords first p pdw") auto
  have "duff_rounds q (pdw + 4 * first) (pdw + 4 * c) = fst (move_dwords (8 * m) q (pdw + 4 * first))"
    using duff_rounds_eq [of q "pdw + 4 * first" m] c by (simp add: algebra_simps)
  then have "(case move_dwords first p pdw of (q, pdw') \<Rightarrow> duff_rounds q pdw' (pdw + 4 * c)) = fst (move_dwords c p pdw)"
    using q move_dwords_add [of first "8 * m" p pdw] c by simp
  then show ?thesis by (simp only: first_def)
qed

lemma ExpandTagArray_eq:
  assumes "k \<le> m_itagMicFree p" and "slot p (m_itagMicFree p)"
  obtains s where "ExpandTagArray p k = SetITagMicFree s (m_itagMicFree p + 1)"
    and "shifted (m_itagMicFree p) (m_itagMicFree p - k) p s"
proof (cases "k = m_itagMicFree p")
  case True
  show ?thesis
    by (rule that [of p]) (use True in \<open>auto simp: ExpandTagArray_def shifted_def\<close>)
next
  case False
  let ?n = "m_itagMicFree p"
  have sh: "shifted ?n (?n - k) p (fst (move_dwords (?n - k) p (PtagFromItag p ?n)))"
    by (rule move_dwords_shift) (use assms in auto)
  then have n: "m_itagMicFree (fst (move_dwords (?n - k) p (PtagFromItag p ?n))) = ?n"
    unfolding shifted_def by (blast dest: frameD(4))
  show ?thesis
    by (rule that [OF _ sh])
      (use False assms n duff_device [where c = "?n - k" and p = p and pdw = "PtagFromItag p ?n"]
        in \<open>simp add: ExpandTagArray_def Let_def\<close>)
qed

lemma shifted_view:
  assumes "shifted n (n - k) p s" and "slot p n" and "k \<le> n" and "i < n"
  shows "Cb s (skip k i) = Cb p i" "Ib s (skip k i) = Ib p i" "tag_flags s (skip k i) = tag_flags p i"
proof -
  have "slot p (skip k i)" using slot_mono [OF assms(2)] assms(4) by (auto simp: skip_def)
  then have "get_tag s (skip k i) = get_tag p i"
    using assms unfolding shifted_def by (auto simp: skip_def)
  moreover have "m_fSmallFormat s = m_fSmallFormat p" using assms(1) unfolding shifted_def by (blast dest: frameD(3))
  ultimately show "Cb s (skip k i) = Cb p i" "Ib s (skip k i) = Ib p i" "tag_flags s (skip k i) = tag_flags p i"
    by (simp_all add: Cb_def Ib_def tag_flags_def)
qed

section \<open>Clearing and filling one tag\<close>

lemma clear_tag:
  assumes "slot q k" and "E = SetFlags (SetIb (SetCb q k 0) k 0) k 0 \<or> E = SetFlags (SetCb (SetIb q k 0) k 0) k 0"
  shows "frame q E" and "slot q j \<Longrightarrow> Cb E j = (if j = k then 0 else Cb q j)" and "slot q j \<Longrightarrow> Ib E j = (if j = k then 0 else Ib q j)"
    and "slot q j \<Longrightarrow> m_fSmallFormat q \<Longrightarrow> tag_flags E j = (if j = k then 0 else tag_flags q j)"
    and "a + m + 4 * (k + 1) \<le> length (rgb q) \<Longrightarrow> subbuf a m (rgb E) = subbuf a m (rgb q)"
proof -
  have fl: "SetFlags r k 0 = put_flags r k 0" if "Cb r k = 0" for r
    using that by (auto simp: SetFlags_def put_flags_def Let_def)
  have s: "slot (SetCb r k 0) j \<longleftrightarrow> slot r j" "slot (SetIb r k 0) j \<longleftrightarrow> slot r j" if "slot r k" for r j
    using that by (simp_all add: slot_def)
  have m: "msk (SetCb r k 0) = msk r" "msk (SetIb r k 0) = msk r" for r by (simp_all add: msk_def)
  define R where "R = (if E = SetFlags (SetIb (SetCb q k 0) k 0) k 0 then SetIb (SetCb q k 0) k 0 else SetCb (SetIb q k 0) k 0)"
  have R: "slot R j \<longleftrightarrow> slot q j" "slot q j \<Longrightarrow> Cb R j = (if j = k then 0 else Cb q j)" "slot q j \<Longrightarrow> Ib R j = (if j = k then 0 else Ib q j)"
    "slot q j \<Longrightarrow> m_fSmallFormat q \<Longrightarrow> tag_flags R j = tag_flags q j" "m_fSmallFormat R = m_fSmallFormat q"
    "a + m + 4 * (k + 1) \<le> length (rgb q) \<Longrightarrow> subbuf a m (rgb R) = subbuf a m (rgb q)" "frame q R" for j a m
    using assms(1) s m
    by (auto simp: R_def Cb_SetCb Cb_SetIb Ib_SetCb Ib_SetIb tag_flags_SetIb tag_flags_SetCb subbuf_SetIb subbuf_SetCb intro!: frameI)
  have E: "E = put_flags R k 0"
    using assms fl [of R] R(2) by (auto simp: R_def)
  note len = frameD(8) [OF R(7)]
  show "frame q E" using R(1) assms(1) len frameD(1-7) [OF R(7)] by (intro frameI) (simp_all add: E)
  show "slot q j \<Longrightarrow> Cb E j = (if j = k then 0 else Cb q j)" "slot q j \<Longrightarrow> Ib E j = (if j = k then 0 else Ib q j)"
    using R(1-3) assms(1) by (simp_all add: E Cb_put_flags Ib_put_flags)
  show "slot q j \<Longrightarrow> m_fSmallFormat q \<Longrightarrow> tag_flags E j = (if j = k then 0 else tag_flags q j)"
    using R(1,4,5) assms(1) by (simp add: E tag_flags_put_flags)
  show "a + m + 4 * (k + 1) \<le> length (rgb q) \<Longrightarrow> subbuf a m (rgb E) = subbuf a m (rgb q)"
    using R(1,6) assms(1) len by (simp add: E subbuf_put_flags)
qed

text \<open>The line that the data and the flags of an operation make.\<close>

definition new_line :: "bool \<Rightarrow> nat \<Rightarrow> USHORT \<Rightarrow> BYTE list \<Rightarrow> BYTE list \<times> USHORT" where
  "new_line fSmallFormat itag f bs =
     (stamp fSmallFormat itag f bs, if fSmallFormat then f else line_flags (stamp fSmallFormat itag f bs))"

text \<open>
  The common end of insertion and replacement: \<open>P\<close> is the page \<open>p\<close> after tag \<open>k\<close> got the offset
  \<open>ib\<close> and the length \<open>cb\<close> of the data, and the header its new counters. The room for the line
  is free in \<open>p\<close>.
\<close>

definition prepared :: "CPAGE \<Rightarrow> CPAGE \<Rightarrow> nat \<Rightarrow> nat \<Rightarrow> nat \<Rightarrow> bool" where
  "prepared p P k ib cb \<longleftrightarrow> laid p \<and> k < m_itagMicFree p
     \<and> (cb \<noteq> 0 \<longrightarrow> ib + cb + 4 * m_itagMicFree p \<le> length (rgb p) \<and> ib + cb \<le> ibMicFree (pghdr P))
     \<and> Ib P k = ib \<and> Cb P k = cb \<and> m_fSmallFormat P = m_fSmallFormat p \<and> length (rgb P) = length (rgb p)
     \<and> m_itagMicFree P = m_itagMicFree p \<and> m_ctagReserved P = m_ctagReserved p \<and> m_cbPage P = m_cbPage p
     \<and> ibMicFree (pghdr P) + 4 * m_itagMicFree p \<le> length (rgb p)
     \<and> (\<forall>j < m_itagMicFree p. j \<noteq> k \<longrightarrow> Cb P j = Cb p j \<and> (Cb p j \<noteq> 0 \<longrightarrow> Ib P j = Ib p j) \<and> (m_fSmallFormat p \<longrightarrow> tag_flags P j = tag_flags p j))
     \<and> (\<forall>a m. a + m + 4 * m_itagMicFree p \<le> length (rgb p) \<longrightarrow> subbuf a m (rgb P) = subbuf a m (rgb p))
     \<and> (\<forall>j < m_itagMicFree p. j \<noteq> k \<longrightarrow> Cb p j \<noteq> 0 \<longrightarrow>
          (cb = 0 \<or> Ib p j + Cb p j \<le> ib \<or> ib + cb \<le> Ib p j) \<and> Ib p j + Cb p j \<le> ibMicFree (pghdr P))"

lemma fill_tag:
  assumes prep: "prepared p P k ib (length (concat rgdata))" and "f < 8" and n: "m_itagMicFree p = n"
  defines "R \<equiv> CopyData (SetFlags P k f) k rgdata"
  shows "frame P R" and "Cb R k = length (concat rgdata)" and "Ib R k = ib"
    and "line R k = new_line (m_fSmallFormat p) k f (concat rgdata)"
    and "j < n \<Longrightarrow> j \<noteq> k \<Longrightarrow> Cb R j = Cb p j \<and> (Cb p j \<noteq> 0 \<longrightarrow> Ib R j = Ib p j) \<and> line R j = line p j"
proof -
  let ?bs = "stamp (m_fSmallFormat p) k f (concat rgdata)"
  have k: "k < m_itagMicFree p" and lp0: "laid p" and fit: "length (concat rgdata) \<noteq> 0 \<Longrightarrow> ib + length (concat rgdata) + 4 * n \<le> length (rgb p)"
    and ib: "Ib P k = ib" "Cb P k = length (concat rgdata)" and P: "m_fSmallFormat P = m_fSmallFormat p" "length (rgb P) = length (rgb p)"
    and others: "\<And>j. j < n \<Longrightarrow> j \<noteq> k \<Longrightarrow> Cb P j = Cb p j \<and> (Cb p j \<noteq> 0 \<longrightarrow> Ib P j = Ib p j) \<and> (m_fSmallFormat p \<longrightarrow> tag_flags P j = tag_flags p j)"
    and bytes: "\<And>a m. a + m + 4 * n \<le> length (rgb p) \<Longrightarrow> subbuf a m (rgb P) = subbuf a m (rgb p)"
    and clear: "\<And>j. j < n \<Longrightarrow> j \<noteq> k \<Longrightarrow> Cb p j \<noteq> 0 \<Longrightarrow> length (concat rgdata) = 0 \<or> Ib p j + Cb p j \<le> ib \<or> ib + length (concat rgdata) \<le> Ib p j"
    using prep n unfolding prepared_def by blast+
  note lp = laid_facts [OF lp0]
  have slots: "slot P j" if "j < n" for j using that lp(9) n P(2) by (simp add: slot_def)
  have bs: "length (concat rgdata) = 0 \<Longrightarrow> ?bs = []" by (simp add: stamp_def)
  have R: "R = set_bytes (put_flags P k f) ib ?bs"
    using write_line [of P k f rgdata] write_empty [of P k f rgdata] slots [of k] k n ib fit assms(2) P bs
    by (cases "length (concat rgdata) = 0") (simp_all add: R_def)
  have sF: "slot (put_flags P k f) j" if "j < n" for j
    using slots [OF that] slots [of k] k n by (simp add: slot_def)
  have lenF: "length (rgb (put_flags P k f)) = length (rgb p)" using slots [of k] k n P(2) by simp
  have frF: "frame P (put_flags P k f)" using lenF P(2) by (intro frameI) simp_all
  show fr: "frame P R"
    using frame_trans [OF frF frame_set_bytes, of ib ?bs] frF lenF fit bs
    by (cases "length (concat rgdata) = 0") (simp_all add: R)
  have tags: "Cb R j = Cb P j" "Ib R j = Ib P j" "tag_flags R j = tag_flags (put_flags P k f) j" if "j < n" for j
    using tag_fields_set_bytes [OF sF [OF that], of ib ?bs] that fit bs lenF slots [of j] slots [of k] k n
    by (cases "length (concat rgdata) = 0"; simp add: R Cb_put_flags Ib_put_flags)+
  have fl: "tag_flags R j = (if j = k then f else tag_flags P j)" if "j < n" "m_fSmallFormat p" for j
    using that tags(3) [of j] tag_flags_put_flags [of P k j f] slots [of j] slots [of k] k n assms(2) P(1) by auto
  show cbk: "Cb R k = length (concat rgdata)" and ibk: "Ib R k = ib" using tags k n ib by simp_all
  have "line_bytes R k = ?bs"
    using cbk ibk fit lenF bs by (cases "length (concat rgdata) = 0") (simp_all add: line_bytes_def R)
  then show "line R k = new_line (m_fSmallFormat p) k f (concat rgdata)"
    using fl [of k] k n frameD(3) [OF fr] P(1) by (auto simp: line_def new_line_def)
  assume j: "j < n" "j \<noteq> k"
  have sub: "subbuf a m (rgb R) = subbuf a m (rgb p)"
    if "a + m + 4 * n \<le> length (rgb p)" "length (concat rgdata) = 0 \<or> a + m \<le> ib \<or> ib + length (concat rgdata) \<le> a" for a m
  proof -
    have F: "subbuf a m (rgb (put_flags P k f)) = subbuf a m (rgb p)"
      using that(1) bytes [of a m] k n slots [of k] P(2) by (simp add: subbuf_put_flags)
    show ?thesis
    proof (cases "length (concat rgdata) = 0")
      case False
      then have "a + m \<le> ib \<or> ib + length ?bs \<le> a" "ib + length ?bs \<le> length (rgb (put_flags P k f))"
        using that(2) fit lenF by (auto simp del: length_concat)
      then show ?thesis using F by (simp add: R subbuf_blit_disjoint)
    qed (simp only: R bs set_bytes_Nil F)
  qed
  have ends: "Ib p j + Cb p j + 4 * n \<le> length (rgb p)" if "Cb p j \<noteq> 0" using that lp(5) lp(6) [of j] j n by simp
  have "line_bytes R j = line_bytes p j"
  proof (cases "Cb p j = 0")
    case False
    then show ?thesis using others [OF j] tags [OF j(1)] sub [OF ends clear [OF j]] by (simp add: line_bytes_def)
  qed (use others [OF j] tags [OF j(1)] in \<open>simp add: line_bytes_def\<close>)
  then have "line R j = line p j"
    using others [OF j] fl [of j] j frameD(3) [OF fr] P(1) by (intro line_cong) auto
  then show "Cb R j = Cb p j \<and> (Cb p j \<noteq> 0 \<longrightarrow> Ib R j = Ib p j) \<and> line R j = line p j"
    using others [OF j] tags [OF j(1)] by auto
qed

lemma fill_laid:
  assumes prep: "prepared p P k ib (length (concat rgdata))" and "f < 8"
  defines "R \<equiv> CopyData (SetFlags P k f) k rgdata"
  shows "laid R" and "used R + Cb p k = used p + length (concat rgdata)"
    and "lines R = (lines p)[k := new_line (m_fSmallFormat p) k f (concat rgdata)]"
proof -
  let ?n = "m_itagMicFree p" and ?cb = "length (concat rgdata)"
  note fill = fill_tag [OF prep assms(2) refl, folded R_def]
  note fr = frameD [OF fill(1)]
  have k: "k < ?n" and P: "laid p" "m_fSmallFormat P = m_fSmallFormat p" "length (rgb P) = length (rgb p)"
    "m_itagMicFree P = ?n" "m_ctagReserved P = m_ctagReserved p" "m_cbPage P = m_cbPage p"
    "?cb \<noteq> 0 \<longrightarrow> ib + ?cb \<le> ibMicFree (pghdr P)" "ibMicFree (pghdr P) + 4 * ?n \<le> length (rgb p)"
    and clear: "\<And>j. j < ?n \<Longrightarrow> j \<noteq> k \<Longrightarrow> Cb p j \<noteq> 0 \<Longrightarrow> (?cb = 0 \<or> Ib p j + Cb p j \<le> ib \<or> ib + ?cb \<le> Ib p j) \<and> Ib p j + Cb p j \<le> ibMicFree (pghdr P)"
    using prep unfolding prepared_def by blast+
  note lp = laid_facts [OF P(1)]
  have ap: "apart R i j" if "i < ?n" "j < ?n" "i \<noteq> j" for i j
  proof -
    have other: "apart R k j \<and> apart R j k" if "j < ?n" "j \<noteq> k" for j
      using clear [OF that] fill(5) [OF that] fill(2,3) by (auto simp: apart_def)
    show ?thesis
    proof (cases "i = k \<or> j = k")
      case False
      then show ?thesis using lp(7) [OF that] fill(5) [OF that(1)] fill(5) [OF that(2)] by (auto simp: apart_def)
    qed (use other that in auto)
  qed
  have ends: "Ib R i + Cb R i \<le> ibMicFree (pghdr R)" if "i < ?n" "Cb R i \<noteq> 0" for i
  proof (cases "i = k")
    case False
    then show ?thesis using that fill(5) [OF that(1)] clear [OF that(1)] fr(1) by auto
  qed (use that fill(2,3) P(7) fr(1) in simp)
  show "laid R"
    unfolding laid_def using ap ends fr P lp(1-4)
    by (auto simp: msk_def CbBuffer_def CbPageHeader_def)
  have "(\<Sum>i<?n. Cb R i) + Cb p k = (\<Sum>i<?n. Cb p i) + ?cb"
    using k fill(2,5) sum.remove [of "{..<?n}" k "Cb R"] sum.remove [of "{..<?n}" k "Cb p"] by simp
  then show "used R + Cb p k = used p + ?cb" using fr(4) P(4) by (simp add: used_def)
  show "lines R = (lines p)[k := new_line (m_fSmallFormat p) k f (concat rgdata)]"
    using k fr(4) P(4) fill(4,5) by (intro nth_equalityI) (auto simp: lines_def nth_list_update)
qed

text \<open>A tag of no length is given room behind the used bytes.\<close>

lemma place_at_end:
  fixes c :: int
  assumes "laid p" and k: "k < m_itagMicFree p" and ib: "ib = ibMicFree (pghdr p)" and fit: "ib + cb + 4 * m_itagMicFree p \<le> length (rgb p)"
  defines "P \<equiv> set_cbFree c (SetCb (set_ibMicFree (int ib + int cb) (SetIb p k ib)) k cb)"
  shows "prepared p P k ib cb" and "cbFree (pghdr P) = ushort c"
proof -
  note lp = laid_facts [OF assms(1)]
  have small: "ib + cb < 65536" "ib \<le> msk p" "cb \<le> msk p" using fit lp(3,8) by simp_all
  have sP: "slot (SetIb p k ib) j \<longleftrightarrow> slot p j" for j using lp(9) [OF k] by (simp add: slot_def)
  have mP: "msk (SetIb p k ib) = msk p" by (simp add: msk_def)
  have t: "Cb P j = (if j = k then cb else Cb p j)" "Ib P j = (if j = k then ib else Ib p j)"
    "m_fSmallFormat p \<Longrightarrow> tag_flags P j = tag_flags p j" if "j < m_itagMicFree p" for j
    using lp(9) [OF that] lp(9) [OF k] small sP mP
    by (auto simp: P_def Cb_SetCb Ib_SetCb Cb_SetIb Ib_SetIb tag_flags_SetCb tag_flags_SetIb)
  have sub: "subbuf a m (rgb P) = subbuf a m (rgb p)" if "a + m + 4 * m_itagMicFree p \<le> length (rgb p)" for a m
    using that lp(9) [OF k] sP k by (simp add: P_def subbuf_SetCb subbuf_SetIb)
  have sel: "m_fSmallFormat P = m_fSmallFormat p" "m_itagMicFree P = m_itagMicFree p" "m_ctagReserved P = m_ctagReserved p"
    "m_cbPage P = m_cbPage p" "length (rgb P) = length (rgb p)" "ibMicFree (pghdr P) = ib + cb"
    using small(1) lp(9) [OF k] sP by (simp_all add: P_def ushort_nonneg nat_add_distrib)
  have ends: "Ib p j + Cb p j \<le> ib" "Ib p j + Cb p j \<le> ib + cb" if "j < m_itagMicFree p" "0 < Cb p j" for j
    using lp(6) [of j] that ib by simp_all
  show "prepared p P k ib cb"
    unfolding prepared_def using assms(1) k t sel sub fit by (auto simp: ends)
  show "cbFree (pghdr P) = ushort c" by (simp add: P_def)
qed

section \<open>Insertion\<close>

lemma open_slot:
  assumes "laid p" and "k \<le> m_itagMicFree p" and "ibMicFree (pghdr p) + 4 * (m_itagMicFree p + 1) \<le> length (rgb p)"
  defines "X \<equiv> ExpandTagArray p k"
  defines "E \<equiv> SetFlags (SetIb (SetCb X k 0) k 0) k 0"
  shows "laid E" and "extends k p E" and "Cb E k = 0" and "m_itagMicFree E = Suc (m_itagMicFree p)"
    and "frame X E" and "cbFree (pghdr E) = cbFree (pghdr p)" and "ibMicFree (pghdr E) = ibMicFree (pghdr p)"
    and "m_fSmallFormat E = m_fSmallFormat p" and "m_ctagReserved E = m_ctagReserved p" and "m_cbPage E = m_cbPage p"
    and "m_fRuntimeScrubbingEnabled E = m_fRuntimeScrubbingEnabled p" and "m_fResvTagFormatEnabled E = m_fResvTagFormatEnabled p"
    and "length (rgb E) = length (rgb p)"
proof -
  let ?n = "m_itagMicFree p"
  note lp = laid_facts [OF assms(1)]
  have sn: "slot p ?n" using assms(3) by (simp add: slot_def)
  obtain s where X: "X = SetITagMicFree s (?n + 1)" and sh: "shifted ?n (?n - k) p s"
    using ExpandTagArray_eq [OF assms(2) sn] unfolding X_def by metis
  have fs: "frame p s" using sh by (simp add: shifted_def)
  note fr = frameD [OF fs]
  have Xs: "rgb X = rgb s" "m_fSmallFormat X = m_fSmallFormat p" "Cb X = Cb s" "Ib X = Ib s" "tag_flags X = tag_flags s" "slot X = slot s"
    "m_itagMicFree X = Suc ?n" "m_ctagReserved X = m_ctagReserved p" "m_cbPage X = m_cbPage p" "cbFree (pghdr X) = cbFree (pghdr p)"
    "ibMicFree (pghdr X) = ibMicFree (pghdr p)" "m_fRuntimeScrubbingEnabled X = m_fRuntimeScrubbingEnabled p"
    "m_fResvTagFormatEnabled X = m_fResvTagFormatEnabled p" "length (rgb X) = length (rgb p)"
    using fr lp(2,5,8) assms(3) by (simp_all add: X SetITagMicFree_def del: of_nat_Suc)
  have slots: "slot X j" if "j \<le> ?n" for j using slot_mono [OF sn that] fr(10) Xs(6) by simp
  note c = clear_tag [OF slots [OF assms(2)], of E, unfolded E_def, OF disjI1, OF refl, folded E_def]
  show fE: "frame X E" by (rule c(1))
  note frE = frameD [OF fE]
  show n: "m_itagMicFree E = Suc ?n" and h: "cbFree (pghdr E) = cbFree (pghdr p)" "ibMicFree (pghdr E) = ibMicFree (pghdr p)"
    and sm: "m_fSmallFormat E = m_fSmallFormat p" and m: "m_ctagReserved E = m_ctagReserved p" "m_cbPage E = m_cbPage p"
    "m_fRuntimeScrubbingEnabled E = m_fRuntimeScrubbingEnabled p" "m_fResvTagFormatEnabled E = m_fResvTagFormatEnabled p"
    and len: "length (rgb E) = length (rgb p)"
    using frE Xs by simp_all
  show ck: "Cb E k = 0" using c(2) [OF slots [OF assms(2)]] by simp
  have t: "Cb E (skip k i) = Cb p i" "Ib E (skip k i) = Ib p i" "m_fSmallFormat p \<Longrightarrow> tag_flags E (skip k i) = tag_flags p i" if "i < ?n" for i
    using shifted_view [OF sh sn assms(2) that] c(2-4) [OF slots [of "skip k i"]] that Xs(2-5) by (simp_all add: skip_def)
  have sub: "subbuf a m (rgb E) = subbuf a m (rgb p)" if "a + m + 4 * (?n + 1) \<le> length (rgb p)" for a m
  proof -
    have "subbuf a m (rgb E) = subbuf a m (rgb X)" using that assms(2) Xs(14) by (intro c(5)) simp
    also have "\<dots> = subbuf a m (rgb p)" using sh that unfolding shifted_def Xs(1) by blast
    finally show ?thesis .
  qed
  have "line E (skip k i) = line p i" if "i < ?n" for i
  proof -
    have "line_bytes E (skip k i) = line_bytes p i"
      using t [OF that] lp(6) [OF that] assms(3) sub [of "Ib p i" "Cb p i"] by (cases "Cb p i = 0") (simp_all add: line_bytes_def)
    then show ?thesis using t(3) [OF that] sm by (simp add: line_def)
  qed
  then show "extends k p E" using t(1) n assms(2) by (simp add: extends_def)
  have cases: "i = k \<or> (\<exists>j<?n. i = skip k j)" if "i < Suc ?n" for i using skip_cases [OF that assms(2)] .
  have ends: "Ib E i + Cb E i \<le> ibMicFree (pghdr E)" if "i < Suc ?n" "Cb E i \<noteq> 0" for i
    using cases [OF that(1)] that(2) t lp(6) ck h by auto
  have old: "apart E (skip k i) (skip k j)" if "i < ?n" "j < ?n" "i \<noteq> j" for i j
    using lp(7) [OF that] t that by (simp add: apart_def)
  have new: "apart E k i" "apart E i k" for i using ck by (simp_all add: apart_def)
  have ap: "apart E i j" if "i < Suc ?n" "j < Suc ?n" "i \<noteq> j" for i j
    using cases [OF that(1)] cases [OF that(2)] that(3) new old by auto
  show "laid E"
    unfolding laid_def using ends ap lp(1-4) assms(3) n h sm m len by (auto simp: msk_def CbBuffer_def CbPageHeader_def)
qed

lemma CbDataTotal_eq [simp]: "CbDataTotal rgdata = length (concat rgdata)"
proof -
  have "fold (\<lambda>d cb. cb + length d) rgdata c = c + length (concat rgdata)" for c
    by (induction rgdata arbitrary: c) simp_all
  then show ?thesis by (simp add: CbDataTotal_def)
qed

theorem InsertTag_ok:
  assumes "page_inv p" and "m_ctagReserved p \<le> k" and "k \<le> m_itagMicFree p" and "f < 8"
    and room: "length (concat rgdata) + 4 \<le> cbFree (pghdr p)"
  shows "\<exists>q. InsertTag p k rgdata f = Some q \<and> page_inv q
    \<and> lines q = take k (lines p) @ new_line (m_fSmallFormat p) k f (concat rgdata) # drop k (lines p)
    \<and> m_itagMicFree q = m_itagMicFree p + 1 \<and> cbFree (pghdr q) = cbFree (pghdr p) - (length (concat rgdata) + 4)
    \<and> m_fSmallFormat q = m_fSmallFormat p \<and> m_ctagReserved q = m_ctagReserved p"
proof -
  let ?cb = "length (concat rgdata)"
  have cb: "?cb < 65536" using room inv_facts(8,9) [OF assms(1)] by linarith
  obtain p1 where p1: "FreeSpace p (int (?cb + 4)) = Some p1" "relaid p p1"
    and fit: "ibMicFree (pghdr p1) + 4 * m_itagMicFree p + (?cb + 4) \<le> length (rgb p)"
    using FreeSpace_ok [OF assms(1), of "?cb + 4"] room by auto
  note r = relaidD [OF p1(2)]
  have l1: "laid p1" and u1: "cbFree (pghdr p1) + used p1 = length (rgb p1)" using r(1) by (simp_all add: page_inv_laid)
  define E where "E = SetFlags (SetIb (SetCb (ExpandTagArray p1 k) k 0) k 0) k 0"
  have k1: "k \<le> m_itagMicFree p1" "ibMicFree (pghdr p1) + 4 * (m_itagMicFree p1 + 1) \<le> length (rgb p1)"
    using assms(3) fit r(3,6) by simp_all
  note e = open_slot [OF l1 k1, folded E_def]
  let ?ib = "ibMicFree (pghdr p1)"
  define P where "P = set_cbFree (int (cbFree (pghdr p1)) - int (?cb + 4)) (SetCb (set_ibMicFree (int ?ib + int ?cb) (SetIb E k ?ib)) k ?cb)"
  have kE: "k < m_itagMicFree E" "?ib = ibMicFree (pghdr E)" "?ib + ?cb + 4 * m_itagMicFree E \<le> length (rgb E)"
    using k1(1) e(4,7,13) fit r(3,6) by simp_all
  note prep = place_at_end(1) [OF e(1) kE, of "int (cbFree (pghdr p1)) - int (?cb + 4)", folded P_def]
  have hP: "cbFree (pghdr P) = cbFree (pghdr p) - (?cb + 4)" "length (rgb P) = length (rgb E)"
    using room r(4) inv_facts(8,9) [OF assms(1)] prep
    by (simp_all add: P_def ushort_nonneg nat_diff_distrib nat_add_distrib prepared_def)
  define q where "q = CopyData (SetFlags P k f) k rgdata"
  note fl = fill_laid [OF prep assms(4), folded q_def] and fq = frameD [OF fill_tag(1) [OF prep assms(4) refl, folded q_def]]
  have "InsertTag p k rgdata f = Some q"
    using p1(1) cb e(6,7) by (simp add: InsertTag_def sizeof_TAG_def Let_def q_def P_def E_def)
  moreover have "used q = used p1 + 4 + ?cb" using fl(2) extends_used [OF e(2)] e(3) by simp
  then have "page_inv q" using fl(1) u1 fq hP e(13) r(4) room by (simp add: page_inv_laid)
  moreover have "lines q = take k (lines p) @ new_line (m_fSmallFormat p) k f (concat rgdata) # drop k (lines p)"
    unfolding fl(3) extends_lines [OF e(2)] r(2) e(8) r(5) using k1(1) r(2,6)
    by (simp add: list_update_append lines_def [of p])
  ultimately show ?thesis using fq hP e r by (auto simp: P_def)
qed

end
