(* ===== verification/Cpage_Change.thy ===== *)
theory Cpage_Change
  imports Cpage_Lines
begin

unbundle bit_operations_syntax

text \<open>
  Deletion and replacement of lines. Both may overwrite bytes that are no longer used
  (runtime scrubbing), and both give freed space back when it lies at the end.
\<close>

section \<open>Deletion\<close>

lemma copy_tags_shift:
  assumes "k \<le> m" and "slot q m"
  defines "r \<equiv> fold (\<lambda>i p. put_tag p i (get_tag p (i + 1))) [k..<m] q"
  shows "frame q r \<and> (\<forall>j. slot q j \<longrightarrow> get_tag r j = (if k \<le> j \<and> j < m then get_tag q (j + 1) else get_tag q j))
    \<and> (\<forall>a l. a + l + 4 * m \<le> length (rgb q) \<longrightarrow> subbuf a l (rgb r) = subbuf a l (rgb q))"
  using assms(1,2) unfolding r_def
proof (induction m)
  case 0
  then show ?case by simp
next
  case (Suc m)
  show ?case
  proof (cases "k = Suc m")
    case False
    then have km: "k \<le> m" "slot q m" using Suc.prems slot_mono by auto
    define s where "s = fold (\<lambda>i p. put_tag p i (get_tag p (i + 1))) [k..<m] q"
    have IH: "frame q s" "\<And>j. slot q j \<Longrightarrow> get_tag s j = (if k \<le> j \<and> j < m then get_tag q (j + 1) else get_tag q j)"
      "\<And>a l. a + l + 4 * m \<le> length (rgb q) \<Longrightarrow> subbuf a l (rgb s) = subbuf a l (rgb q)"
      using Suc.IH [OF km] unfolding s_def by blast+
    note fr = frameD [OF IH(1)]
    have sm: "slot s m" "slot s (Suc m)" using km Suc.prems fr(10) by simp_all
    have eq: "fold (\<lambda>i p. put_tag p i (get_tag p (i + 1))) [k..<Suc m] q = put_tag s m (get_tag s (Suc m))"
      using km(1) by (simp add: s_def)
    have tag: "get_tag (put_tag s m (get_tag s (Suc m))) j = (if k \<le> j \<and> j < Suc m then get_tag q (j + 1) else get_tag q j)" if "slot q j" for j
      using that get_put_tag [OF sm(1), of j] IH(2) [of j] IH(2) [of "Suc m"] Suc.prems(2) fr(10) km(1) by (auto simp: less_Suc_eq)
    have "frame q (put_tag s m (get_tag s (Suc m)))"
      by (rule frame_trans [OF IH(1)], rule frameI) (use sm in simp_all)
    then show ?thesis
      unfolding eq using tag IH(3) subbuf_put_tag [OF sm(1)] fr(8) by auto
  qed auto
qed

lemma copy_tags_back_view:
  assumes "k \<le> m_itagMicFree q" and "slot q (m_itagMicFree q)"
  defines "r \<equiv> copy_tags_back q k"
  shows "frame q r" and "i < m_itagMicFree q \<Longrightarrow> Cb r i = Cb q (skip k i)" and "i < m_itagMicFree q \<Longrightarrow> Ib r i = Ib q (skip k i)"
    and "i < m_itagMicFree q \<Longrightarrow> tag_flags r i = tag_flags q (skip k i)"
    and "a + l + 4 * m_itagMicFree q \<le> length (rgb q) \<Longrightarrow> subbuf a l (rgb r) = subbuf a l (rgb q)"
proof -
  note c = copy_tags_shift [OF assms(1,2), folded copy_tags_back_def, folded r_def]
  show fr: "frame q r" using c by blast
  have tag: "get_tag r i = get_tag q (skip k i)" if "i < m_itagMicFree q" for i
    using c that slot_mono [OF assms(2), of i] by (auto simp: skip_def)
  then show "i < m_itagMicFree q \<Longrightarrow> Cb r i = Cb q (skip k i)" "i < m_itagMicFree q \<Longrightarrow> Ib r i = Ib q (skip k i)"
    "i < m_itagMicFree q \<Longrightarrow> tag_flags r i = tag_flags q (skip k i)"
    using frameD(3) [OF fr] by (simp_all add: Cb_def Ib_def tag_flags_def)
  show "a + l + 4 * m_itagMicFree q \<le> length (rgb q) \<Longrightarrow> subbuf a l (rgb r) = subbuf a l (rgb q)" using c by blast
qed

text \<open>The end of the used bytes after the space of tag \<open>k\<close> is given back.\<close>

lemma reclaim_end:
  assumes "laid p" and "k < m_itagMicFree p" and "i < m_itagMicFree p" and "i \<noteq> k" and "Cb p i \<noteq> 0"
  shows "Ib p i + Cb p i \<le> (if Cb p k + Ib p k = ibMicFree (pghdr p) then ibMicFree (pghdr p) - Cb p k else ibMicFree (pghdr p))"
  using laid_facts(6) [OF assms(1,3,5)] laid_facts(7) [OF assms(1,3,2,4)] assms(5) by (auto simp: apart_def)

lemma scrub_line:
  assumes "laid p" and "k < m_itagMicFree p" and "length bs = Cb p k"
  defines "s \<equiv> set_bytes p (Ib p k) bs"
  shows "frame p s" and "i < m_itagMicFree p \<Longrightarrow> Cb s i = Cb p i" and "i < m_itagMicFree p \<Longrightarrow> Ib s i = Ib p i"
    and "i < m_itagMicFree p \<Longrightarrow> tag_flags s i = tag_flags p i"
    and "i < m_itagMicFree p \<Longrightarrow> i \<noteq> k \<Longrightarrow> line_bytes s i = line_bytes p i"
proof -
  note lp = laid_facts [OF assms(1)]
  have fits: "Cb p k \<noteq> 0 \<or> s = p" using assms(3) by (cases bs) (auto simp: s_def)
  then have fit: "Ib p k + length bs + 4 * m_itagMicFree p \<le> length (rgb p) \<or> s = p"
    using lp(5) lp(6) [OF assms(2)] assms(3) by auto
  then show "frame p s" by (auto simp: s_def intro: frame_set_bytes)
  show t: "i < m_itagMicFree p \<Longrightarrow> Cb s i = Cb p i" "i < m_itagMicFree p \<Longrightarrow> Ib s i = Ib p i"
    "i < m_itagMicFree p \<Longrightarrow> tag_flags s i = tag_flags p i" for i
    using fit tag_fields_set_bytes [OF lp(9), of i "Ib p k" bs] by (auto simp: s_def)
  assume i: "i < m_itagMicFree p" "i \<noteq> k"
  show "line_bytes s i = line_bytes p i"
  proof (cases "s = p \<or> Cb p i = 0")
    case True
    then show ?thesis using t [OF i(1)] by (auto simp: line_bytes_def)
  next
    case False
    then have "Ib p i + Cb p i \<le> Ib p k \<or> Ib p k + length bs \<le> Ib p i"
      using lp(7) [OF i(1) assms(2) i(2)] fits assms(3) by (auto simp: apart_def)
    then have "subbuf (Ib p i) (Cb p i) (rgb s) = subbuf (Ib p i) (Cb p i) (rgb p)"
      using fit False by (auto simp: s_def subbuf_blit_disjoint)
    then show ?thesis using t [OF i(1)] by (simp add: line_bytes_def)
  qed
qed

lemma laid_set_ibMicFree:
  assumes "laid p" and "F < 65536" and "F + 4 * m_itagMicFree p \<le> length (rgb p)"
    and "\<And>i. i < m_itagMicFree p \<Longrightarrow> Cb p i \<noteq> 0 \<Longrightarrow> Ib p i + Cb p i \<le> F"
  shows "laid (set_ibMicFree (int F) p)"
  using assms unfolding laid_def by (simp add: CbBuffer_def CbPageHeader_def)

text \<open>The pages before and after the tag is taken out.\<close>

lemma remove_tag:
  assumes "laid p" and "m_ctagReserved p \<le> k" and "k < m_itagMicFree p" and n: "m_itagMicFree p = Suc n"
    and q: "m_itagMicFree q = n" "m_fSmallFormat q = m_fSmallFormat p" "m_ctagReserved q = m_ctagReserved p" "m_cbPage q = m_cbPage p"
    "length (rgb q) = length (rgb p)" and F: "ibMicFree (pghdr q) + 4 * n \<le> length (rgb p)"
    and tags: "\<And>i. i < Suc n \<Longrightarrow> Cb q i = Cb p i \<and> Ib q i = Ib p i \<and> tag_flags q i = tag_flags p i"
    and bytes: "\<And>i. i < Suc n \<Longrightarrow> i \<noteq> k \<Longrightarrow> line_bytes q i = line_bytes p i"
    and ends: "\<And>i. i < Suc n \<Longrightarrow> i \<noteq> k \<Longrightarrow> Cb p i \<noteq> 0 \<Longrightarrow> Ib p i + Cb p i \<le> ibMicFree (pghdr q)"
  defines "r \<equiv> copy_tags_back q k"
  shows "laid r" and "extends k r p" and "frame q r"
proof -
  note lp = laid_facts [OF assms(1)]
  have sq: "slot q n" using lp(9) [of n] n q(5) by (simp add: slot_def)
  have kn: "k \<le> n" using assms(3) n by simp
  note v = copy_tags_back_view [of k q, unfolded q(1), OF kn sq, folded r_def]
  show fr: "frame q r" by (rule v(1))
  note f = frameD [OF fr]
  have sk: "skip k i < Suc n" if "i < n" for i using that kn by simp
  have t: "Cb r i = Cb p (skip k i)" "Ib r i = Ib p (skip k i)" "tag_flags r i = tag_flags p (skip k i)" if "i < n" for i
    using v(2-4) [OF that] tags [OF sk [OF that]] by simp_all
  have lb: "line_bytes r i = line_bytes p (skip k i)" if "i < n" for i
  proof (cases "Cb p (skip k i) = 0")
    case False
    have "Ib p (skip k i) + Cb p (skip k i) + 4 * n \<le> length (rgb q)"
      using lp(5) lp(6) [OF _ False] sk [OF that] n q(5) by simp
    then have "subbuf (Ib p (skip k i)) (Cb p (skip k i)) (rgb r) = subbuf (Ib p (skip k i)) (Cb p (skip k i)) (rgb q)"
      by (rule v(5))
    then show ?thesis using t [OF that] bytes [OF sk [OF that]] tags [OF sk [OF that]] by (simp add: line_bytes_def)
  qed (use t [OF that] in \<open>simp add: line_bytes_def\<close>)
  have "line p (skip k i) = line r i" if "i < n" for i
    using lb [OF that] t(3) [OF that] f(3) q(2) by (simp add: line_def)
  then show "extends k r p" using t(1) f(4) q(1) n kn by (simp add: extends_def)
  have ap: "apart r i j" if "i < n" "j < n" "i \<noteq> j" for i j
    using lp(7) [of "skip k i" "skip k j"] that t n sk by (simp add: apart_def)
  have en: "Ib r i + Cb r i \<le> ibMicFree (pghdr r)" if "i < n" "Cb r i \<noteq> 0" for i
    using ends [OF sk [OF that(1)]] that t f(1) by simp
  show "laid r"
    unfolding laid_def using ap en lp(1-4) f q F assms(2) kn by (auto simp: msk_def CbBuffer_def CbPageHeader_def)
qed

theorem DeleteTag_ok:
  assumes "page_inv p" and "m_ctagReserved p \<le> k" and "k < m_itagMicFree p"
  shows "page_inv (DeleteTag p k) \<and> lines (DeleteTag p k) = take k (lines p) @ drop (Suc k) (lines p)
    \<and> m_itagMicFree (DeleteTag p k) = m_itagMicFree p - 1
    \<and> cbFree (pghdr (DeleteTag p k)) = cbFree (pghdr p) + Cb p k + 4
    \<and> m_fSmallFormat (DeleteTag p k) = m_fSmallFormat p \<and> m_ctagReserved (DeleteTag p k) = m_ctagReserved p"
proof -
  have l: "laid p" and u: "cbFree (pghdr p) + used p = length (rgb p)" using assms(1) by (simp_all add: page_inv_laid)
  note lp = laid_facts [OF l]
  obtain n where n: "m_itagMicFree p = Suc n" using assms(3) by (cases "m_itagMicFree p") auto
  let ?F = "ibMicFree (pghdr p)"
  define s where "s = (if m_fRuntimeScrubbingEnabled p then set_bytes p (Ib p k) (replicate (Cb p k) (of_char CHR ''D'')) else p)"
  have s: "frame p s" "i < m_itagMicFree p \<Longrightarrow> Cb s i = Cb p i \<and> Ib s i = Ib p i \<and> tag_flags s i = tag_flags p i"
    "i < m_itagMicFree p \<Longrightarrow> i \<noteq> k \<Longrightarrow> line_bytes s i = line_bytes p i" for i
    using scrub_line [OF l assms(3), of "replicate (Cb p k) (of_char CHR ''D'')"] by (auto simp: s_def)
  note fs = frameD [OF s(1)]
  define F' where "F' = (if Cb p k + Ib p k = ?F then ?F - Cb p k else ?F)"
  define q where "q = SetITagMicFree (set_cbFree (int (cbFree (pghdr p)) + int (Cb p k) + int sizeof_TAG)
    (if Cb p k + Ib p k = ?F then set_ibMicFree (int ?F - int (Cb p k)) s else s)) n"
  have uk: "Cb p k + 4 \<le> used p" using sum_skip [of k n "Cb p"] assms(3) n by (simp add: used_def del: sum.lessThan_Suc)
  have small: "n < 65536" "m_ctagReserved p < 65536" "cbFree (pghdr p) + Cb p k + 4 < 65536" "?F < 65536"
    using lp(2,5,8) assms(2,3) n u uk by simp_all
  have F': "ushort (int ?F - int (Cb p k)) = ?F - Cb p k" if "Cb p k + Ib p k = ?F"
    using that small(4) by (simp add: ushort_nonneg nat_diff_distrib)
  have q: "m_itagMicFree q = n" "m_fSmallFormat q = m_fSmallFormat p" "m_ctagReserved q = m_ctagReserved p" "m_cbPage q = m_cbPage p"
    "rgb q = rgb s" "ibMicFree (pghdr q) = F'" "cbFree (pghdr q) = cbFree (pghdr p) + Cb p k + 4"
    "Cb q = Cb s" "Ib q = Ib s" "tag_flags q = tag_flags s" "line_bytes q = line_bytes s"
    using fs small F' by (auto simp: q_def SetITagMicFree_def F'_def sizeof_TAG_def ushort_nonneg nat_add_distrib)
  define r where "r = copy_tags_back q k"
  have "ibMicFree (pghdr q) + 4 * n \<le> length (rgb p)" using lp(5) n q(6) by (auto simp: F'_def)
  moreover have "i < Suc n \<Longrightarrow> Cb q i = Cb p i \<and> Ib q i = Ib p i \<and> tag_flags q i = tag_flags p i"
    and "i < Suc n \<Longrightarrow> i \<noteq> k \<Longrightarrow> line_bytes q i = line_bytes p i" for i using s(2,3) n q(8-11) by simp_all
  moreover have "Ib p i + Cb p i \<le> ibMicFree (pghdr q)" if "i < Suc n" "i \<noteq> k" "Cb p i \<noteq> 0" for i
    using reclaim_end [OF l assms(3)] that n q(6) by (simp add: F'_def)
  ultimately have rem: "laid r" "extends k r p" "frame q r"
    using remove_tag [OF l assms(2,3) n q(1-4)] q(5) fs(8) unfolding r_def by simp_all
  note fr = frameD [OF rem(3)]
  have ur: "used p = used r + Cb p k + 4" by (rule extends_used [OF rem(2)])
  have inv_r: "page_inv r" using rem(1) u ur fr(1,8) q(5,7) fs(8) by (simp add: page_inv_laid)
  define e where "e = (if cbFree (pghdr r) + sizeof_TAG + CbPageHeader r = CbBuffer r then set_ibMicFree 0 r else r)"
  have del: "DeleteTag p k = e"
    unfolding DeleteTag_def Let_def s_def [symmetric]
    using fs n by (simp add: e_def r_def q_def flip: s_def)
  have "laid e"
  proof (cases "cbFree (pghdr r) + sizeof_TAG + CbPageHeader r = CbBuffer r")
    case True
    then have "used r = 4" using inv_r by (simp add: page_inv_laid sizeof_TAG_def CbBuffer_def)
    moreover have one: "m_itagMicFree r = 1" using calculation laid_facts(1,2) [OF rem(1)] by (simp add: used_def)
    ultimately have "Cb r 0 = 0" by (simp add: used_def)
    with one show ?thesis
      using laid_set_ibMicFree [OF rem(1), of 0] laid_facts(5) [OF rem(1)] True by (simp add: e_def)
  qed (simp add: e_def rem(1))
  moreover have "lines e = lines r" "used e = used r" "cbFree (pghdr e) = cbFree (pghdr r)" "length (rgb e) = length (rgb r)"
    "m_itagMicFree e = m_itagMicFree r" "m_fSmallFormat e = m_fSmallFormat r" "m_ctagReserved e = m_ctagReserved r"
    by (simp_all add: e_def lines_def used_def)
  ultimately show ?thesis
    unfolding del using inv_r extends_lines_back [OF rem(2)] fr q n by (simp add: page_inv_laid)
qed

section \<open>Replacement\<close>

text \<open>Bytes outside all lines can be overwritten.\<close>

lemma scrub_gap:
  assumes "laid p" and "a + length bs + 4 * m_itagMicFree p \<le> length (rgb p)"
    and gap: "\<And>i. i < m_itagMicFree p \<Longrightarrow> Cb p i \<noteq> 0 \<Longrightarrow> Ib p i + Cb p i \<le> a \<or> a + length bs \<le> Ib p i"
  defines "s \<equiv> set_bytes p a bs"
  shows "laid s" and "lines s = lines p" and "used s = used p" and "frame p s"
proof -
  note lp = laid_facts [OF assms(1)]
  show fr: "frame p s" using assms(2) by (simp add: s_def frame_set_bytes)
  have t: "Ib s i = Ib p i" "Cb s i = Cb p i" "tag_flags s i = tag_flags p i" if "i < m_itagMicFree p" for i
    using that assms(2) tag_fields_set_bytes [OF lp(9) [OF that]] by (simp_all add: s_def)
  have "line_bytes s i = line_bytes p i" if "i < m_itagMicFree p" for i
    using t [OF that] gap [OF that] assms(2) by (cases "Cb p i = 0") (simp_all add: line_bytes_def s_def subbuf_blit_disjoint)
  then have "line s i = line p i" if "i < m_itagMicFree p" for i
    using that t(3) frameD(3) [OF fr] by (intro line_cong) auto
  then show "lines s = lines p" using frameD(4) [OF fr] by (simp add: lines_def)
  show "used s = used p" using t(2) by (simp add: used_def s_def)
  have "apart s i j" if "i < m_itagMicFree p" "j < m_itagMicFree p" "i \<noteq> j" for i j
    using lp(7) [OF that] t that by (simp add: apart_def)
  then show "laid s"
    unfolding laid_def using lp frameD(1-5,8,9) [OF fr] t by (simp add: CbBuffer_def CbPageHeader_def)
qed

text \<open>The signed 16-bit difference of the lengths is exact.\<close>

lemma cbDiff_exact: "a < 32768 \<Longrightarrow> b < 32768 \<Longrightarrow> sint (word_of_int (int a - int b) :: USHORT) = int a - int b"
  unfolding sint_sbintrunc' by (simp add: signed_take_bit_int_eq_self)

lemma list_update_same: "(\<And>i. i < length xs \<Longrightarrow> i \<noteq> k \<Longrightarrow> ys ! i = xs ! i) \<Longrightarrow> length ys = length xs \<Longrightarrow> ys[k := x] = xs[k := x]"
  by (rule nth_equalityI) (simp, metis length_list_update nth_list_update_eq nth_list_update_neq)

text \<open>In place: the line shrinks, keeps its length, or grows at the end of the used bytes.\<close>

lemma replace_in_place:
  assumes "page_inv p" and k: "k < m_itagMicFree p" and "f < 8" and cb: "cb = length (concat rgdata)"
    and room: "cb \<le> Cb p k + cbFree (pghdr p)"
    and place: "cb \<le> Cb p k \<or> Ib p k + Cb p k = ibMicFree (pghdr p) \<and> Ib p k + cb + 4 * m_itagMicFree p \<le> length (rgb p)"
  defines "H \<equiv> (if Ib p k + Cb p k = ibMicFree (pghdr p) then set_ibMicFree (int (ibMicFree (pghdr p)) - (int (Cb p k) - int cb)) p else p)"
  defines "P \<equiv> SetCb (set_cbFree (int (cbFree (pghdr p)) + (int (Cb p k) - int cb)) H) k cb"
  shows "prepared p P k (Ib p k) cb" and "cbFree (pghdr P) = cbFree (pghdr p) + Cb p k - cb"
proof -
  have l: "laid p" using assms(1) by (simp add: page_inv_laid)
  note lp = laid_facts [OF l]
  have fits: "cb \<noteq> 0 \<longrightarrow> Ib p k + cb + 4 * m_itagMicFree p \<le> length (rgb p)"
    using place lp(5) lp(6) [OF k] by auto
  then have cbm: "cb \<le> msk p" using lp(3) by auto
  have slots: "slot p j" if "j < m_itagMicFree p" for j using lp(9) [OF that] .
  have t: "Cb P j = (if j = k then cb else Cb p j)" "Ib P j = Ib p j" "tag_flags P j = tag_flags p j" if "j < m_itagMicFree p" for j
    using slots [OF that] slots [OF k] cbm by (auto simp: P_def H_def Cb_SetCb Ib_SetCb tag_flags_SetCb)
  have sub: "subbuf a m (rgb P) = subbuf a m (rgb p)" if "a + m + 4 * m_itagMicFree p \<le> length (rgb p)" for a m
    using that slots [OF k] k by (simp add: P_def H_def subbuf_SetCb)
  have small: "ibMicFree (pghdr p) < 65536" "length (rgb p) < 65536" using lp(5,8) by auto
  have F: "ibMicFree (pghdr P) = (if Ib p k + Cb p k = ibMicFree (pghdr p) then Ib p k + cb else ibMicFree (pghdr p))"
    using small fits lp(5) k by (auto simp: P_def H_def ushort_def)
  have "Cb p k \<le> (\<Sum>i<m_itagMicFree p. Cb p i)" using k by (intro member_le_sum) auto
  then have "cbFree (pghdr p) + Cb p k < 65536" using inv_facts(8,9) [OF assms(1)] by linarith
  then show "cbFree (pghdr P) = cbFree (pghdr p) + Cb p k - cb"
    using room by (simp add: P_def H_def ushort_def)
  have sel: "m_fSmallFormat P = m_fSmallFormat p" "length (rgb P) = length (rgb p)" "m_itagMicFree P = m_itagMicFree p"
    "m_ctagReserved P = m_ctagReserved p" "m_cbPage P = m_cbPage p" using slots [OF k] by (simp_all add: P_def H_def)
  have "Ib p k + cb \<le> ibMicFree (pghdr P)" if "cb \<noteq> 0"
    using that F place lp(6) [OF k] by auto
  moreover have "ibMicFree (pghdr P) + 4 * m_itagMicFree p \<le> length (rgb p)"
    using F place lp(5) fits by auto
  moreover have "(cb = 0 \<or> Ib p j + Cb p j \<le> Ib p k \<or> Ib p k + cb \<le> Ib p j) \<and> Ib p j + Cb p j \<le> ibMicFree (pghdr P)"
    if "j < m_itagMicFree p" "j \<noteq> k" "Cb p j \<noteq> 0" for j
    using lp(6) [OF that(1,3)] lp(7) [OF that(1) k that(2)] that(3) place F lp(6) [OF k] by (auto simp: apart_def)
  ultimately show "prepared p P k (Ib p k) cb"
    unfolding prepared_def using l k t sub sel fits by auto
qed

text \<open>Moving the line: first the old one is given up.\<close>

lemma give_up_line:
  assumes "page_inv p" and k: "k < m_itagMicFree p"
  defines "s \<equiv> (if m_fRuntimeScrubbingEnabled p then set_bytes p (Ib p k) (replicate (Cb p k) (of_char CHR ''R'')) else p)"
  defines "E \<equiv> SetFlags (SetCb (SetIb (set_cbFree (int (cbFree (pghdr p)) + int (Cb p k)) s) k 0) k 0) k 0"
  shows "page_inv E" and "Cb E k = 0" and "cbFree (pghdr E) = cbFree (pghdr p) + Cb p k"
    and "m_itagMicFree E = m_itagMicFree p" and "m_fSmallFormat E = m_fSmallFormat p" and "m_ctagReserved E = m_ctagReserved p"
    and "length (rgb E) = length (rgb p)" and "i < m_itagMicFree p \<Longrightarrow> i \<noteq> k \<Longrightarrow> line E i = line p i"
    and "m_fRuntimeScrubbingEnabled E = m_fRuntimeScrubbingEnabled p" and "used E + Cb p k = used p"
proof -
  have l: "laid p" and u: "cbFree (pghdr p) + used p = length (rgb p)" using assms(1) by (simp_all add: page_inv_laid)
  note lp = laid_facts [OF l]
  have s: "frame p s" "i < m_itagMicFree p \<Longrightarrow> Cb s i = Cb p i \<and> Ib s i = Ib p i \<and> tag_flags s i = tag_flags p i"
    "i < m_itagMicFree p \<Longrightarrow> i \<noteq> k \<Longrightarrow> line_bytes s i = line_bytes p i" for i
    using scrub_line [OF l k, of "replicate (Cb p k) (of_char CHR ''R'')"] by (auto simp: s_def)
  define q where "q = set_cbFree (int (cbFree (pghdr p)) + int (Cb p k)) s"
  note fs = frameD [OF s(1)]
  have slots: "slot q j" if "j < m_itagMicFree p" for j using lp(9) [OF that] fs(10) by (simp add: q_def)
  note c = clear_tag [OF slots [OF k], of E, unfolded E_def, OF disjI2, folded q_def, OF refl, folded E_def [folded q_def]]
  note fE = frameD [OF c(1)]
  have uk: "Cb p k \<le> (\<Sum>i<m_itagMicFree p. Cb p i)" using k by (intro member_le_sum) auto
  then have small: "cbFree (pghdr p) + Cb p k < 65536" using u lp(8) by (simp add: used_def)
  have t: "Cb E i = (if i = k then 0 else Cb p i)" "i \<noteq> k \<Longrightarrow> Ib E i = Ib p i" "m_fSmallFormat p \<Longrightarrow> i \<noteq> k \<Longrightarrow> tag_flags E i = tag_flags p i"
    if "i < m_itagMicFree p" for i
    using c(2-4) [OF slots [OF that]] s(2) [OF that] fs(3) by (auto simp: q_def)
  show ck: "Cb E k = 0" using t(1) [OF k] by simp
  show h: "cbFree (pghdr E) = cbFree (pghdr p) + Cb p k" using fE(1) small by (simp add: q_def ushort_nonneg nat_add_distrib)
  show sel: "m_itagMicFree E = m_itagMicFree p" "m_fSmallFormat E = m_fSmallFormat p" "m_ctagReserved E = m_ctagReserved p"
    "length (rgb E) = length (rgb p)" "m_fRuntimeScrubbingEnabled E = m_fRuntimeScrubbingEnabled p"
    using fE fs by (simp_all add: q_def)
  have F: "ibMicFree (pghdr E) = ibMicFree (pghdr p)" "m_cbPage E = m_cbPage p" using fE fs by (simp_all add: q_def)
  show le: "i < m_itagMicFree p \<Longrightarrow> i \<noteq> k \<Longrightarrow> line E i = line p i" for i
  proof (rule line_cong)
    assume i: "i < m_itagMicFree p" "i \<noteq> k"
    show "line_bytes E i = line_bytes p i"
    proof (cases "Cb p i = 0")
      case False
      have "Ib p i + Cb p i + 4 * (k + 1) \<le> length (rgb q)" using lp(5) lp(6) [OF i(1) False] k fs(8) by (simp add: q_def)
      then have "subbuf (Ib p i) (Cb p i) (rgb E) = subbuf (Ib p i) (Cb p i) (rgb s)" using c(5) by (simp add: q_def)
      then show ?thesis using t [OF i(1)] i(2) s(2,3) [OF i(1)] by (simp add: line_bytes_def)
    qed (use t [OF i(1)] i(2) in \<open>simp add: line_bytes_def\<close>)
  qed (use sel t in simp_all)
  have "(\<Sum>i<m_itagMicFree p. Cb E i) + Cb p k = (\<Sum>i<m_itagMicFree p. Cb p i)"
    using k t(1) sum.remove [of "{..<m_itagMicFree p}" k "Cb E"] sum.remove [of "{..<m_itagMicFree p}" k "Cb p"] by simp
  then show uE: "used E + Cb p k = used p" by (simp add: used_def sel)
  have ap: "apart E i j" if "i < m_itagMicFree p" "j < m_itagMicFree p" "i \<noteq> j" for i j
    using lp(7) [OF that] t(1,2) [OF that(1)] t(1,2) [OF that(2)] ck by (cases "i = k \<or> j = k") (auto simp: apart_def)
  have en: "Ib E i + Cb E i \<le> ibMicFree (pghdr E)" if "i < m_itagMicFree p" "Cb E i \<noteq> 0" for i
    using lp(6) [OF that(1)] t [OF that(1)] that(2) F(1) by (auto split: if_splits)
  have "laid E" unfolding laid_def using lp(1-5) sel F ap en by (auto simp: msk_def CbBuffer_def CbPageHeader_def)
  then show "page_inv E" using u uE h sel by (simp add: page_inv_laid)
qed

definition replaced :: "CPAGE \<Rightarrow> nat \<Rightarrow> BYTE list list \<Rightarrow> USHORT \<Rightarrow> CPAGE \<Rightarrow> bool" where
  "replaced p k rgdata f q \<longleftrightarrow> page_inv q \<and> lines q = (lines p)[k := new_line (m_fSmallFormat p) k f (concat rgdata)]
     \<and> m_itagMicFree q = m_itagMicFree p \<and> cbFree (pghdr q) = cbFree (pghdr p) + Cb p k - length (concat rgdata)
     \<and> m_fSmallFormat q = m_fSmallFormat p \<and> m_ctagReserved q = m_ctagReserved p"

lemma replace_by_move:
  assumes "page_inv p" and k: "k < m_itagMicFree p" and "f < 8" and cb: "cb = length (concat rgdata)"
    and room: "cb \<le> Cb p k + cbFree (pghdr p)"
  defines "s \<equiv> (if m_fRuntimeScrubbingEnabled p then set_bytes p (Ib p k) (replicate (Cb p k) (of_char CHR ''R'')) else p)"
  defines "E \<equiv> SetFlags (SetCb (SetIb (set_cbFree (int (cbFree (pghdr p)) + int (Cb p k)) s) k 0) k 0) k 0"
  shows "\<exists>q. FreeSpace E (int cb) = Some q \<and> replaced p k rgdata f
    (CopyData (SetFlags (SetCb (set_cbFree (int (cbFree (pghdr q)) - int cb)
       (set_ibMicFree (int (ibMicFree (pghdr q)) + int cb) (SetIb q k (ibMicFree (pghdr q))))) k cb) k f) k rgdata)"
proof -
  note e = give_up_line [OF assms(1) k, folded s_def, folded E_def]
  obtain q where q: "FreeSpace E (int cb) = Some q" "relaid E q"
    and fit: "ibMicFree (pghdr q) + 4 * m_itagMicFree E + cb \<le> length (rgb E)"
    using FreeSpace_ok [OF e(1), of cb] room e(3) by auto
  note r = relaidD [OF q(2)]
  let ?ib = "ibMicFree (pghdr q)" and ?c = "int (cbFree (pghdr q)) - int cb"
  have swap: "SetCb (set_cbFree c P) k cb = set_cbFree c (SetCb P k cb)" for c P
    by (simp add: SetCb_def Let_def put_tag_def set_bytes_def set_cbFree_def upd_hdr_def PtagFromItag_def get_tag_def)
  define P where "P = set_cbFree ?c (SetCb (set_ibMicFree (int ?ib + int cb) (SetIb q k ?ib)) k cb)"
  have lq: "laid q" and uq: "cbFree (pghdr q) + used q = length (rgb q)" using r(1) by (simp_all add: page_inv_laid)
  have kq: "k < m_itagMicFree q" "?ib + cb + 4 * m_itagMicFree q \<le> length (rgb q)" using k e(4) r(3,6) fit by simp_all
  note pl = place_at_end [OF lq kq(1) refl kq(2), of ?c, folded P_def]
  define R where "R = CopyData (SetFlags P k f) k rgdata"
  note fl = fill_laid [OF pl(1) [unfolded cb] assms(3), folded R_def]
  note fR = frameD [OF fill_tag(1) [OF pl(1) [unfolded cb] assms(3) refl, folded R_def]]
  have selP: "m_itagMicFree P = m_itagMicFree q" "length (rgb P) = length (rgb q)" "m_fSmallFormat P = m_fSmallFormat q" "m_ctagReserved P = m_ctagReserved q"
    using pl(1) by (simp_all add: prepared_def)
  have cbf: "cbFree (pghdr R) = cbFree (pghdr p) + Cb p k - cb"
    using fR(1) pl(2) room e(3) r(4) uq r(3) e(7) inv_facts(9) [OF assms(1)] by (simp add: ushort_def)
  have ck: "Cb q k = 0" using r(12) [of k] k e(2,4) by simp
  have "page_inv R"
    using fl(1,2) ck cbf uq fR(8) selP(2) room e(3) r(4) cb by (simp add: page_inv_laid)
  moreover have "lines R = (lines p)[k := new_line (m_fSmallFormat p) k f (concat rgdata)]"
    unfolding fl(3) r(2,5) e(5) by (rule list_update_same) (simp_all add: lines_def e(4,8))
  ultimately have "replaced p k rgdata f R"
    unfolding replaced_def using fR selP e r cbf cb by simp
  then show ?thesis using q(1) by (auto simp: R_def P_def swap)
qed

lemma replace_and_scrub:
  assumes "page_inv p" and k: "k < m_itagMicFree p" and "f < 8" and cb: "cb = length (concat rgdata)"
    and room: "cb \<le> Cb p k + cbFree (pghdr p)" and prep: "prepared p P k (Ib p k) cb"
    and cP: "cbFree (pghdr P) = cbFree (pghdr p) + Cb p k - cb"
  defines "R \<equiv> CopyData (SetFlags P k f) k rgdata"
  shows "replaced p k rgdata f R"
    and "cb < Cb p k \<Longrightarrow> replaced p k rgdata f (set_bytes R (Ib R k + Cb R k) (replicate (Cb p k - cb) b))"
proof -
  have l: "laid p" and u: "cbFree (pghdr p) + used p = length (rgb p)" using assms(1) by (simp_all add: page_inv_laid)
  note lp = laid_facts [OF l]
  note fl = fill_laid [OF prep [unfolded cb] assms(3), folded R_def] and ft = fill_tag [OF prep [unfolded cb] assms(3) refl, folded R_def]
  note fR = frameD [OF ft(1)]
  have selP: "m_itagMicFree P = m_itagMicFree p" "length (rgb P) = length (rgb p)" "m_fSmallFormat P = m_fSmallFormat p" "m_ctagReserved P = m_ctagReserved p"
    using prep by (simp_all add: prepared_def)
  have free: "cbFree (pghdr R) + used R = length (rgb p)" using fl(2) u fR(1) cP room cb by simp
  show "replaced p k rgdata f R"
    unfolding replaced_def using fl(1,3) fR selP free cP cb by (simp add: page_inv_laid)
  assume shrink: "cb < Cb p k"
  let ?s = "set_bytes R (Ib R k + Cb R k) (replicate (Cb p k - cb) b)"
  have inside: "Ib R k + Cb R k + length (replicate (Cb p k - cb) b) + 4 * m_itagMicFree R \<le> length (rgb R)"
    using shrink lp(5) lp(6) [OF k] fR(4,8) selP ft(2,3) cb by simp
  have gap: "Ib R i + Cb R i \<le> Ib R k + Cb R k \<or> Ib R k + Cb R k + length (replicate (Cb p k - cb) b) \<le> Ib R i"
    if i: "i < m_itagMicFree R" "Cb R i \<noteq> 0" for i
  proof (cases "i = k")
    case False
    then have "i < m_itagMicFree p" using i(1) fR(4) selP(1) by simp
    then show ?thesis
      using ft(2,3) ft(5) [OF _ False] i(2) lp(7) [OF _ k False] shrink cb by (auto simp: apart_def)
  qed simp
  note g = scrub_gap [OF fl(1) inside gap]
  show "replaced p k rgdata f ?s"
    unfolding replaced_def using g fl(3) fR selP free cP cb frameD [OF g(4)] by (simp add: page_inv_laid)
qed

theorem ReplaceTag_ok:
  assumes "page_inv p" and k: "k < m_itagMicFree p" and "f < 8"
    and room: "length (concat rgdata) \<le> Cb p k + cbFree (pghdr p)"
  shows "\<exists>q. ReplaceTag p k rgdata f = Some q \<and> replaced p k rgdata f q"
proof -
  let ?cb = "length (concat rgdata)" and ?F = "ibMicFree (pghdr p)"
  have l: "laid p" and u: "cbFree (pghdr p) + used p = length (rgb p)" using assms(1) by (simp_all add: page_inv_laid)
  note lp = laid_facts [OF l]
  have "Cb p k \<le> (\<Sum>i<m_itagMicFree p. Cb p i)" using k by (intro member_le_sum) auto
  then have "?cb \<le> length (rgb p)" "Cb p k \<le> length (rgb p)" using room u by (simp_all add: used_def)
  moreover have "msk p < 32768" by (simp add: msk_def)
  ultimately have small: "?cb < 32768" "Cb p k < 32768" "?cb < 65536" using lp(3) by simp_all
  have diff: "sint (word_of_int (int (Cb p k) - int (ushort (int ?cb))) :: USHORT) = int (Cb p k) - int ?cb"
    using cbDiff_exact [OF small(2,1)] small(3) by simp
  have us: "ushort (int (CbDataTotal rgdata)) = ?cb" using small(3) by simp
  show ?thesis
  proof (cases "?cb \<le> Cb p k \<or> Ib p k + Cb p k = ?F \<and> CbContiguousFree p \<ge> int ?cb - int (Cb p k)")
    case True
    define H where "H = (if Ib p k + Cb p k = ?F then set_ibMicFree (int ?F - (int (Cb p k) - int ?cb)) p else p)"
    define P where "P = SetCb (set_cbFree (int (cbFree (pghdr p)) + (int (Cb p k) - int ?cb)) H) k ?cb"
    define R where "R = CopyData (SetFlags P k f) k rgdata"
    have place: "?cb \<le> Cb p k \<or> Ib p k + Cb p k = ?F \<and> Ib p k + ?cb + 4 * m_itagMicFree p \<le> length (rgb p)"
      using True sizes_eq(4) [OF lp(4)] by auto
    note pr = replace_in_place [OF assms(1) k assms(3) refl room place, folded H_def, folded P_def]
    note sc = replace_and_scrub [OF assms(1) k assms(3) refl room pr, folded R_def]
    define q where "q = (if Cb p k > ?cb \<and> m_fRuntimeScrubbingEnabled R
      then set_bytes R (Ib R k + Cb R k) (replicate (Cb p k - ?cb) (of_char CHR ''R'')) else R)"
    have H: "cbFree (pghdr H) = cbFree (pghdr p)" by (simp add: H_def)
    have "nat (int (Cb p k) - int ?cb) = Cb p k - ?cb" by linarith
    then have "ReplaceTag p k rgdata f = Some q"
      unfolding ReplaceTag_def us Let_def using True diff small(3)
      by (cases "Ib p k + Cb p k = ?F"; cases "?cb < Cb p k"; simp add: q_def R_def P_def H_def del: length_concat)
    moreover have "replaced p k rgdata f q" using sc by (simp add: q_def)
    ultimately show ?thesis by blast
  next
    case False
    then have grow: "\<not> ?cb \<le> Cb p k" by simp
    define s where "s = (if m_fRuntimeScrubbingEnabled p then set_bytes p (Ib p k) (replicate (Cb p k) (of_char CHR ''R'')) else p)"
    have s: "cbFree (pghdr s) = cbFree (pghdr p)" "Cb s k = Cb p k"
      using scrub_line(2) [OF l k _ k, of "replicate (Cb p k) (of_char CHR ''R'')"] by (simp_all add: s_def)
    obtain q where q: "FreeSpace (SetFlags (SetCb (SetIb (set_cbFree (int (cbFree (pghdr p)) + int (Cb p k)) s) k 0) k 0) k 0) (int ?cb) = Some q"
      "replaced p k rgdata f (CopyData (SetFlags (SetCb (set_cbFree (int (cbFree (pghdr q)) - int ?cb)
       (set_ibMicFree (int (ibMicFree (pghdr q)) + int ?cb) (SetIb q k (ibMicFree (pghdr q))))) k ?cb) k f) k rgdata)"
      using replace_by_move [OF assms(1) k assms(3) refl room] unfolding s_def by blast
    then show ?thesis
      unfolding ReplaceTag_def us Let_def s_def [symmetric] using False grow diff small(3) s
      by (cases "Ib p k + Cb p k = ?F") (simp_all del: length_concat)
  qed
qed

end
