(* ===== verification/Cpage_Ops.thy ===== *)
theory Cpage_Ops
  imports Cpage_Change
begin

unbundle bit_operations_syntax

text \<open>
  The public operations of a page as an implementation of an editable list. The locale
  \<open>line_store\<close> states what the clients of a page rely on: each operation succeeds when there is
  room, keeps the invariant and edits the list of records. What follows for whole sequences of
  operations is proved once in the locale, against the machine \<open>list_op\<close> on plain lists, and
  carried over to \<open>CPAGE\<close> by its interpretation.
\<close>

section \<open>Replacing the flags\<close>

lemma set_bytes_same: "subbuf k (length bs) (rgb p) = bs \<Longrightarrow> set_bytes p k bs = p"
  by (simp add: set_bytes_def blit_same)

lemma SetFlags_write:
  assumes "slot p k" and "f < 8" and fit: "Cb p k \<noteq> 0 \<Longrightarrow> Ib p k + Cb p k + 4 * (k + 1) \<le> length (rgb p)"
  shows "SetFlags p k f = CopyData (SetFlags p k f) k [line_bytes p k]"
proof (cases "Cb p k = 0")
  case True
  then have "SetFlags p k f = put_flags p k f" by (auto simp: SetFlags_def put_flags_def Let_def)
  then show ?thesis using write_empty [OF assms(1,2) True, of "[line_bytes p k]"] True by (simp add: line_bytes_def)
next
  case False
  note fit = fit [OF False]
  have bs: "length (line_bytes p k) = Cb p k" "subbuf (Ib p k) (length (line_bytes p k)) (rgb p) = line_bytes p k"
    using fit by (simp_all add: line_bytes_def)
  have w: "CopyData (SetFlags p k f) k [line_bytes p k]
      = set_bytes (put_flags p k f) (Ib p k) (stamp (m_fSmallFormat p) k f (line_bytes p k))"
    using write_line [OF assms(1,2), of "[line_bytes p k]"] bs fit by simp
  show ?thesis
  proof (cases "m_fSmallFormat p \<or> k = 0 \<or> Cb p k < 2")
    case True
    have "subbuf (Ib p k) (Cb p k) (rgb (put_flags p k f)) = line_bytes p k"
      using fit assms(1) by (simp add: subbuf_put_flags line_bytes_def)
    then have "set_bytes (put_flags p k f) (Ib p k) (line_bytes p k) = put_flags p k f"
      using bs by (intro set_bytes_same) simp
    moreover have "stamp (m_fSmallFormat p) k f (line_bytes p k) = line_bytes p k" using True bs by (auto simp: stamp_def)
    moreover have "SetFlags p k f = put_flags p k f" using True by (auto simp: SetFlags_def put_flags_def Let_def)
    ultimately show ?thesis using w by simp
  next
    case False
    define us :: USHORT where "us = (load_le (subbuf (Ib p k) 2 (rgb p)) AND NOT mskTagFlags) OR push_bit 13 f"
    have "subbuf 0 2 (line_bytes p k) = subbuf (Ib p k) 2 (rgb p)" using False by (simp add: line_bytes_def subbuf_def)
    then have st: "stamp (m_fSmallFormat p) k f (line_bytes p k) = blit (line_bytes p k) 0 (store_le 2 us)"
      using False bs stamp_bytes [of "line_bytes p k" f] by (simp add: stamp_def us_def)
    have "blit (rgb p) (Ib p k) (store_le 2 us) = blit (rgb p) (Ib p k) (blit (line_bytes p k) 0 (store_le 2 us))"
      using blit_blit_inside [of "Ib p k" "line_bytes p k" "rgb p" 0 "store_le 2 us"] blit_same [OF bs(2)] bs(1) fit False by simp
    then show ?thesis unfolding w st using False by (simp add: SetFlags_def us_def put_flags_def set_bytes_def)
  qed
qed

theorem ReplaceTagFlags_ok:
  assumes "page_inv p" and k: "k < m_itagMicFree p" and "f < 8"
  shows "page_inv (ReplaceTagFlags p k f)"
    and "lines (ReplaceTagFlags p k f) = (lines p)[k := new_line (m_fSmallFormat p) k f (line_bytes p k)]"
    and "cbFree (pghdr (ReplaceTagFlags p k f)) = cbFree (pghdr p)"
    and "m_ctagReserved (ReplaceTagFlags p k f) = m_ctagReserved p" and "m_fSmallFormat (ReplaceTagFlags p k f) = m_fSmallFormat p"
proof -
  have l: "laid p" and u: "cbFree (pghdr p) + used p = length (rgb p)" using assms(1) by (simp_all add: page_inv_laid)
  note lp = laid_facts [OF l]
  have fit: "Cb p k \<noteq> 0 \<Longrightarrow> Ib p k + Cb p k + 4 * m_itagMicFree p \<le> length (rgb p)" using lp(5) lp(6) [OF k] by simp
  have len: "length (line_bytes p k) = Cb p k" using fit by (cases "Cb p k = 0") (simp_all add: line_bytes_def)
  have "Cb p k = 0 \<or> Ib p j + Cb p j \<le> Ib p k \<or> Ib p k + Cb p k \<le> Ib p j" if "j < m_itagMicFree p" "j \<noteq> k" "Cb p j \<noteq> 0" for j
    using lp(7) [OF that(1) k that(2)] that(3) by (auto simp: apart_def)
  then have prep: "prepared p p k (Ib p k) (length (concat [line_bytes p k]))"
    unfolding prepared_def using l k fit len lp(5,6) by simp
  have eq: "ReplaceTagFlags p k f = CopyData (SetFlags p k f) k [line_bytes p k]"
    unfolding ReplaceTagFlags_def using fit k by (intro SetFlags_write lp(9) assms(2,3)) simp_all
  note fl = fill_laid [OF prep assms(3), folded eq]
  show "cbFree (pghdr (ReplaceTagFlags p k f)) = cbFree (pghdr p)" "m_ctagReserved (ReplaceTagFlags p k f) = m_ctagReserved p"
    "m_fSmallFormat (ReplaceTagFlags p k f) = m_fSmallFormat p" by (simp_all add: ReplaceTagFlags_def)
  show "lines (ReplaceTagFlags p k f) = (lines p)[k := new_line (m_fSmallFormat p) k f (line_bytes p k)]" using fl(3) by simp
  have "length (rgb (ReplaceTagFlags p k f)) = length (rgb p)"
    using fill_tag(1) [OF prep assms(3) refl, folded eq] by (rule frameD(8))
  then show "page_inv (ReplaceTagFlags p k f)" using fl(1,2) u len by (simp add: page_inv_laid ReplaceTagFlags_def)
qed

section \<open>An editable list\<close>

datatype 'd page_op = OpInsert nat 'd | OpReplace nat 'd | OpDelete nat

text \<open>
  The specification: a list of records and a count of free bytes. \<open>mk\<close> is the record some
  data makes, \<open>cost\<close> the bytes the data takes, \<open>sz\<close> the bytes a record takes. A request that
  has no room or names no record is not allowed.
\<close>

fun list_op :: "('d \<Rightarrow> 'l) \<Rightarrow> ('d \<Rightarrow> nat) \<Rightarrow> ('l \<Rightarrow> nat) \<Rightarrow> 'd page_op \<Rightarrow> 'l list \<times> nat \<Rightarrow> ('l list \<times> nat) option" where
  "list_op mk cost sz (OpInsert i d) (xs, free) =
     (if i \<le> length xs \<and> cost d + 4 \<le> free then Some (take i xs @ mk d # drop i xs, free - (cost d + 4)) else None)"
| "list_op mk cost sz (OpReplace i d) (xs, free) =
     (if i < length xs \<and> cost d \<le> sz (xs ! i) + free then Some (xs[i := mk d], free + sz (xs ! i) - cost d) else None)"
| "list_op mk cost sz (OpDelete i) (xs, free) =
     (if i < length xs then Some (take i xs @ drop (Suc i) xs, free + sz (xs ! i) + 4) else None)"

primrec run_ops :: "('o \<Rightarrow> 's \<Rightarrow> 's option) \<Rightarrow> 'o list \<Rightarrow> 's \<Rightarrow> 's option" where
  "run_ops step [] s = Some s"
| "run_ops step (x # xs) s = Option.bind (step x s) (run_ops step xs)"

fun store_op :: "('p \<Rightarrow> nat \<Rightarrow> 'd \<Rightarrow> 'p option) \<Rightarrow> ('p \<Rightarrow> nat \<Rightarrow> 'd \<Rightarrow> 'p option) \<Rightarrow> ('p \<Rightarrow> nat \<Rightarrow> 'p) \<Rightarrow> 'd page_op \<Rightarrow> 'p \<Rightarrow> 'p option" where
  "store_op ins rep del (OpInsert i d) p = ins p i d"
| "store_op ins rep del (OpReplace i d) p = rep p i d"
| "store_op ins rep del (OpDelete i) p = Some (del p i)"

primrec ok_op :: "('d \<Rightarrow> bool) \<Rightarrow> 'd page_op \<Rightarrow> bool" where
  "ok_op ok (OpInsert i d) = ok d"
| "ok_op ok (OpReplace i d) = ok d"
| "ok_op ok (OpDelete i) = True"

locale line_store =
  fixes inv :: "'p \<Rightarrow> bool" and records :: "'p \<Rightarrow> 'l list" and free :: "'p \<Rightarrow> nat" and kind :: "'p \<Rightarrow> 'k"
    and mk :: "'k \<Rightarrow> 'd \<Rightarrow> 'l" and cost :: "'d \<Rightarrow> nat" and sz :: "'l \<Rightarrow> nat" and ok :: "'k \<Rightarrow> 'd \<Rightarrow> bool"
    and ins :: "'p \<Rightarrow> nat \<Rightarrow> 'd \<Rightarrow> 'p option" and rep :: "'p \<Rightarrow> nat \<Rightarrow> 'd \<Rightarrow> 'p option" and del :: "'p \<Rightarrow> nat \<Rightarrow> 'p"
  assumes ins: "inv p \<Longrightarrow> ok (kind p) d \<Longrightarrow> i \<le> length (records p) \<Longrightarrow> cost d + 4 \<le> free p \<Longrightarrow>
      \<exists>q. ins p i d = Some q \<and> inv q \<and> records q = take i (records p) @ mk (kind p) d # drop i (records p)
        \<and> free q = free p - (cost d + 4) \<and> kind q = kind p"
    and rep: "inv p \<Longrightarrow> ok (kind p) d \<Longrightarrow> i < length (records p) \<Longrightarrow> cost d \<le> sz (records p ! i) + free p \<Longrightarrow>
      \<exists>q. rep p i d = Some q \<and> inv q \<and> records q = (records p)[i := mk (kind p) d]
        \<and> free q = free p + sz (records p ! i) - cost d \<and> kind q = kind p"
    and del: "inv p \<Longrightarrow> i < length (records p) \<Longrightarrow>
      inv (del p i) \<and> records (del p i) = take i (records p) @ drop (Suc i) (records p)
        \<and> free (del p i) = free p + sz (records p ! i) + 4 \<and> kind (del p i) = kind p"
    and sz_mk: "sz (mk k d) = cost d"
begin

definition view :: "'p \<Rightarrow> 'l list \<times> nat" where
  "view p = (records p, free p)"

lemma step_refines:
  assumes "inv p" and "ok_op (ok (kind p)) x" and "list_op (mk (kind p)) cost sz x (view p) = Some v"
  shows "\<exists>q. store_op ins rep del x p = Some q \<and> inv q \<and> view q = v \<and> kind q = kind p"
proof (cases x)
  case (OpInsert i d)
  then show ?thesis using ins [OF assms(1), of d i] assms(2,3) by (auto simp: view_def split: if_splits)
next
  case (OpReplace i d)
  then show ?thesis using rep [OF assms(1), of d i] assms(2,3) by (auto simp: view_def split: if_splits)
next
  case (OpDelete i)
  then show ?thesis using del [OF assms(1), of i] assms(3) by (auto simp: view_def split: if_splits)
qed

lemma run_refines:
  assumes "inv p" and "list_all (ok_op (ok (kind p))) xs" and "run_ops (list_op (mk (kind p)) cost sz) xs (view p) = Some v"
  shows "\<exists>q. run_ops (store_op ins rep del) xs p = Some q \<and> inv q \<and> view q = v \<and> kind q = kind p"
  using assms
proof (induction xs arbitrary: p)
  case (Cons x xs)
  then obtain w where w: "list_op (mk (kind p)) cost sz x (view p) = Some w" "run_ops (list_op (mk (kind p)) cost sz) xs w = Some v"
    by (auto simp: bind_eq_Some_conv)
  obtain q where q: "store_op ins rep del x p = Some q" "inv q" "view q = w" "kind q = kind p"
    using step_refines [OF Cons.prems(1) _ w(1)] Cons.prems(2) by auto
  show ?case using Cons.IH [of q] q w(2) Cons.prems(2) by auto
qed (auto simp: view_def)

text \<open>The bytes of a page are conserved, so a full page can always be emptied again.\<close>

definition total :: "'p \<Rightarrow> nat" where
  "total p = free p + (\<Sum>l\<leftarrow>records p. sz l + 4)"

lemma sum_list_update: "i < length xs \<Longrightarrow> (\<Sum>l\<leftarrow>xs[i := x]. f l) + f (xs ! i) = (\<Sum>l\<leftarrow>xs. f l) + (f x :: nat)"
  by (induction xs arbitrary: i) (auto split: nat.splits)

lemma sum_list_split_at: "i \<le> length xs \<Longrightarrow> (\<Sum>l\<leftarrow>xs. f l) = (\<Sum>l\<leftarrow>take i xs. f l) + (\<Sum>l\<leftarrow>drop i xs. f l :: nat)"
  by (metis append_take_drop_id map_append sum_list_append)

lemma step_total:
  assumes "inv p" and "ok_op (ok (kind p)) x" and "list_op (mk (kind p)) cost sz x (view p) = Some v" and "store_op ins rep del x p = Some q"
  shows "total q = total p"
proof -
  have "view q = v" using step_refines [OF assms(1-3)] assms(4) by auto
  then have q: "total q = snd v + (\<Sum>l\<leftarrow>fst v. sz l + 4)" by (auto simp: view_def total_def)
  have "snd v + (\<Sum>l\<leftarrow>fst v. sz l + 4) = total p"
  proof (cases x)
    case (OpInsert i d)
    then show ?thesis
      using assms(3) sum_list_split_at [of i "records p" "\<lambda>l. sz l + 4"] by (auto simp: view_def total_def sz_mk split: if_splits)
  next
    case (OpReplace i d)
    then show ?thesis
      using assms(3) sum_list_update [of i "records p" "\<lambda>l. sz l + 4" "mk (kind p) d"]
      by (auto simp: view_def total_def sz_mk split: if_splits)
  next
    case (OpDelete i)
    then have i: "i < length (records p)" using assms(3) by (auto simp: view_def split: if_splits)
    have "(\<Sum>l\<leftarrow>records p. sz l + 4) = (\<Sum>l\<leftarrow>take i (records p). sz l + 4) + (sz (records p ! i) + 4) + (\<Sum>l\<leftarrow>drop (Suc i) (records p). sz l + 4)"
      using i sum_list_split_at [of i "records p" "\<lambda>l. sz l + 4"] by (simp flip: Cons_nth_drop_Suc)
    then show ?thesis using OpDelete assms(3) i by (auto simp: view_def total_def)
  qed
  with q show ?thesis by simp
qed

end

section \<open>Pages as an editable list\<close>

text \<open>The records of a page: the lines behind the external header and the other reserved tags.\<close>

definition records :: "CPAGE \<Rightarrow> (BYTE list \<times> USHORT) list" where
  "records p = drop (m_ctagReserved p) (lines p)"

definition reserved_lines :: "CPAGE \<Rightarrow> (BYTE list \<times> USHORT) list" where
  "reserved_lines p = take (m_ctagReserved p) (lines p)"

definition record_of :: "bool \<Rightarrow> BYTE list list \<times> USHORT \<Rightarrow> BYTE list \<times> USHORT" where
  "record_of fSmallFormat d = new_line fSmallFormat 1 (snd d) (concat (fst d))"

definition data_size :: "BYTE list list \<times> USHORT \<Rightarrow> nat" where
  "data_size d = length (concat (fst d))"

definition line_size :: "BYTE list \<times> USHORT \<Rightarrow> nat" where
  "line_size l = length (fst l)"

definition page_step :: "(BYTE list list \<times> USHORT) page_op \<Rightarrow> CPAGE \<Rightarrow> CPAGE option" where
  "page_step = store_op (\<lambda>p i d. Insert p i (fst d) (snd d)) (\<lambda>p i d. Replace p i (fst d) (snd d)) Delete"

lemma drop_take_append: "drop c (take (i + c) xs) = take i (drop c xs)"
  by (simp add: drop_take)

lemma take_take_append: "i + c \<le> length xs \<Longrightarrow> take c (take (i + c) xs @ zs) = take c xs"
  by (simp add: min_def)

lemma length_lines [simp]: "length (lines p) = m_itagMicFree p"
  by (simp add: lines_def)

lemma length_records: "page_inv p \<Longrightarrow> length (records p) = m_itagMicFree p - m_ctagReserved p"
  by (simp add: records_def)

lemma nth_records: "page_inv p \<Longrightarrow> i < length (records p) \<Longrightarrow> records p ! i = line p (i + m_ctagReserved p)"
  by (simp add: records_def lines_def add.commute)

lemma record_size:
  assumes "page_inv p" and "k < m_itagMicFree p"
  shows "line_size (line p k) = Cb p k"
proof (cases "Cb p k = 0")
  case False
  then have "Ib p k + Cb p k \<le> length (rgb p)" using inv_facts(5) [OF assms(1)] inv_facts(6) [OF assms False] by simp
  then show ?thesis by (simp add: line_size_def line_def line_bytes_def)
qed (simp add: line_size_def line_def line_bytes_def)

lemma new_line_record: "1 \<le> k \<Longrightarrow> new_line b k f bs = record_of b ([bs], f)"
  by (simp add: record_of_def new_line_def stamp_def)

lemma record_of_concat: "record_of b ([concat d], f) = record_of b (d, f)"
  by (simp add: record_of_def)

lemma Insert_ok:
  assumes "page_inv p" and "f < 8" and "i \<le> length (records p)" and "length (concat d) + 4 \<le> cbFree (pghdr p)"
  shows "\<exists>q. Insert p i d f = Some q \<and> page_inv q \<and> records q = take i (records p) @ record_of (m_fSmallFormat p) (d, f) # drop i (records p)
    \<and> reserved_lines q = reserved_lines p
    \<and> cbFree (pghdr q) = cbFree (pghdr p) - (length (concat d) + 4) \<and> m_fSmallFormat q = m_fSmallFormat p"
proof -
  note inv = inv_facts [OF assms(1)]
  let ?k = "i + m_ctagReserved p"
  have "?k \<le> m_itagMicFree p" using assms(3) length_records [OF assms(1)] inv(2) by simp
  then obtain q where q: "InsertTag p ?k d f = Some q" "page_inv q"
    "lines q = take ?k (lines p) @ new_line (m_fSmallFormat p) ?k f (concat d) # drop ?k (lines p)"
    "cbFree (pghdr q) = cbFree (pghdr p) - (length (concat d) + 4)" "m_fSmallFormat q = m_fSmallFormat p" "m_ctagReserved q = m_ctagReserved p"
    using InsertTag_ok [OF assms(1) _ _ assms(2,4), of ?k] by auto
  moreover have "1 \<le> ?k" using inv(1) by simp
  ultimately show ?thesis
    using \<open>?k \<le> m_itagMicFree p\<close> new_line_record [of ?k "m_fSmallFormat p" f "concat d"]
    by (simp add: Insert_def records_def reserved_lines_def record_of_concat drop_take_append take_take_append)
qed

lemma Replace_ok:
  assumes "page_inv p" and "f < 8" and "i < length (records p)" and "length (concat d) \<le> line_size (records p ! i) + cbFree (pghdr p)"
  shows "\<exists>q. Replace p i d f = Some q \<and> page_inv q \<and> records q = (records p)[i := record_of (m_fSmallFormat p) (d, f)]
    \<and> reserved_lines q = reserved_lines p
    \<and> cbFree (pghdr q) = cbFree (pghdr p) + line_size (records p ! i) - length (concat d) \<and> m_fSmallFormat q = m_fSmallFormat p"
proof -
  note inv = inv_facts [OF assms(1)]
  let ?k = "i + m_ctagReserved p"
  have k: "?k < m_itagMicFree p" using assms(3) length_records [OF assms(1)] by simp
  have sz: "line_size (records p ! i) = Cb p ?k" using nth_records [OF assms(1,3)] record_size [OF assms(1) k] by simp
  obtain q where "ReplaceTag p ?k d f = Some q" "replaced p ?k d f q"
    using ReplaceTag_ok [OF assms(1) k assms(2), of d] assms(4) sz by auto
  moreover have "1 \<le> ?k" using inv(1) by simp
  ultimately show ?thesis
    using k sz new_line_record [of ?k "m_fSmallFormat p" f "concat d"]
    by (simp add: Replace_def replaced_def records_def reserved_lines_def record_of_concat drop_update_swap)
qed

lemma Delete_ok:
  assumes "page_inv p" and "i < length (records p)"
  shows "page_inv (Delete p i) \<and> records (Delete p i) = take i (records p) @ drop (Suc i) (records p)
    \<and> reserved_lines (Delete p i) = reserved_lines p
    \<and> cbFree (pghdr (Delete p i)) = cbFree (pghdr p) + line_size (records p ! i) + 4 \<and> m_fSmallFormat (Delete p i) = m_fSmallFormat p"
proof -
  let ?k = "i + m_ctagReserved p"
  have k: "?k < m_itagMicFree p" using assms(2) length_records [OF assms(1)] by simp
  have sz: "line_size (records p ! i) = Cb p ?k" using nth_records [OF assms] record_size [OF assms(1) k] by simp
  show ?thesis
    using DeleteTag_ok [OF assms(1) _ k] k sz
    by (simp add: Delete_def records_def reserved_lines_def drop_take_append take_take_append)
qed

interpretation cpage: line_store page_inv records "\<lambda>p. cbFree (pghdr p)" m_fSmallFormat record_of data_size line_size
  "\<lambda>_ d. snd d < 8" "\<lambda>p i d. Insert p i (fst d) (snd d)" "\<lambda>p i d. Replace p i (fst d) (snd d)" Delete
proof (unfold_locales, goal_cases)
  case (1 p d i)
  then show ?case using Insert_ok [of p "snd d" i "fst d"] by (auto simp: data_size_def)
next
  case (2 p d i)
  then show ?case using Replace_ok [of p "snd d" i "fst d"] by (auto simp: data_size_def)
next
  case (3 p i)
  then show ?case using Delete_ok by blast
next
  case (4 k d)
  then show ?case by (simp add: line_size_def record_of_def new_line_def data_size_def)
qed

section \<open>The external header\<close>

lemma SetExternalHeader_ok:
  assumes "page_inv p" and "fFlags < 8" and "CbDataTotal rgdata \<le> Cb p 0 + cbFree (pghdr p)"
  shows "\<exists>q. SetExternalHeader p rgdata fFlags = Some q \<and> page_inv q \<and> records q = records p
    \<and> line_bytes q 0 = concat rgdata \<and> tl (lines q) = tl (lines p)"
proof -
  note inv = inv_facts [OF assms(1)]
  have "0 < m_itagMicFree p" using inv(1,2) by linarith
  then obtain q where q: "ReplaceTag p 0 rgdata fFlags = Some q" "replaced p 0 rgdata fFlags q"
    using ReplaceTag_ok [OF assms(1) _ assms(2), of 0 rgdata] assms(3) by auto
  obtain l ls where ls: "lines p = l # ls" using \<open>0 < m_itagMicFree p\<close> by (cases "lines p") (auto simp: lines_def)
  have lq: "lines q = new_line (m_fSmallFormat p) 0 fFlags (concat rgdata) # ls" using q(2) ls by (simp add: replaced_def)
  moreover have "lines q ! 0 = line q 0" using q(2) \<open>0 < m_itagMicFree p\<close> by (simp add: lines_def replaced_def)
  ultimately have "line q 0 = new_line (m_fSmallFormat p) 0 fFlags (concat rgdata)" by simp
  then have "line_bytes q 0 = concat rgdata" by (simp add: line_def new_line_def stamp_def)
  moreover have "records q = records p" using lq ls q(2) inv(1) by (cases "m_ctagReserved p") (simp_all add: records_def replaced_def)
  ultimately show ?thesis using q ls lq by (simp add: SetExternalHeader_def replaced_def)
qed

end
