(* ===== verification/Cpage_Space.thy ===== *)
theory Cpage_Space
  imports Cpage_Ops
begin

unbundle bit_operations_syntax

text \<open>
  New pages, and the operations that go over a whole page: resetting line flags, overwriting
  the unused bytes, and handing out the used parts of a page.
\<close>

section \<open>New pages\<close>

lemma PreInitializeNewPage_sel:
  "rgb (PreInitializeNewPage p pgno objid dbtime) = replicate (length (rgb p)) 0"
  "m_fSmallFormat (PreInitializeNewPage p pgno objid dbtime) = m_fSmallFormat p"
  "m_cbPage (PreInitializeNewPage p pgno objid dbtime) = m_cbPage p"
  "m_itagMicFree (PreInitializeNewPage p pgno objid dbtime) = 0"
  "ibMicFree (pghdr (PreInitializeNewPage p pgno objid dbtime)) = 0"
  "cbFree (pghdr (PreInitializeNewPage p pgno objid dbtime)) = ushort (CbPageData (p\<lparr>m_itagMicFree := 0, m_ctagReserved := 0\<rparr>))"
  by (simp_all add: PreInitializeNewPage_def SetFNewRecordFormat_def SetPageFlags_def Let_def upd_hdr_def)

theorem new_page_ok:
  fixes pgno objid fPageFlags :: ULONG and dbtime :: QWORD
  assumes "4 \<le> length (rgb p)" and "length (rgb p) \<le> msk p" and "m_cbPage p = CbBuffer p"
  defines "q \<equiv> ConsumePreInitPage (PreInitializeNewPage p pgno objid dbtime) fPageFlags"
  shows "page_inv q" and "lines q = [([], 0)]" and "records q = []" and "cbFree (pghdr q) = length (rgb p) - 4"
    and "m_fSmallFormat q = m_fSmallFormat p" and "m_ctagReserved q = 1" and "length (rgb q) = length (rgb p)"
proof -
  define s where "s = SetITagState (PreInitializeNewPage p pgno objid dbtime) 1 1"
  define t where "t = set_cbFree (int (cbFree (pghdr s)) - 4) s"
  define E where "E = SetFlags (SetCb (SetIb t 0 0) 0 0) 0 0"
  have q: "q = SetPageFlags E ((fPageFlags OR fPageNewRecordFormat) AND NOT fPagePreInit)"
    by (simp add: q_def ConsumePreInitPage_def Let_def E_def t_def s_def sizeof_TAG_def)
  have data: "CbPageData (p\<lparr>m_itagMicFree := 0, m_ctagReserved := 0\<rparr>) = int (length (rgb p))"
    using assms(3) by (simp add: CbPageData_def CbBufferData_def CbAdjustForPage_def CbBuffer_def CbPageHeader_def ushort_def)
  have len: "length (rgb p) < 65536" using assms(2) msk_bound [of p] by simp
  have t: "rgb t = replicate (length (rgb p)) 0" "m_fSmallFormat t = m_fSmallFormat p" "m_cbPage t = m_cbPage p"
    "m_itagMicFree t = 1" "m_ctagReserved t = 1" "ibMicFree (pghdr t) = 0" "cbFree (pghdr t) = length (rgb p) - 4"
    using assms(1) len by (simp_all add: t_def s_def PreInitializeNewPage_sel data ushort_def)
  have slot: "slot t 0" using assms(1) t(1) by (simp add: slot_def)
  note c = clear_tag [OF slot, of E, unfolded E_def, OF disjI2, OF refl, folded E_def]
  note f = frameD [OF c(1)]
  have cE: "Cb E 0 = 0" and fE: "m_fSmallFormat p \<Longrightarrow> tag_flags E 0 = 0" using c(2,4) [OF slot] t(2) by simp_all
  have le: "line E 0 = ([], 0)" using cE fE f(3) t(2) by (auto simp: line_def line_bytes_def line_flags_def)
  have qE: "Cb q = Cb E" "Ib q = Ib E" "line q = line E" "apart q = apart E" "rgb q = rgb E" "m_fSmallFormat q = m_fSmallFormat p"
    "m_itagMicFree q = 1" "m_ctagReserved q = 1" "m_cbPage q = m_cbPage p" "cbFree (pghdr q) = length (rgb p) - 4" "ibMicFree (pghdr q) = 0"
    using f t by (simp_all add: q SetPageFlags_def)
  show lq: "lines q = [([], 0)]" by (simp add: lines_def qE le)
  show "m_fSmallFormat q = m_fSmallFormat p" "m_ctagReserved q = 1" "cbFree (pghdr q) = length (rgb p) - 4" by (simp_all add: qE)
  show lr: "length (rgb q) = length (rgb p)" using f(8) t(1) by (simp add: qE)
  show "records q = []" by (simp add: records_def lq qE)
  show "page_inv q"
    unfolding page_inv_def using assms(1-3) cE lr by (simp add: qE msk_def CbBuffer_def CbPageHeader_def)
qed

section \<open>Line flags\<close>

lemma FFlags_line:
  assumes "page_inv p" and "i < m_itagMicFree p"
  shows "FFlags p i = snd (line p i)"
proof (cases "Cb p i = 0")
  case True
  then show ?thesis by (simp add: FFlags_def line_def tag_flags_def line_flags_def line_bytes_def)
next
  case False
  then have "Ib p i + Cb p i \<le> length (rgb p)" using inv_facts(5) [OF assms(1)] inv_facts(6) [OF assms False] by simp
  then show ?thesis by (simp add: FFlags_eq line_def)
qed

lemma three_bits: "(\<And>n. bit w n \<Longrightarrow> n < 3) \<Longrightarrow> w < (8 :: USHORT)"
proof -
  assume "\<And>n. bit w n \<Longrightarrow> n < 3"
  then have "take_bit 3 w = w" by (intro bit_word_eqI) (auto simp: bit_take_bit_iff)
  then have "unat w = take_bit 3 (unat w)" by (metis unsigned_take_bit_eq)
  also have "\<dots> < 2 ^ 3" by (rule take_bit_nat_less_exp)
  finally show ?thesis by (simp add: word_less_nat_alt)
qed

lemma drop_bit_13_less: "drop_bit 13 (w :: USHORT) < 8"
  by (rule three_bits) (auto simp: bit_drop_bit_eq dest: bit_imp_le_length)

lemma line_flags_less: "line_flags bs < 8"
proof -
  have "drop_bit 5 (ucast (b :: BYTE)) < (8 :: USHORT)" for b
  proof (rule three_bits)
    fix n assume "bit (drop_bit 5 (ucast b :: USHORT)) n"
    then have "bit b (5 + n)" by (simp add: bit_drop_bit_eq bit_unsigned_iff)
    then show "n < 3" using bit_imp_le_length [of b "5 + n"] by simp
  qed
  then show ?thesis by (simp add: line_flags_def)
qed

lemma and_less: "w < 8 \<Longrightarrow> w AND v < (8 :: USHORT)"
  using word_and_le2 [of w v] by (rule order.strict_trans1)

lemma flags_less: "page_inv p \<Longrightarrow> i < m_itagMicFree p \<Longrightarrow> FFlags p i < 8"
  unfolding FFlags_line line_def tag_flags_def by (simp add: line_flags_less) (metis drop_bit_13_less drop_bit_and)

text \<open>What resetting flags makes of a line.\<close>

definition reflag :: "bool \<Rightarrow> nat \<Rightarrow> USHORT \<Rightarrow> BYTE list \<times> USHORT \<Rightarrow> BYTE list \<times> USHORT" where
  "reflag fSmallFormat itag fFlags l = new_line fSmallFormat itag (snd l AND NOT fFlags) (fst l)"

lemma reset_flags_fold:
  fixes fFlags :: USHORT
  assumes "page_inv p" and "distinct xs" and "set xs \<subseteq> {..<m_itagMicFree p}"
  defines "q \<equiv> fold (\<lambda>itag p. SetFlags p itag (FFlags p itag AND NOT fFlags)) xs p"
  shows "page_inv q \<and> lines q = map (\<lambda>i. if i \<in> set xs then reflag (m_fSmallFormat p) i fFlags (lines p ! i) else lines p ! i) [0..<m_itagMicFree p]
    \<and> cbFree (pghdr q) = cbFree (pghdr p) \<and> m_ctagReserved q = m_ctagReserved p \<and> m_fSmallFormat q = m_fSmallFormat p \<and> m_itagMicFree q = m_itagMicFree p"
  using assms(1-3) unfolding q_def
proof (induction xs arbitrary: p)
  case Nil
  then show ?case by (simp add: lines_def map_idI)
next
  case (Cons x xs)
  let ?q = "SetFlags p x (FFlags p x AND NOT fFlags)"
  have x: "x < m_itagMicFree p" using Cons.prems(3) by simp
  note r = ReplaceTagFlags_ok [OF Cons.prems(1) x and_less [OF flags_less [OF Cons.prems(1) x]], of "NOT fFlags", unfolded ReplaceTagFlags_def]
  have n: "m_itagMicFree ?q = m_itagMicFree p" by simp
  have lq: "lines ?q = (lines p)[x := reflag (m_fSmallFormat p) x fFlags (lines p ! x)]"
    using r(2) x by (simp add: reflag_def lines_def FFlags_line [OF Cons.prems(1) x] line_def)
  have nth: "lines ?q ! i = (if i = x then reflag (m_fSmallFormat p) x fFlags (lines p ! x) else lines p ! i)" if "i < m_itagMicFree p" for i
    using that x by (simp add: lq nth_list_update)
  show ?case
    using Cons.IH [OF r(1)] Cons.prems(2,3) r(3-5) n nth by (auto intro!: map_cong)
qed

theorem ResetAllFlags_ok:
  assumes "page_inv p"
  shows "page_inv (ResetAllFlags p fFlags)"
    and "records (ResetAllFlags p fFlags) = map (reflag (m_fSmallFormat p) 1 fFlags) (records p)"
    and "reserved_lines (ResetAllFlags p fFlags) = reserved_lines p"
    and "cbFree (pghdr (ResetAllFlags p fFlags)) = cbFree (pghdr p)"
proof -
  note inv = inv_facts [OF assms]
  let ?xs = "rev [m_ctagReserved p..<m_itagMicFree p]"
  have "distinct ?xs" "set ?xs \<subseteq> {..<m_itagMicFree p}" by auto
  note f = reset_flags_fold [OF assms this, of fFlags, folded ResetAllFlags_def]
  show "page_inv (ResetAllFlags p fFlags)" "cbFree (pghdr (ResetAllFlags p fFlags)) = cbFree (pghdr p)" using f by blast+
  have one: "reflag b i fFlags l = reflag b (Suc 0) fFlags l" if "1 \<le> i" for b i l
    using that by (simp add: reflag_def new_line_def stamp_def)
  have l: "lines (ResetAllFlags p fFlags) = map (\<lambda>i. if m_ctagReserved p \<le> i then reflag (m_fSmallFormat p) 1 fFlags (lines p ! i) else lines p ! i) [0..<m_itagMicFree p]"
    (is "_ = map ?g _")
    using f inv(1) by (auto intro!: map_cong one)
  have c: "m_ctagReserved (ResetAllFlags p fFlags) = m_ctagReserved p" using f by blast
  show "records (ResetAllFlags p fFlags) = map (reflag (m_fSmallFormat p) 1 fFlags) (records p)"
    unfolding records_def c l by (intro nth_equalityI) auto
  show "reserved_lines (ResetAllFlags p fFlags) = reserved_lines p"
    unfolding reserved_lines_def c l using inv(2) by (intro nth_equalityI) auto
qed

lemma FAnyLineHasFlagSet_iff:
  assumes "page_inv p"
  shows "FAnyLineHasFlagSet p fFlags \<longleftrightarrow> (\<exists>l\<in>set (records p). snd l AND fFlags \<noteq> 0)"
proof -
  have "records p = map (line p) [m_ctagReserved p..<m_itagMicFree p]"
    by (simp add: records_def lines_def drop_map)
  then show ?thesis using FFlags_line [OF assms] by (auto simp: FAnyLineHasFlagSet_def list_ex_iff)
qed

section \<open>Initialised pages\<close>

lemma replicate_zero_iff: "bs = replicate (length bs) 0 \<longleftrightarrow> (\<forall>x\<in>set bs. x = (0 :: BYTE))"
  by (metis in_set_replicate replicate_length_same)

lemma page_chunks_iff: "page_chunks pv i \<longleftrightarrow> (\<exists>x\<in>set (drop i pv). x \<noteq> 0)"
proof (induction pv i rule: page_chunks.induct)
  case (1 pv i)
  have chunk: "subbuf i k pv = replicate k 0 \<longleftrightarrow> (\<forall>x\<in>set (subbuf i k pv). x = 0)" if "i + k \<le> length pv" for k
    using that replicate_zero_iff [of "subbuf i k pv"] by simp
  have split: "set (drop i pv) = set (subbuf i 256 pv) \<union> set (drop (i + 256) pv)"
    by (metis add.commute append_take_drop_id drop_drop set_append subbuf_def)
  consider "i + 256 \<le> length pv" | "\<not> i + 256 \<le> length pv" "i < length pv" | "\<not> i < length pv" by linarith
  then show ?case
  proof cases
    case 1
    then show ?thesis using 1(1) chunk [of 256] "1.IH" split by (subst page_chunks.simps) auto
  next
    case 2
    then have "subbuf i (length pv - i) pv = drop i pv" by (simp add: subbuf_def)
    then show ?thesis using 2 chunk [of "length pv - i"] by (subst page_chunks.simps) auto
  qed (subst page_chunks.simps, simp)
qed

lemma FPageIsInitialized_iff: "FPageIsInitialized pv \<longleftrightarrow> (\<exists>x\<in>set pv. x \<noteq> 0)"
  by (simp add: FPageIsInitialized_def page_chunks_iff)

section \<open>Unused bytes\<close>

definition covered :: "CPAGE \<Rightarrow> nat \<Rightarrow> bool" where
  "covered p b \<longleftrightarrow> (\<exists>i < m_itagMicFree p. Ib p i \<le> b \<and> b < Ib p i + Cb p i)"

definition same_layout :: "CPAGE \<Rightarrow> CPAGE \<Rightarrow> bool" where
  "same_layout p q \<longleftrightarrow> frame p q \<and> laid q \<and> lines q = lines p \<and> (\<forall>i < m_itagMicFree p. Cb q i = Cb p i \<and> Ib q i = Ib p i)"

lemma same_layout_trans: "same_layout p q \<Longrightarrow> same_layout q r \<Longrightarrow> same_layout p r"
  unfolding same_layout_def using frame_trans frameD(4) by metis

lemma same_layout_covered: "same_layout p q \<Longrightarrow> covered q b \<longleftrightarrow> covered p b"
  unfolding same_layout_def covered_def using frameD(4) by (metis (no_types, lifting))

lemma scrub_same_layout:
  assumes "laid p" and "a + length bs + 4 * m_itagMicFree p \<le> length (rgb p)"
    and "\<And>i. i < m_itagMicFree p \<Longrightarrow> Cb p i \<noteq> 0 \<Longrightarrow> Ib p i + Cb p i \<le> a \<or> a + length bs \<le> Ib p i"
  shows "same_layout p (set_bytes p a bs)"
proof -
  have "Cb (set_bytes p a bs) i = Cb p i \<and> Ib (set_bytes p a bs) i = Ib p i" if "i < m_itagMicFree p" for i
    using that assms(2) tag_fields_set_bytes [OF laid_facts(9) [OF assms(1) that]] by simp
  then show ?thesis using scrub_gap [OF assms] by (simp add: same_layout_def)
qed

text \<open>
  Overwriting the gaps between lines in the order of their offsets. The tags not in the list lie
  before the first one of it.
\<close>

lemma zero_gaps_ok:
  assumes "laid p" and "xs \<noteq> []" and "set xs \<subseteq> {..<m_itagMicFree p}" and "\<forall>i\<in>set xs. Cb p i \<noteq> 0"
    and "sorted_wrt (\<lambda>i j. Ib p i + Cb p i \<le> Ib p j) xs"
    and "\<forall>i<m_itagMicFree p. Cb p i \<noteq> 0 \<longrightarrow> i \<in> set xs \<or> Ib p i + Cb p i \<le> Ib p (hd xs)"
  shows "\<exists>q. zero_gaps ch xs p = Some q \<and> same_layout p q
    \<and> (\<forall>b. b + 4 * m_itagMicFree p < length (rgb p) \<longrightarrow> rgb q ! b = rgb p ! b \<or> rgb q ! b = ch)
    \<and> (\<forall>b. Ib p (hd xs) \<le> b \<and> b < Ib p (last xs) \<and> \<not> covered p b \<longrightarrow> rgb q ! b = ch)"
  using assms
proof (induction ch xs p rule: zero_gaps.induct)
  case (1 ch x y xs p)
  let ?n = "m_itagMicFree p" and ?e = "Ib p x + Cb p x"
  note lp = laid_facts [OF "1.prems"(1)]
  have xy: "?e \<le> Ib p y" "x < ?n" "y < ?n" "Cb p y \<noteq> 0" using "1.prems"(3,4,5) by auto
  have fin: "Ib p y + 4 * ?n \<le> length (rgb p)" using lp(5) lp(6) [OF xy(3,4)] by simp
  define s where "s = set_bytes p ?e (replicate (Ib p y - ?e) ch)"
  have clear: "Ib p i + Cb p i \<le> ?e \<or> Ib p y \<le> Ib p i" if i: "i < ?n" "Cb p i \<noteq> 0" for i
  proof -
    consider "i = x" | "i = y" | "i \<in> set xs" | "Ib p i + Cb p i \<le> Ib p x"
      using "1.prems"(6) [rule_format, OF i] by auto
    then show ?thesis using "1.prems"(5) xy(1) by cases auto
  qed
  have sl: "same_layout p s"
    unfolding s_def using clear xy(1) fin by (intro scrub_same_layout "1.prems"(1)) auto
  note fr = frameD [OF sl [unfolded same_layout_def, THEN conjunct1]]
  have tag: "Cb s i = Cb p i" "Ib s i = Ib p i" if "i < ?n" for i using sl that by (simp_all add: same_layout_def)
  have tags: "Cb s i = Cb p i" "Ib s i = Ib p i" if "i \<in> set (y # xs)" for i using tag that "1.prems"(3) by auto
  have IH: "\<exists>q. zero_gaps ch (y # xs) s = Some q \<and> same_layout s q
    \<and> (\<forall>b. b + 4 * m_itagMicFree s < length (rgb s) \<longrightarrow> rgb q ! b = rgb s ! b \<or> rgb q ! b = ch)
    \<and> (\<forall>b. Ib s (hd (y # xs)) \<le> b \<and> b < Ib s (last (y # xs)) \<and> \<not> covered s b \<longrightarrow> rgb q ! b = ch)"
  proof -
    have sw: "sorted_wrt (\<lambda>i j. Ib s i + Cb s i \<le> Ib s j) (y # xs)"
    proof (rule sorted_wrt_mono_rel [of _ "\<lambda>i j. Ib p i + Cb p i \<le> Ib p j"])
      show "sorted_wrt (\<lambda>i j. Ib p i + Cb p i \<le> Ib p j) (y # xs)" using "1.prems"(5) by simp
    qed (simp add: tags)
    have others: "\<forall>i<m_itagMicFree s. Cb s i \<noteq> 0 \<longrightarrow> i \<in> set (y # xs) \<or> Ib s i + Cb s i \<le> Ib s (hd (y # xs))"
      using "1.prems"(6) tag xy(1,3) fr(4) by fastforce
    have pre: "laid s" "y # xs \<noteq> []" "set (y # xs) \<subseteq> {..<m_itagMicFree s}" "\<forall>i\<in>set (y # xs). Cb s i \<noteq> 0"
      using sl "1.prems"(3,4) fr(4) tags by (auto simp: same_layout_def)
    show ?thesis
    proof (cases "Ib p y = ?e")
      case True
      then have "s = p" by (simp add: s_def)
      then show ?thesis using "1.IH"(2) [OF refl refl] True pre sw others by simp
    next
      case False
      then have "nat (int (Ib p y) - int ?e) = Ib p y - ?e" "int ?e < int (Ib p y)" using xy(1) by simp_all
      then show ?thesis using "1.IH"(1) [OF refl refl] pre sw others by (simp add: s_def)
    qed
  qed
  then obtain q where q: "zero_gaps ch (y # xs) s = Some q" "same_layout s q"
    "\<And>b. b + 4 * ?n < length (rgb p) \<Longrightarrow> rgb q ! b = rgb s ! b \<or> rgb q ! b = ch"
    "\<And>b. Ib p y \<le> b \<Longrightarrow> b < Ib p (last (y # xs)) \<Longrightarrow> \<not> covered p b \<Longrightarrow> rgb q ! b = ch"
    using fr(4,8) tags(2) same_layout_covered [OF sl] last_in_set [of "y # xs"] by auto
  have "zero_gaps ch (x # y # xs) p = Some q"
  proof (cases "Ib p y = ?e")
    case False
    then have "nat (int (Ib p y) - int ?e) = Ib p y - ?e" "int ?e < int (Ib p y)" using xy(1) by simp_all
    then show ?thesis using q(1) by (simp add: s_def Let_def)
  qed (use q(1) in \<open>simp add: s_def\<close>)
  moreover have sb: "rgb s ! b = (if ?e \<le> b \<and> b < Ib p y then ch else rgb p ! b)" if "b < length (rgb p)" for b
    using that xy(1) fin by (auto simp: s_def nth_blit)
  then have "rgb q ! b = rgb p ! b \<or> rgb q ! b = ch" if "b + 4 * ?n < length (rgb p)" for b
    using q(3) [OF that] that by (auto split: if_splits)
  moreover have "rgb q ! b = ch" if b: "Ib p x \<le> b" "b < Ib p (last (x # y # xs))" "\<not> covered p b" for b
  proof (cases "b < Ib p y")
    case True
    then have "?e \<le> b" using b xy(2) by (auto simp: covered_def not_le)
    then show ?thesis using True sb [of b] q(3) [of b] fin by auto
  qed (use q(4) b in simp)
  ultimately show ?case using same_layout_trans [OF sl q(2)] by auto
qed (auto simp: same_layout_def)

lemma laid_set_ibMicFree_int:
  assumes "laid p" and "F + 4 * m_itagMicFree p \<le> length (rgb p)"
    and "\<And>i. i < m_itagMicFree p \<Longrightarrow> Cb p i \<noteq> 0 \<Longrightarrow> Ib p i + Cb p i \<le> F"
  shows "laid (set_ibMicFree (int F) p)" and "ibMicFree (pghdr (set_ibMicFree (int F) p)) = F"
    and "lines (set_ibMicFree (int F) p) = lines p"
  using assms laid_facts(8) [OF assms(1)] laid_set_ibMicFree [OF assms(1), of F] by (simp_all add: lines_def)

lemma sorted_nonempty:
  assumes "laid p"
  defines "xs \<equiv> sort_key (Ib p) (filter (\<lambda>i. Cb p i > 0) [0..<m_itagMicFree p])"
  shows "set xs = {i. i < m_itagMicFree p \<and> Cb p i \<noteq> 0}" and "sorted_wrt (\<lambda>i j. Ib p i + Cb p i \<le> Ib p j) xs"
proof -
  show s: "set xs = {i. i < m_itagMicFree p \<and> Cb p i \<noteq> 0}" by (auto simp: xs_def)
  have d: "distinct xs" by (simp add: xs_def)
  have "sorted_wrt (\<lambda>i j. Ib p i \<le> Ib p j) xs"
    using sorted_sort_key [of "Ib p" "filter (\<lambda>i. Cb p i > 0) [0..<m_itagMicFree p]"] unfolding sorted_map xs_def .
  then have le: "Ib p (xs ! a) \<le> Ib p (xs ! b)" if "a < b" "b < length xs" for a b
    using that unfolding sorted_wrt_iff_nth_less by blast
  show "sorted_wrt (\<lambda>i j. Ib p i + Cb p i \<le> Ib p j) xs"
    unfolding sorted_wrt_iff_nth_less
  proof (intro allI impI)
    fix a b assume ab: "a < b" "b < length xs"
    then have "xs ! a \<in> set xs" "xs ! b \<in> set xs" "xs ! a \<noteq> xs ! b" using d by (simp_all add: nth_eq_iff_index_eq)
    then have "apart p (xs ! a) (xs ! b)" "Cb p (xs ! a) \<noteq> 0" "Cb p (xs ! b) \<noteq> 0" using laid_facts(7) [OF assms(1)] s by auto
    then show "Ib p (xs ! a) + Cb p (xs ! a) \<le> Ib p (xs ! b)" using le [OF ab] by (auto simp: apart_def)
  qed
qed

text \<open>After the gaps are overwritten every unused byte below the new end of the lines holds the fill.\<close>

lemma ZeroOutGaps_ok:
  assumes "laid p"
  shows "\<exists>q. ZeroOutGaps p ch = Some q \<and> laid q \<and> lines q = lines p \<and> length (rgb q) = length (rgb p)
    \<and> m_itagMicFree q = m_itagMicFree p \<and> m_cbPage q = m_cbPage p \<and> m_fSmallFormat q = m_fSmallFormat p
    \<and> cbFree (pghdr q) = cbFree (pghdr p) \<and> m_ctagReserved q = m_ctagReserved p \<and> used q = used p
    \<and> (\<forall>b < ibMicFree (pghdr q). \<not> covered q b \<longrightarrow> rgb q ! b = ch)"
proof -
  note lp = laid_facts [OF assms]
  define xs where "xs = sort_key (Ib p) (filter (\<lambda>i. Cb p i > 0) [0..<m_itagMicFree p])"
  note xs = sorted_nonempty [OF assms, folded xs_def]
  show ?thesis
  proof (cases "xs = []")
    case True
    then have none: "Cb p i = 0" if "i < m_itagMicFree p" for i using xs(1) that by auto
    have "ZeroOutGaps p ch = Some (set_ibMicFree (int 0) p)" using True by (simp add: ZeroOutGaps_def xs_def Let_def)
    moreover note l0 = laid_set_ibMicFree_int [OF assms, of 0]
    ultimately show ?thesis using none lp(5) by (intro exI [of _ "set_ibMicFree (int 0) p"]) (auto simp: used_def)
  next
    case False
    let ?h = "hd xs" and ?l = "last xs"
    have h: "?h < m_itagMicFree p" "Cb p ?h \<noteq> 0" and l: "?l < m_itagMicFree p" "Cb p ?l \<noteq> 0"
      using xs(1) hd_in_set [OF False] last_in_set [OF False] by auto
    have order: "Ib p ?h \<le> Ib p i" "Ib p i + Cb p i \<le> Ib p ?l + Cb p ?l" if "i < m_itagMicFree p" "Cb p i \<noteq> 0" for i
    proof -
      have i: "i \<in> set xs" using that xs(1) by simp
      obtain y ys where y: "xs = y # ys" using False by (cases xs) auto
      obtain zs z where z: "xs = zs @ [z]" using False by (cases xs rule: rev_cases) auto
      show "Ib p ?h \<le> Ib p i" using i xs(2) unfolding y by auto
      show "Ib p i + Cb p i \<le> Ib p ?l + Cb p ?l" using i xs(2) unfolding z by (fastforce simp: sorted_wrt_append)
    qed
    define s where "s = set_bytes p 0 (replicate (Ib p ?h) ch)"
    have s: "same_layout p s"
      unfolding s_def using order(1) lp(5) lp(6) [OF h] by (intro scrub_same_layout assms) auto
    note fs = frameD [OF s [unfolded same_layout_def, THEN conjunct1]]
    have tag: "Cb s i = Cb p i" "Ib s i = Ib p i" if "i < m_itagMicFree p" for i using s that by (simp_all add: same_layout_def)
    let ?F = "Ib p ?l + Cb p ?l"
    have F: "?F + 4 * m_itagMicFree p \<le> length (rgb p)" using lp(5) lp(6) [OF l] by simp
    define t where "t = set_ibMicFree (int ?F) s"
    have t: "laid t" "ibMicFree (pghdr t) = ?F" "lines t = lines s"
      unfolding t_def by (rule laid_set_ibMicFree_int; use s F fs tag order(2) in \<open>simp add: same_layout_def\<close>)+
    have tt: "Cb t = Cb s" "Ib t = Ib s" "m_itagMicFree t = m_itagMicFree p" "rgb t = rgb s" using fs by (simp_all add: t_def)
    have tags: "Cb t i = Cb p i" "Ib t i = Ib p i" if "i \<in> set xs" for i using that tag xs(1) tt by auto
    have sw: "sorted_wrt (\<lambda>i j. Ib t i + Cb t i \<le> Ib t j) xs"
      by (rule sorted_wrt_mono_rel [OF _ xs(2)]) (simp add: tags)
    have "\<exists>q. zero_gaps ch xs t = Some q \<and> same_layout t q
      \<and> (\<forall>b. b + 4 * m_itagMicFree t < length (rgb t) \<longrightarrow> rgb q ! b = rgb t ! b \<or> rgb q ! b = ch)
      \<and> (\<forall>b. Ib t (hd xs) \<le> b \<and> b < Ib t (last xs) \<and> \<not> covered t b \<longrightarrow> rgb q ! b = ch)"
      by (rule zero_gaps_ok) (use t(1) False xs(1) sw tags tt tag in auto)
    then obtain q where q: "zero_gaps ch xs t = Some q" "same_layout t q"
      "\<And>b. b + 4 * m_itagMicFree p < length (rgb p) \<Longrightarrow> rgb q ! b = rgb s ! b \<or> rgb q ! b = ch"
      "\<And>b. Ib p ?h \<le> b \<Longrightarrow> b < Ib p ?l \<Longrightarrow> \<not> covered t b \<Longrightarrow> rgb q ! b = ch"
      using tt fs(8) tags hd_in_set [OF False] last_in_set [OF False] by auto
    note fq = frameD [OF q(2) [unfolded same_layout_def, THEN conjunct1]]
    have res: "ZeroOutGaps p ch = Some q"
      using False q(1) tag [OF l(1)] by (simp add: ZeroOutGaps_def Let_def t_def s_def flip: xs_def)
    have fill: "rgb q ! b = ch" if "b < ?F" "\<not> covered q b" for b
    proof -
      have nc: "\<not> covered t b" using that(2) same_layout_covered [OF q(2)] by simp
      moreover have "covered t b" if "Ib p ?l \<le> b"
        unfolding covered_def using that \<open>b < ?F\<close> l(1) tags [OF last_in_set [OF False]] tt(3) by (intro exI [of _ ?l]) simp
      ultimately have "\<not> Ib p ?l \<le> b" by blast
      then show ?thesis
        using q(3) [of b] q(4) [OF _ _ nc] F s_def lp(5) lp(6) [OF h] by (cases "b < Ib p ?h") (auto simp: nth_blit)
    qed
    have "used q = used p" using q(2) tt fq(4) tag by (simp add: used_def same_layout_def)
    then show ?thesis
      using res q(2) t fill s fq fs by (intro exI [of _ q]) (auto simp: same_layout_def t_def)
  qed
qed

text \<open>When all free bytes are at the end, the lines fill the bytes before without a gap.\<close>

lemma full_cover:
  assumes "laid p" and "(\<Sum>i<m_itagMicFree p. Cb p i) = ibMicFree (pghdr p)" and "b < ibMicFree (pghdr p)"
  shows "covered p b"
proof -
  note lp = laid_facts [OF assms(1)]
  let ?I = "\<lambda>i. {Ib p i..<Ib p i + Cb p i}"
  have "card (\<Union>i\<in>{..<m_itagMicFree p}. ?I i) = (\<Sum>i<m_itagMicFree p. card (?I i))"
  proof (rule card_UN_disjoint)
    show "\<forall>i\<in>{..<m_itagMicFree p}. \<forall>j\<in>{..<m_itagMicFree p}. i \<noteq> j \<longrightarrow> ?I i \<inter> ?I j = {}"
      using lp(7) by (fastforce simp: apart_def)
  qed auto
  then have "card (\<Union>i\<in>{..<m_itagMicFree p}. ?I i) = card {..<ibMicFree (pghdr p)}" using assms(2) by simp
  moreover have "(\<Union>i\<in>{..<m_itagMicFree p}. ?I i) \<subseteq> {..<ibMicFree (pghdr p)}" using lp(6) by fastforce
  ultimately have "(\<Union>i\<in>{..<m_itagMicFree p}. ?I i) = {..<ibMicFree (pghdr p)}" by (intro card_subset_eq) auto
  then have "b \<in> (\<Union>i\<in>{..<m_itagMicFree p}. ?I i)" using assms(3) by simp
  then show ?thesis by (auto simp: covered_def)
qed

theorem OverwriteUnusedSpace_ok:
  assumes "page_inv p"
  shows "\<exists>q. OverwriteUnusedSpace p ch = Some q \<and> page_inv q \<and> lines q = lines p
    \<and> length (rgb q) = length (rgb p) \<and> m_itagMicFree q = m_itagMicFree p
    \<and> (\<forall>b. b + 4 * m_itagMicFree p < length (rgb p) \<longrightarrow> \<not> covered q b \<longrightarrow> rgb q ! b = ch)"
proof -
  have l: "laid p" and u: "cbFree (pghdr p) + used p = length (rgb p)" using assms by (simp_all add: page_inv_laid)
  have "\<exists>s. (if CbContiguousFree p \<noteq> int (cbFree (pghdr p)) then ZeroOutGaps p ch else Some p) = Some s \<and> laid s \<and> lines s = lines p
    \<and> length (rgb s) = length (rgb p) \<and> m_itagMicFree s = m_itagMicFree p \<and> m_cbPage s = m_cbPage p
    \<and> cbFree (pghdr s) = cbFree (pghdr p) \<and> used s = used p \<and> (\<forall>b < ibMicFree (pghdr s). \<not> covered s b \<longrightarrow> rgb s ! b = ch)"
  proof (cases "CbContiguousFree p = int (cbFree (pghdr p))")
    case True
    then have "(\<Sum>i<m_itagMicFree p. Cb p i) = ibMicFree (pghdr p)"
      using sizes_eq(4) [OF laid_facts(4) [OF l]] u laid_facts(5) [OF l] by (simp add: used_def)
    then show ?thesis using True l full_cover [OF l] by auto
  next
    case False
    then show ?thesis using ZeroOutGaps_ok [OF l, of ch] by auto
  qed
  then obtain s where s: "(if CbContiguousFree p \<noteq> int (cbFree (pghdr p)) then ZeroOutGaps p ch else Some p) = Some s" "laid s" "lines s = lines p"
    "length (rgb s) = length (rgb p)" "m_itagMicFree s = m_itagMicFree p" "cbFree (pghdr s) = cbFree (pghdr p)" "used s = used p"
    "\<And>b. b < ibMicFree (pghdr s) \<Longrightarrow> \<not> covered s b \<Longrightarrow> rgb s ! b = ch" by blast
  note ls = laid_facts [OF s(2)]
  let ?F = "ibMicFree (pghdr s)"
  have cf: "nat (CbContiguousFree s) = length (rgb p) - 4 * m_itagMicFree p - ?F"
    using sizes_eq(4) [OF ls(4)] ls(5) s(4,5) by simp
  define q where "q = set_bytes s ?F (replicate (nat (CbContiguousFree s)) ch)"
  have fit: "?F + length (replicate (nat (CbContiguousFree s)) ch) + 4 * m_itagMicFree s \<le> length (rgb s)" using cf ls(5) s(4,5) by simp
  have q: "same_layout s q" unfolding q_def by (rule scrub_same_layout [OF s(2) fit]) (use ls(6) in blast)
  note fq = frameD [OF q [unfolded same_layout_def, THEN conjunct1]]
  have "used q = used s" using q fq(4) by (simp add: used_def same_layout_def)
  then have "page_inv q" using q s u fq by (simp add: page_inv_laid same_layout_def)
  moreover have "rgb q ! b = ch" if "b + 4 * m_itagMicFree p < length (rgb p)" "\<not> covered q b" for b
    using that s(8) [of b] same_layout_covered [OF q] fit cf s(4,5) by (cases "b < ?F") (auto simp: q_def nth_blit)
  moreover have "OverwriteUnusedSpace p ch = Some q" using s(1) by (simp add: OverwriteUnusedSpace_def q_def)
  ultimately show ?thesis using q s fq by (auto simp: same_layout_def)
qed

lemma ReorganizePage_ok:
  assumes "page_inv p"
  shows "\<exists>q pcbHeader pvTrailer pcbTrailer. ReorganizePage p = Some (q, (0, pcbHeader), (pvTrailer, pcbTrailer)) \<and> page_inv q \<and> lines q = lines p
    \<and> pcbHeader + cbFree (pghdr p) = pvTrailer \<and> pcbHeader + cbFree (pghdr p) + pcbTrailer = CbBuffer p \<and> pcbTrailer = CbTagArray p"
proof -
  obtain q where q: "(if CbContiguousFree p \<noteq> int (cbFree (pghdr p)) then ReorganizeData p else Some p) = Some q"
    "relaid p q" "CbContiguousFree q = int (cbFree (pghdr p))"
    using ReorganizeData_ok [OF assms] relaid_refl [OF assms] unfolding relaid_def
    by (cases "CbContiguousFree p = int (cbFree (pghdr p))") auto
  note r = relaidD [OF q(2)] and iq = inv_facts [OF relaidD(1) [OF q(2)]]
  have "1 \<le> m_itagMicFree q" using iq(1,2) by linarith
  then have t: "PtagFromItag q (m_itagMicFree q - 1) + 4 * m_itagMicFree q = length (rgb q)"
    using iq(5) by (simp add: PtagFromItag_def sizeof_TAG_def)
  have len: "length (rgb q) = ibMicFree (pghdr q) + cbFree (pghdr p) + 4 * m_itagMicFree q"
    using q(3) sizes_eq(4) [OF iq(4)] by linarith
  with t have T: "PtagFromItag q (m_itagMicFree q - 1) = ibMicFree (pghdr q) + cbFree (pghdr p)" by linarith
  have "ReorganizePage p = Some (q, (0, CbPageHeader q + ibMicFree (pghdr q)), (CbPageHeader q + PtagFromItag q (m_itagMicFree q - 1),
      CbBuffer q - (CbPageHeader q + PtagFromItag q (m_itagMicFree q - 1))))"
    using q(1) by (simp add: ReorganizePage_def Let_def)
  moreover have "CbBuffer p = CbBuffer q" "CbTagArray p = CbTagArray q"
    using r by (simp_all add: CbBuffer_def CbPageHeader_def CbTagArray_def)
  ultimately show ?thesis using r(1,2) unfolding T by (simp add: CbBuffer_def len CbTagArray_def sizeof_TAG_def)
qed

end
