(* ===== verification/Cpage_Properties.thy ===== *)
theory Cpage_Properties
  imports Cpage_Space
begin

unbundle bit_operations_syntax

text \<open>
  The properties of the slotted page that its clients use, each with an instance at a
  concrete page. The example page is a new small page with 64 bytes behind the header.
\<close>

section \<open>Example pages\<close>

definition blank :: "bool \<Rightarrow> nat \<Rightarrow> CPAGE" where
  "blank fSmallFormat n =
     \<lparr>pghdr = \<lparr>hdr_checksum = 0, dbtimeDirtied = 0, pgnoPrev = 0, pgnoNext = 0, objidFDP = 0, cbFree = 0, cbUncommittedFree = 0,
        ibMicFree = 0, itagState = 0, hdr_fFlags = 0, rgChecksum = [0, 0, 0], hdr_pgno = 0, rgbReserved = replicate 12 0\<rparr>,
      rgb = replicate n 0, m_cbPage = (if fSmallFormat then 40 else 80) + n, m_fSmallFormat = fSmallFormat, m_itagMicFree = 0,
      m_ctagReserved = 0, m_fRuntimeScrubbingEnabled = False, m_fResvTagFormatEnabled = False\<rparr>"

definition page64 :: CPAGE where
  "page64 = ConsumePreInitPage (PreInitializeNewPage (blank True 64) 5 6 7) fPageLeaf"

lemma page64_facts:
  "page_inv page64" "lines page64 = [([], 0)]" "records page64 = []" "cbFree (pghdr page64) = 60" "m_fSmallFormat page64"
  "m_ctagReserved page64 = 1" "length (rgb page64) = 64" "m_itagMicFree page64 = 1"
proof -
  have b: "4 \<le> length (rgb (blank True 64))" "length (rgb (blank True 64)) \<le> msk (blank True 64)" "m_cbPage (blank True 64) = CbBuffer (blank True 64)"
    by (simp_all add: blank_def msk_def CbBuffer_def CbPageHeader_def)
  note n = new_page_ok [OF b, where pgno = 5 and objid = 6 and dbtime = 7 and fPageFlags = fPageLeaf, folded page64_def]
  show "page_inv page64" "lines page64 = [([], 0)]" "records page64 = []" "cbFree (pghdr page64) = 60" "m_fSmallFormat page64"
    "m_ctagReserved page64 = 1" "length (rgb page64) = 64"
    using n by (simp_all add: blank_def)
  show "m_itagMicFree page64 = 1" using arg_cong [OF n(2), of length] by simp
qed

text \<open>A page with one record of four bytes behind a hole of six bytes.\<close>

definition holed :: CPAGE where
  "holed = (blank True 24)\<lparr>
     pghdr := (pghdr (blank True 24))\<lparr>cbFree := 12, ibMicFree := 10, itagState := 2\<rparr>,
     rgb := [0, 0, 0, 0, 0, 0, 1, 2, 3, 4, 0, 0, 0, 0, 0, 0, 4, 0, 6, 0, 0, 0, 0, 0],
     m_itagMicFree := 2, m_ctagReserved := 1, m_fResvTagFormatEnabled := True\<rparr>"

lemma holed_tags: "Cb holed 0 = 0" "Ib holed 0 = 0" "Cb holed 1 = 4" "Ib holed 1 = 6"
  by (simp_all add: Cb_def Ib_def get_tag_def PtagFromItag_def sizeof_TAG_def holed_def blank_def subbuf_def load_le_def mskTagIbCb_def)

lemma holed_facts: "page_inv holed" "m_itagMicFree holed = 2" "m_ctagReserved holed = 1" "m_fResvTagFormatEnabled holed"
  "cbFree (pghdr holed) = 12" "CbContiguousFree holed = 6" "m_fSmallFormat holed" "length (rgb holed) = 24"
proof -
  show s: "m_itagMicFree holed = 2" "m_ctagReserved holed = 1" "m_fResvTagFormatEnabled holed" "cbFree (pghdr holed) = 12"
    "m_fSmallFormat holed" "length (rgb holed) = 24"
    by (simp_all add: holed_def blank_def)
  have h: "m_cbPage holed = CbBuffer holed" "ibMicFree (pghdr holed) = 10" by (simp_all add: holed_def blank_def CbBuffer_def CbPageHeader_def)
  show "CbContiguousFree holed = 6" by (simp add: sizes_eq(4) [OF h(1)] s h)
  show "page_inv holed"
    unfolding page_inv_def using h holed_tags s by (auto simp: less_Suc_eq apart_def msk_def numeral_2_eq_2)
qed

section \<open>Editing the records\<close>



text \<open>
  C10. Replacing a record succeeds when the new bytes fit into the free bytes and those of the old
  record, whether the record shrinks, grows in place or has to move. The page stays well-formed
  and only that record changes.
\<close>
theorem page_replace:
  assumes "page_inv p" and "fFlags < 8" and "iline < length (records p)"
    and "CbDataTotal rgdata \<le> line_size (records p ! iline) + cbFree (pghdr p)"
  shows "\<exists>q. Replace p iline rgdata fFlags = Some q \<and> page_inv q
    \<and> records q = (records p)[iline := record_of (m_fSmallFormat p) (rgdata, fFlags)]
    \<and> reserved_lines q = reserved_lines p
    \<and> cbFree (pghdr q) = cbFree (pghdr p) + line_size (records p ! iline) - CbDataTotal rgdata"
  using Replace_ok [OF assms(1-3), of rgdata] assms(4) by auto

lemma holed_records: "records holed = [([1, 2, 3, 4], 0)]"
proof -
  have "line holed 1 = ([1, 2, 3, 4], 0)"
    unfolding line_def line_bytes_def holed_tags
    by (simp add: tag_flags_def get_tag_def PtagFromItag_def sizeof_TAG_def holed_def blank_def subbuf_def load_le_def mskTagFlags_def)
  then show ?thesis using holed_facts(2,3) by (simp add: records_def lines_def numeral_2_eq_2)
qed

theorem page_replace_witness:
  "\<exists>q. Replace holed 0 [[9, 8, 7, 6, 5, 4, 3, 2, 1, 0, 1, 2]] 1 = Some q \<and> page_inv q
    \<and> records q = [([9, 8, 7, 6, 5, 4, 3, 2, 1, 0, 1, 2], 1)] \<and> cbFree (pghdr q) = 4"
  using page_replace [OF holed_facts(1), of 1 0 "[[9, 8, 7, 6, 5, 4, 3, 2, 1, 0, 1, 2]]"]
  by (auto simp: holed_records holed_facts line_size_def record_of_def new_line_def stamp_def)

text \<open>
  C11. Deleting a record of a well-formed page takes out that record and no other, keeps the page
  well-formed, and gives its bytes and its tag back to the free bytes.
\<close>
theorem page_delete:
  assumes "page_inv p" and "iline < length (records p)"
  shows "page_inv (Delete p iline) \<and> records (Delete p iline) = take iline (records p) @ drop (Suc iline) (records p)
    \<and> reserved_lines (Delete p iline) = reserved_lines p
    \<and> cbFree (pghdr (Delete p iline)) = cbFree (pghdr p) + line_size (records p ! iline) + sizeof_TAG"
  using Delete_ok [OF assms] by (simp add: sizeof_TAG_def)

theorem page_delete_witness:
  "page_inv (Delete holed 0) \<and> records (Delete holed 0) = [] \<and> cbFree (pghdr (Delete holed 0)) = 20"
  using page_delete [OF holed_facts(1), of 0] by (simp add: holed_records holed_facts line_size_def sizeof_TAG_def)

text \<open>
  C12. A page refines a plain list of records with a count of free bytes: every sequence of
  insertions, replacements and deletions that the list allows is carried out by the page, through
  all compactions on the way, and ends in a well-formed page with the records and the free bytes
  the list says.
\<close>
theorem page_refines_list:
  assumes "page_inv p" and "list_all (ok_op (\<lambda>d. snd d < 8)) ops"
    and "run_ops (list_op (record_of (m_fSmallFormat p)) data_size line_size) ops (records p, cbFree (pghdr p)) = Some (rs, free)"
  shows "\<exists>q. run_ops page_step ops p = Some q \<and> page_inv q \<and> records q = rs \<and> cbFree (pghdr q) = free"
  using cpage.run_refines [OF assms(1,2)] assms(3) unfolding cpage.view_def page_step_def by auto

theorem page_refines_list_witness:
  "\<exists>q. run_ops page_step [OpInsert 0 ([[1, 2]], 0), OpInsert 0 ([[3, 4, 5]], 1), OpReplace 1 ([[6, 7, 8, 9]], 2), OpDelete 0] page64 = Some q
    \<and> page_inv q \<and> records q = [([6, 7, 8, 9], 2)] \<and> cbFree (pghdr q) = 52"
  by (rule page_refines_list [OF page64_facts(1)])
    (simp_all add: page64_facts record_of_def new_line_def stamp_def data_size_def line_size_def)

section \<open>Reading a record\<close>

lemma line_flags_stamp: "f < 8 \<Longrightarrow> 2 \<le> length bs \<Longrightarrow> 1 \<le> i \<Longrightarrow> line_flags (stamp False i f bs) = f"
  by (cases bs; cases "tl bs") (auto simp: stamp_def line_flags_high)

lemma record_flags: "f < 8 \<Longrightarrow> b \<or> 2 \<le> length (concat d) \<Longrightarrow> snd (record_of b (d, f)) = f"
  by (auto simp: record_of_def new_line_def line_flags_stamp simp del: length_concat)

lemma GetPtr_line:
  assumes "page_inv p" and "k < m_itagMicFree p" and "2 \<le> Cb p k"
  shows "GetPtr pgnbc p k = (\<lparr>pvLine = Some (Ib p k), cbLine = Cb p k, fLineFlags = snd (line p k)\<rparr>, JET_errSuccess)"
    and "subbuf (Ib p k) (Cb p k) (rgb p) = fst (line p k)"
proof -
  have fit: "Ib p k + Cb p k + 4 * m_itagMicFree p \<le> length (rgb p)"
    using inv_facts(5) [OF assms(1)] inv_facts(6) [OF assms(1,2)] assms(3) by simp
  then show "GetPtr pgnbc p k = (\<lparr>pvLine = Some (Ib p k), cbLine = Cb p k, fLineFlags = snd (line p k)\<rparr>, JET_errSuccess)"
    using assms(2,3) FFlags_line [OF assms(1,2)] by (simp add: GetPtr_def Let_def sizeof_TAG_def CbTagArray_def)
  show "subbuf (Ib p k) (Cb p k) (rgb p) = fst (line p k)" by (simp add: line_def line_bytes_def)
qed

text \<open>
  C13. What was inserted can be read: after an insertion the checked and the unchecked read of the
  new line succeed, point to the bytes that were given (on a page with large offsets, with the
  flags put into the top bits of the second byte), and return the flags that were given.
\<close>
theorem page_read_back:
  assumes "page_inv p" and "fFlags < 8" and "iline \<le> length (records p)"
    and "2 \<le> CbDataTotal rgdata" and "CbDataTotal rgdata + sizeof_TAG \<le> cbFree (pghdr p)"
  shows "\<exists>q ib. Insert p iline rgdata fFlags = Some q
    \<and> GetPtr pgnbc q (iline + m_ctagReserved q) = (\<lparr>pvLine = Some ib, cbLine = CbDataTotal rgdata, fLineFlags = fFlags\<rparr>, JET_errSuccess)
    \<and> subbuf ib (CbDataTotal rgdata) (rgb q) = stamp (m_fSmallFormat p) 1 fFlags (concat rgdata)"
proof -
  obtain q where q: "Insert p iline rgdata fFlags = Some q" "page_inv q"
    "records q = take iline (records p) @ record_of (m_fSmallFormat p) (rgdata, fFlags) # drop iline (records p)"
    using Insert_ok [OF assms(1-3), of rgdata] assms(5) by (auto simp: sizeof_TAG_def)
  let ?k = "iline + m_ctagReserved q"
  have i: "iline < length (records q)" using q(3) assms(3) by simp
  then have k: "?k < m_itagMicFree q" using length_records [OF q(2)] by simp
  have line: "line q ?k = record_of (m_fSmallFormat p) (rgdata, fFlags)"
    using nth_records [OF q(2) i] q(3) assms(3) by (simp add: nth_append)
  then have cb: "Cb q ?k = CbDataTotal rgdata"
    using record_size [OF q(2) k] by (simp add: line_size_def record_of_def new_line_def)
  have "2 \<le> Cb q ?k" using assms(4) cb by simp
  then show ?thesis
    using GetPtr_line [OF q(2) k] q(1) line cb record_flags [OF assms(2), of "m_fSmallFormat p" rgdata] assms(4)
    by (auto simp: record_of_def new_line_def)
qed

theorem page_read_back_witness:
  "\<exists>q ib. Insert page64 0 [[1, 2], [3, 4, 5]] 3 = Some q
    \<and> GetPtr pgnbcChecked q (0 + m_ctagReserved q) = (\<lparr>pvLine = Some ib, cbLine = 5, fLineFlags = 3\<rparr>, JET_errSuccess)
    \<and> subbuf ib 5 (rgb q) = [1, 2, 3, 4, 5]"
proof -
  have cb: "CbDataTotal [[1, 2], [3, 4, 5]] = 5" by (simp add: CbDataTotal_def)
  show ?thesis
    using page_read_back [OF page64_facts(1), of 3 0 "[[1, 2], [3, 4, 5]]" pgnbcChecked, unfolded cb]
    by (simp add: page64_facts sizeof_TAG_def stamp_def)
qed

text \<open>
  C14. A checked read never leaves the data area: on any page, well-formed or damaged, a line that
  the checked read returns without an error has at least one byte and ends before the tag array.
\<close>
theorem checked_read_in_bounds:
  assumes "GetPtr pgnbcChecked p itag = (ln, JET_errSuccess)" and "pvLine ln = Some ib"
  shows "0 < cbLine ln \<and> ib + cbLine ln + CbTagArray p \<le> length (rgb p)"
  using assms by (auto simp: GetPtr_def Let_def split: if_splits)

theorem checked_read_in_bounds_witness:
  "GetPtr pgnbcChecked holed 1 = (\<lparr>pvLine = Some 6, cbLine = 4, fLineFlags = 0\<rparr>, JET_errSuccess)
    \<and> 6 + 4 + CbTagArray holed \<le> length (rgb holed)"
proof -
  have "line holed 1 = ([1, 2, 3, 4], 0)" using nth_records [OF holed_facts(1), of 0] by (simp add: holed_records holed_facts)
  then have "GetPtr pgnbcChecked holed 1 = (\<lparr>pvLine = Some 6, cbLine = 4, fLineFlags = 0\<rparr>, JET_errSuccess)"
    using GetPtr_line(1) [OF holed_facts(1), of 1] by (simp add: holed_facts holed_tags del: One_nat_def)
  with checked_read_in_bounds [OF this] show ?thesis by simp
qed

section \<open>The page as a whole\<close>

text \<open>
  C15. Compaction loses nothing: on a well-formed page \<open>ReorganizeData\<close> returns, every line keeps
  its bytes and flags, and afterwards all free bytes are in one piece in front of the tags.
\<close>
theorem page_compaction:
  assumes "page_inv p"
  shows "\<exists>q. ReorganizeData p = Some q \<and> page_inv q \<and> lines q = lines p \<and> CbContiguousFree q = int (CbFree q) \<and> CbFree q = CbFree p"
  using ReorganizeData_ok [OF assms] by (auto simp: CbFree_def)

theorem page_compaction_witness:
  "\<exists>q. ReorganizeData holed = Some q \<and> page_inv q \<and> lines q = lines holed \<and> CbContiguousFree q = 12"
  using page_compaction [OF holed_facts(1)] by (auto simp: CbFree_def holed_facts)

text \<open>
  C16. Overwriting the unused space keeps every line and leaves no byte behind: all bytes between
  the header and the tag array that are not part of a line hold the fill byte afterwards.
\<close>
theorem unused_space_overwritten:
  assumes "page_inv p"
  shows "\<exists>q. OverwriteUnusedSpace p chZero = Some q \<and> page_inv q \<and> lines q = lines p
    \<and> (\<forall>b. b + CbTagArray q < length (rgb q) \<longrightarrow> \<not> covered q b \<longrightarrow> rgb q ! b = chZero)"
  using OverwriteUnusedSpace_ok [OF assms, of chZero] by (auto simp: CbTagArray_def sizeof_TAG_def mult.commute)

theorem unused_space_overwritten_witness:
  "\<exists>q. OverwriteUnusedSpace holed 0x5a = Some q \<and> page_inv q \<and> lines q = lines holed
    \<and> (\<forall>b. b + CbTagArray q < length (rgb q) \<longrightarrow> \<not> covered q b \<longrightarrow> rgb q ! b = 0x5a)"
  by (rule unused_space_overwritten [OF holed_facts(1)])

text \<open>
  C17. A new page is well-formed: a buffer of a supported size that has been pre-initialised and
  then consumed holds an empty external header, no records, and has all other bytes free.
\<close>
theorem new_page_well_formed:
  assumes "sizeof_TAG \<le> length (rgb p)" and "length (rgb p) \<le> unat (mskTagIbCb (m_fSmallFormat p))" and "m_cbPage p = CbBuffer p"
  shows "page_inv (ConsumePreInitPage (PreInitializeNewPage p pgno objid dbtime) fPageFlags)
    \<and> lines (ConsumePreInitPage (PreInitializeNewPage p pgno objid dbtime) fPageFlags) = [([], 0)]
    \<and> Clines (ConsumePreInitPage (PreInitializeNewPage p pgno objid dbtime) fPageFlags) = 0
    \<and> CbFree (ConsumePreInitPage (PreInitializeNewPage p pgno objid dbtime) fPageFlags) = length (rgb p) - sizeof_TAG"
proof -
  have a: "4 \<le> length (rgb p)" "length (rgb p) \<le> msk p"
    using assms(1,2) by (simp_all add: sizeof_TAG_def msk_def mskTagIbCb_def split: if_splits)
  note n = new_page_ok [OF a assms(3), of pgno objid dbtime fPageFlags]
  have "m_itagMicFree (ConsumePreInitPage (PreInitializeNewPage p pgno objid dbtime) fPageFlags) = 1"
    using length_lines [of "ConsumePreInitPage (PreInitializeNewPage p pgno objid dbtime) fPageFlags", unfolded n(2)] by simp
  then show ?thesis using n by (simp add: CbFree_def sizeof_TAG_def Clines_def)
qed

theorem new_page_well_formed_witness:
  "page_inv (ConsumePreInitPage (PreInitializeNewPage (blank False 4016) 5 6 7) fPageLeaf)
    \<and> CbFree (ConsumePreInitPage (PreInitializeNewPage (blank False 4016) 5 6 7) fPageLeaf) = 4012"
proof -
  have "length (rgb (blank False 4016)) = 4016" "m_cbPage (blank False 4016) = CbBuffer (blank False 4016)" "\<not> m_fSmallFormat (blank False 4016)"
    by (simp_all add: blank_def CbBuffer_def CbPageHeader_def)
  then show ?thesis
    using new_page_well_formed [of "blank False 4016" 5 6 7 fPageLeaf] by (simp add: sizeof_TAG_def mskTagIbCb_def)
qed

text \<open>
  C18. The tag counters survive being written to the header: for at most 4095 tags and at most
  seven reserved ones, of which more than one is only used in the format with reserved tags,
  loading the header word brings back both counters.
\<close>

lemma or_counters: "n < 4096 \<Longrightarrow> or (c * 4096) n = c * 4096 + n" for c n :: nat
proof -
  assume n: "n < 4096"
  have "and (c * 4096) n = 0"
  proof (rule bit_eqI)
    fix k
    have "c * 4096 = push_bit 12 c" by (simp add: push_bit_eq_mult)
    then have "bit (c * 4096) k \<longrightarrow> 12 \<le> k" by (simp add: bit_push_bit_iff)
    moreover have "bit n k \<longrightarrow> k < 12" using bit_nat_bound [of n 12 k] n by simp
    ultimately show "bit (and (c * 4096) n) k = bit 0 k" by (auto simp: bit_and_iff)
  qed
  then show ?thesis using disjunctive_add_eq_or [of "c * 4096" n] by simp
qed

theorem tag_counters_reload:
  assumes "itagMicFree \<le> 4095" and "1 \<le> ctagReserved" and "ctagReserved \<le> 7"
    and "ctagReserved = 1 \<or> m_fResvTagFormatEnabled p"
  shows "m_itagMicFree (InitItagState (SetITagState p itagMicFree ctagReserved)) = itagMicFree
    \<and> m_ctagReserved (InitItagState (SetITagState p itagMicFree ctagReserved)) = ctagReserved"
proof -
  have st: "itagState (pghdr (SetITagState p itagMicFree ctagReserved)) = ctagReserved * 4096 + itagMicFree
    \<or> ctagReserved = 1 \<and> itagState (pghdr (SetITagState p itagMicFree ctagReserved)) = itagMicFree"
    using assms or_counters [of itagMicFree ctagReserved]
    by (auto simp: SetITagState_def Let_def simp del: of_nat_add)
  show ?thesis
    using st assms(1-3) by (auto simp: InitItagState_def Let_def)
qed

theorem tag_counters_reload_witness:
  "m_itagMicFree (InitItagState (SetITagState holed 4095 7)) = 4095 \<and> m_ctagReserved (InitItagState (SetITagState holed 4095 7)) = 7"
  using tag_counters_reload [of 4095 7 holed] holed_facts(4) by simp

text \<open>
  C19. Adding a reserved tag can damage a well-formed page: \<open>IAddReservedTag\<close> asks for the bytes of
  the line but not for the four bytes of the tag. On a page with room for both, but with fewer
  than four bytes more than the line in one piece, the result is not well-formed: the new line
  runs into the tag array.
\<close>
theorem reserved_tag_overlaps:
  assumes "page_inv p" and "m_fResvTagFormatEnabled p" and "m_ctagReserved p < 7"
    and "cb + sizeof_TAG \<le> cbFree (pghdr p)" and "int cb \<le> CbContiguousFree p" and "CbContiguousFree p < int (cb + sizeof_TAG)"
  shows "\<exists>q. IAddReservedTag p cb fill = Some (q, int (m_ctagReserved p)) \<and> \<not> page_inv q
    \<and> ibMicFree (pghdr q) + CbTagArray q > length (rgb p)"
proof -
  note inv = inv_facts [OF assms(1)]
  let ?k = "m_ctagReserved p" and ?n = "m_itagMicFree p" and ?F = "ibMicFree (pghdr p)"
  have free: "?F + cb + 4 * ?n \<le> length (rgb p)" "length (rgb p) < ?F + cb + 4 * ?n + 4"
    using assms(5,6) sizes_eq(4) [OF inv(4)] by (simp_all add: sizeof_TAG_def)
  have "4 * (?n + 1) \<le> length (rgb p)" using assms(4) inv(8) by (simp add: sizeof_TAG_def)
  then have sn: "slot p ?n" by (simp add: slot_def)
  obtain s where s: "ExpandTagArray p ?k = SetITagMicFree s (?n + 1)" "shifted ?n (?n - ?k) p s"
    using ExpandTagArray_eq [OF inv(2) sn] .
  note fs = frameD [OF s(2) [unfolded shifted_def, THEN conjunct1]]
  define X where "X = SetCTagReserved (ExpandTagArray p ?k) (?k + 1)"
  have X: "m_itagMicFree X = ?n + 1" "ibMicFree (pghdr X) = ?F" "length (rgb X) = length (rgb p)" "m_cbPage X = m_cbPage p" "m_fSmallFormat X = m_fSmallFormat p"
    using fs free inv(2,9) by (simp_all add: X_def s(1) SetITagMicFree_def SetCTagReserved_def del: of_nat_Suc)
  have slots: "slot X ?k" using sn X(3) inv(2) by (simp add: slot_def)
  define E where "E = SetFlags (SetIb (SetCb X ?k 0) ?k 0) ?k 0"
  have fE: "frame X E" using clear_tag(1) [OF slots, of E] by (simp add: E_def)
  note fE = frameD [OF fE]
  define P where "P = set_cbFree (int (cbFree (pghdr E)) - int cb - int sizeof_TAG)
    (SetCb (set_ibMicFree (int (ibMicFree (pghdr E)) + int cb) (SetIb E ?k (ibMicFree (pghdr E)))) ?k (ushort (int cb)))"
  define q where "q = set_bytes P (Ib P ?k) (replicate (Cb P ?k) fill)"
  have "FreeSpace p (int cb) = Some p" using assms(5) by (simp add: FreeSpace_def)
  then have res: "IAddReservedTag p cb fill = Some (q, int ?k)"
    using assms(2,3) by (simp add: IAddReservedTag_def Let_def q_def P_def E_def X_def)
  have "?F + cb < 65536" using free(1) inv(9) by linarith
  then have P: "ibMicFree (pghdr P) = ?F + cb" "m_itagMicFree P = ?n + 1" "length (rgb P) = length (rgb p)" "m_cbPage P = m_cbPage p" "m_fSmallFormat P = m_fSmallFormat p"
    using fE X slots by (simp_all add: P_def ushort_nonneg nat_add_distrib slot_def)
  have q: "ibMicFree (pghdr q) = ?F + cb" "m_itagMicFree q = ?n + 1" "m_cbPage q = m_cbPage p" "m_fSmallFormat q = m_fSmallFormat p"
    using P by (simp_all add: q_def)
  have over: "ibMicFree (pghdr q) + CbTagArray q > length (rgb p)" using q free(2) by (simp add: CbTagArray_def sizeof_TAG_def)
  moreover have "\<not> page_inv q"
  proof
    assume iq: "page_inv q"
    have "length (rgb q) = length (rgb p)"
      using inv_facts(4) [OF iq] inv(4) q by (simp add: CbBuffer_def CbPageHeader_def)
    then show False using inv_facts(5) [OF iq] over by (simp add: CbTagArray_def sizeof_TAG_def)
  qed
  ultimately show ?thesis using res by blast
qed

theorem reserved_tag_overlaps_witness:
  "\<exists>q. IAddReservedTag holed 4 0x5a = Some (q, 1) \<and> \<not> page_inv q \<and> ibMicFree (pghdr q) + CbTagArray q > 24"
  using reserved_tag_overlaps [OF holed_facts(1,4), of 4 "0x5a"] by (simp add: holed_facts sizeof_TAG_def)





text \<open>
  C21. Replacing the external header of a well-formed page, when its bytes fit, changes line 0
  and no other line.
\<close>
theorem external_header_replaced:
  assumes "page_inv p" and "fFlags < 8" and "CbDataTotal rgdata \<le> Cb p 0 + cbFree (pghdr p)"
  shows "\<exists>q. SetExternalHeader p rgdata fFlags = Some q \<and> page_inv q \<and> records q = records p
    \<and> line_bytes q 0 = concat rgdata \<and> tl (lines q) = tl (lines p)"
  by (rule SetExternalHeader_ok [OF assms])

theorem external_header_replaced_witness:
  "\<exists>q. SetExternalHeader holed [[7, 7], [8]] 0 = Some q \<and> page_inv q \<and> records q = [([1, 2, 3, 4], 0)] \<and> line_bytes q 0 = [7, 7, 8]"
  using external_header_replaced [OF holed_facts(1), of 0 "[[7, 7], [8]]"] by (auto simp: holed_facts holed_records holed_tags)

end
