(* ===== verification/Keys.thy ===== *)
theory Keys
  imports Ese_Prelude "HOL-Library.List_Lexorder"
begin

text \<open>
  Keys and their comparison, the inline routines of \<open>inc/daedef.hxx\<close>. A key is stored in two
  pieces: a prefix it shares with the other keys of its page and a suffix of its own. The type
  of a piece is a parameter: a run of bytes, or a place on a page. Keys that are compared are
  runs of bytes. Two pieces at the same address have the same bytes, so the test of
  \<open>CmpKeyShortest\<close> for equal pointers is part of the comparison of the bytes. The reference for every comparison is the lexicographic order of the library on lists.
\<close>

section \<open>Data\<close>

record 'd KEY =
  prefix :: 'd
  suffix :: 'd

record 'd BOOKMARK =
  bm_key :: "'d KEY"
  bm_data :: 'd

record 'd KEYDATAFLAGS =
  key :: "'d KEY"
  data :: 'd
  fFlags :: USHORT

type_synonym DATA = "BYTE list"

definition key_bytes :: "DATA KEY \<Rightarrow> BYTE list" where
  "key_bytes k = prefix k @ suffix k"

definition Cb_key :: "DATA KEY \<Rightarrow> int" where
  "Cb_key k = int (length (prefix k)) + int (length (suffix k))"

definition FNull_key :: "DATA KEY \<Rightarrow> bool" where
  "FNull_key k \<longleftrightarrow> prefix k = [] \<and> suffix k = []"

definition Advance :: "DATA KEY \<Rightarrow> int \<Rightarrow> DATA KEY" where
  "Advance k cb =
     (if cb < 0 then k
      else if cb < int (length (prefix k)) then k\<lparr>prefix := drop (nat cb) (prefix k)\<rparr>
      else k\<lparr>prefix := [], suffix := drop (nat (cb - int (length (prefix k)))) (suffix k)\<rparr>)"

definition CopyIntoBuffer :: "DATA KEY \<Rightarrow> int \<Rightarrow> BYTE list" where
  "CopyIntoBuffer k cbMax =
     (let cbPrefix = max 0 (int (length (prefix k))); cbSuffix = max 0 (int (length (suffix k)));
          cbCopy = max 0 (min cbSuffix (cbMax - cbPrefix))
      in take (nat (min cbPrefix cbMax)) (prefix k) @ take (nat cbCopy) (suffix k))"

section \<open>Comparison\<close>

text \<open>\<open>memcmp\<close> of the C library: the sign of the result is the order of the first two bytes that differ.\<close>

fun memcmp :: "BYTE list \<Rightarrow> BYTE list \<Rightarrow> nat \<Rightarrow> int" where
  "memcmp (x # xs) (y # ys) (Suc n) = (if x = y then memcmp xs ys n else uint x - uint y)"
| "memcmp _ _ _ = 0"

definition CmpData :: "DATA \<Rightarrow> DATA \<Rightarrow> int" where
  "CmpData data1 data2 =
     (let db = int (length data1) - int (length data2);
          cmp = memcmp data1 data2 (if db < 0 then length data1 else length data2)
      in if 0 = cmp then db else cmp)"

definition FDataEqual :: "DATA \<Rightarrow> DATA \<Rightarrow> bool" where
  "FDataEqual data1 data2 =
     (if length data1 = length data2 then 0 = memcmp data1 data2 (length data1) else False)"

definition CmpKeyShortest :: "DATA KEY \<Rightarrow> DATA KEY \<Rightarrow> int" where
  "CmpKeyShortest key1 key2 =
     (let fReversed = \<not> length (prefix key1) < length (prefix key2);
          pkeySmallestPrefix = (if fReversed then key2 else key1);
          pkeyLargestPrefix = (if fReversed then key1 else key2);
          pb1 = prefix pkeySmallestPrefix;
          pb2 = prefix pkeyLargestPrefix;
          cbCompare = length (prefix pkeySmallestPrefix);
          cmp = memcmp pb1 pb2 cbCompare;
          cmp = (if cmp = 0 then
                   let pb1 = suffix pkeySmallestPrefix;
                       pb2 = drop cbCompare pb2;
                       cbCompare = min (length (prefix pkeyLargestPrefix) - cbCompare) (length (suffix pkeySmallestPrefix));
                       cmp = memcmp pb1 pb2 cbCompare
                   in if 0 = cmp then
                        let pb1 = drop cbCompare pb1;
                            pb2 = suffix pkeyLargestPrefix;
                            cbCompare = min (length (suffix pkeySmallestPrefix) - cbCompare) (length (suffix pkeyLargestPrefix))
                        in memcmp pb1 pb2 cbCompare
                      else cmp
                 else cmp)
      in if fReversed then - cmp else cmp)"

definition CmpKey :: "DATA KEY \<Rightarrow> DATA KEY \<Rightarrow> int" where
  "CmpKey key1 key2 =
     (let cmp = CmpKeyShortest key1 key2
      in if 0 = cmp then Cb_key key1 - Cb_key key2 else cmp)"

definition FKeysEqual :: "DATA KEY \<Rightarrow> DATA KEY \<Rightarrow> bool" where
  "FKeysEqual key1 key2 = (if Cb_key key1 = Cb_key key2 then 0 = CmpKeyShortest key1 key2 else False)"

definition CmpKeyData :: "DATA BOOKMARK \<Rightarrow> DATA BOOKMARK \<Rightarrow> int" where
  "CmpKeyData kd1 kd2 =
     (let cmp = CmpKey (bm_key kd1) (bm_key kd2)
      in if 0 = cmp then CmpData (bm_data kd1) (bm_data kd2) else cmp)"

definition CmpKeyWithKeyData :: "DATA KEY \<Rightarrow> DATA BOOKMARK \<Rightarrow> int" where
  "CmpKeyWithKeyData k keydata =
     (let keySegment1 = bm_key keydata;
          keySegment2 = \<lparr>prefix = [], suffix = bm_data keydata\<rparr>;
          cmp = CmpKeyShortest k keySegment1;
          cmp = (if 0 = cmp \<and> Cb_key k > Cb_key keySegment1
                 then let keyT = Advance k (Cb_key keySegment1) in CmpKeyShortest keyT keySegment2
                 else cmp)
      in if 0 = cmp then Cb_key k - (Cb_key (bm_key keydata) + int (length (bm_data keydata))) else cmp)"

section \<open>Lexicographic order\<close>

lemma memcmp_self [simp]: "memcmp xs xs n = 0"
proof (induction xs arbitrary: n)
  case (Cons x xs) then show ?case by (cases n) simp_all
qed simp

lemma memcmp_swap: "memcmp ys xs n = - memcmp xs ys n"
  by (induction xs ys n rule: memcmp.induct) auto

lemma memcmp_add:
  assumes "n \<le> length xs" and "n \<le> length ys"
  shows "memcmp xs ys (n + m) = (if memcmp xs ys n = 0 then memcmp (drop n xs) (drop n ys) m else memcmp xs ys n)"
  using assms
proof (induction n arbitrary: xs ys)
  case (Suc n)
  then obtain x xs' y ys' where "xs = x # xs'" "ys = y # ys'" by (metis Suc_le_length_iff)
  with Suc show ?case by (auto dest: word_uint_eqI)
qed simp

lemma memcmp_take [simp]: "memcmp (take n xs) ys n = memcmp xs ys n" "memcmp xs (take n ys) n = memcmp xs ys n"
  by (induction xs ys n rule: memcmp.induct) (auto split: nat.splits simp: take_Cons')

lemma memcmp_append: "n \<le> length xs \<Longrightarrow> n \<le> length ys \<Longrightarrow> memcmp (xs @ us) (ys @ vs) n = memcmp xs ys n"
  by (induction xs ys n rule: memcmp.induct) (auto simp: le_Suc_eq)

text \<open>\<open>cmp_total c xs ys\<close>: the sign of \<open>c\<close> is the order of \<open>xs\<close> and \<open>ys\<close>.\<close>

definition cmp_total :: "int \<Rightarrow> 'a::linorder \<Rightarrow> 'a \<Rightarrow> bool" where
  "cmp_total c x y \<longleftrightarrow> (c < 0 \<longleftrightarrow> x < y) \<and> (c = 0 \<longleftrightarrow> x = y) \<and> (0 < c \<longleftrightarrow> y < x)"

lemma memcmp_total:
  "cmp_total (if memcmp xs ys (min (length xs) (length ys)) = 0 then int (length xs) - int (length ys)
              else memcmp xs ys (min (length xs) (length ys))) xs ys"
proof (induction xs arbitrary: ys)
  case Nil then show ?case by (cases ys) (simp_all add: cmp_total_def)
next
  case (Cons x xs)
  show ?case
  proof (cases ys)
    case Nil then show ?thesis by (simp add: cmp_total_def)
  next
    case (Cons y zs)
    show ?thesis
    proof (cases "x = y")
      case True
      with Cons.IH [of zs] Cons show ?thesis by (auto simp: cmp_total_def split: if_splits)
    next
      case False
      then have "uint x \<noteq> uint y" by (auto dest: word_uint_eqI)
      with False Cons show ?thesis by (auto simp: cmp_total_def word_less_def)
    qed
  qed
qed

lemma CmpData_total: "cmp_total (CmpData xs ys) xs ys"
proof -
  have "(if int (length xs) - int (length ys) < 0 then length xs else length ys) = min (length xs) (length ys)" by simp
  then have "CmpData xs ys = (if memcmp xs ys (min (length xs) (length ys)) = 0 then int (length xs) - int (length ys)
              else memcmp xs ys (min (length xs) (length ys)))"
    by (simp only: CmpData_def Let_def) auto
  with memcmp_total [of xs ys] show ?thesis by (simp only:)
qed

lemma Cb_key_bytes: "Cb_key k = int (length (key_bytes k))"
  by (simp add: Cb_key_def key_bytes_def)

text \<open>The three comparisons of \<open>CmpKeyShortest\<close> on pieces of the keys are one of the whole keys.\<close>

lemma memcmp_pieces:
  fixes p1 s1 p2 s2 :: "BYTE list"
  assumes le: "length p1 \<le> length p2"
  defines "a \<equiv> length p1" and "b \<equiv> min (length p2 - length p1) (length s1)"
  defines "c \<equiv> min (length s1 - b) (length s2)"
  shows "memcmp (p1 @ s1) (p2 @ s2) (min (length p1 + length s1) (length p2 + length s2)) =
    (if memcmp p1 p2 a = 0 then
       if memcmp s1 (drop a p2) b = 0 then memcmp (drop b s1) s2 c else memcmp s1 (drop a p2) b
     else memcmp p1 p2 a)"
proof -
  have n: "min (length p1 + length s1) (length p2 + length s2) = a + (b + c)"
    using le by (auto simp: a_def b_def c_def)
  have first: "memcmp (p1 @ s1) (p2 @ s2) a = memcmp p1 p2 a"
    using le by (simp add: a_def memcmp_append)
  have second: "memcmp s1 (drop a p2 @ s2) b = memcmp s1 (drop a p2) b"
    using memcmp_append [of b s1 "drop a p2" "[]" s2] by (simp add: a_def b_def)
  have third: "memcmp (drop b s1) (drop b (drop a p2 @ s2)) c = memcmp (drop b s1) s2 c"
  proof (cases "length s1 \<le> length p2 - length p1")
    case True then have "c = 0" by (simp add: b_def c_def)
    then show ?thesis by simp
  next
    case False then have "b = length p2 - length p1" by (simp add: b_def)
    then show ?thesis by (simp add: a_def)
  qed
  have "memcmp s1 (drop a p2 @ s2) (b + c) =
      (if memcmp s1 (drop a p2) b = 0 then memcmp (drop b s1) s2 c else memcmp s1 (drop a p2) b)"
  proof -
    have "b \<le> length s1" and "b \<le> length (drop a p2 @ s2)" using le by (simp_all add: a_def b_def)
    from memcmp_add [OF this, of c] show ?thesis by (simp only: second third)
  qed
  then show ?thesis
    unfolding n using memcmp_add [of a "p1 @ s1" "p2 @ s2" "b + c"] first le by (simp add: a_def del: memcmp_take)
qed

lemma CmpKeyShortest_memcmp:
  "CmpKeyShortest k1 k2 = memcmp (key_bytes k1) (key_bytes k2) (min (length (key_bytes k1)) (length (key_bytes k2)))"
proof (cases "length (prefix k1) < length (prefix k2)")
  case True
  from memcmp_pieces [OF less_imp_le [OF True], of "suffix k1" "suffix k2"] True show ?thesis
    by (simp only: CmpKeyShortest_def key_bytes_def Let_def length_append simp_thms if_True if_False eq_commute [of "0 :: int"])
next
  case False
  then have "length (prefix k2) \<le> length (prefix k1)" by simp
  from memcmp_pieces [OF this, of "suffix k2" "suffix k1"] False
  have "CmpKeyShortest k1 k2 = - memcmp (key_bytes k2) (key_bytes k1) (min (length (key_bytes k2)) (length (key_bytes k1)))"
    by (simp only: CmpKeyShortest_def key_bytes_def Let_def length_append simp_thms if_True if_False eq_commute [of "0 :: int"])
  then show ?thesis by (simp add: memcmp_swap [of "key_bytes k2"] min.commute)
qed

lemma CmpKey_total: "cmp_total (CmpKey k1 k2) (key_bytes k1) (key_bytes k2)"
proof -
  have "CmpKey k1 k2 = (if CmpKeyShortest k1 k2 = 0 then Cb_key k1 - Cb_key k2 else CmpKeyShortest k1 k2)"
    by (simp add: CmpKey_def)
  with memcmp_total [of "key_bytes k1" "key_bytes k2"] show ?thesis
    by (simp only: CmpKeyShortest_memcmp Cb_key_bytes)
qed

lemma FKeysEqual_iff: "FKeysEqual k1 k2 \<longleftrightarrow> key_bytes k1 = key_bytes k2"
  using CmpKey_total [of k1 k2]
  by (auto simp: FKeysEqual_def CmpKey_def Let_def cmp_total_def Cb_key_bytes CmpKeyShortest_memcmp)

lemma FDataEqual_iff: "FDataEqual xs ys \<longleftrightarrow> xs = ys"
  using memcmp_total [of xs ys] by (auto simp: FDataEqual_def cmp_total_def)

lemma key_bytes_Advance: "0 \<le> cb \<Longrightarrow> cb \<le> Cb_key k \<Longrightarrow> key_bytes (Advance k cb) = drop (nat cb) (key_bytes k)"
  by (auto simp: Advance_def key_bytes_def Cb_key_def nat_diff_distrib)

lemma CopyIntoBuffer_take: "0 \<le> cbMax \<Longrightarrow> CopyIntoBuffer k cbMax = take (nat cbMax) (key_bytes k)"
  by (auto simp: CopyIntoBuffer_def key_bytes_def Let_def min_def max_def nat_diff_distrib)

definition bm_bytes :: "DATA BOOKMARK \<Rightarrow> BYTE list" where
  "bm_bytes bm = key_bytes (bm_key bm) @ bm_data bm"

lemma CmpKeyWithKeyData_total: "cmp_total (CmpKeyWithKeyData k bm) (key_bytes k) (bm_bytes bm)"
proof -
  let ?k = "key_bytes k" and ?s = "key_bytes (bm_key bm)" and ?d = "bm_data bm"
  let ?n = "min (length ?k) (length ?s)"
  have data: "key_bytes \<lparr>prefix = [], suffix = ?d\<rparr> = ?d" by (simp add: key_bytes_def)
  have "(let cmp = CmpKeyShortest k (bm_key bm) in
         if 0 = cmp \<and> Cb_key k > Cb_key (bm_key bm)
         then CmpKeyShortest (Advance k (Cb_key (bm_key bm))) \<lparr>prefix = [], suffix = ?d\<rparr> else cmp)
      = memcmp ?k (?s @ ?d) (min (length ?k) (length (?s @ ?d)))"
  proof (cases "length ?k \<le> length ?s")
    case True
    then have "memcmp ?k (?s @ ?d) (min (length ?k) (length (?s @ ?d))) = memcmp ?k ?s ?n"
      using memcmp_append [of "length ?k" ?k ?s "[]" ?d] by simp
    with True show ?thesis by (simp add: CmpKeyShortest_memcmp Cb_key_bytes)
  next
    case False
    then have m: "min (length ?k) (length (?s @ ?d)) = length ?s + min (length ?k - length ?s) (length ?d)" by simp
    have adv: "key_bytes (Advance k (Cb_key (bm_key bm))) = drop (length ?s) ?k"
      using False by (subst key_bytes_Advance) (simp_all add: Cb_key_bytes)
    have "memcmp ?k (?s @ ?d) (length ?s) = memcmp ?k ?s (length ?s)"
      using False memcmp_append [of "length ?s" ?k ?s "[]" ?d] by simp
    with False show ?thesis
      unfolding m
      by (subst memcmp_add) (auto simp: CmpKeyShortest_memcmp adv [unfolded Cb_key_bytes] Cb_key_bytes data min_absorb2)
  qed
  then have "CmpKeyWithKeyData k bm =
      (if memcmp ?k (?s @ ?d) (min (length ?k) (length (?s @ ?d))) = 0 then int (length ?k) - int (length (?s @ ?d))
       else memcmp ?k (?s @ ?d) (min (length ?k) (length (?s @ ?d))))"
    unfolding CmpKeyWithKeyData_def Let_def Cb_key_bytes length_append of_nat_add by (simp only: eq_commute [of "0 :: int"])
  with memcmp_total [of ?k "?s @ ?d"] show ?thesis by (simp only: bm_bytes_def)
qed

text \<open>Bookmarks are ordered by key, then by data.\<close>

definition bm_less :: "DATA BOOKMARK \<Rightarrow> DATA BOOKMARK \<Rightarrow> bool" where
  "bm_less b1 b2 \<longleftrightarrow> key_bytes (bm_key b1) < key_bytes (bm_key b2)
     \<or> key_bytes (bm_key b1) = key_bytes (bm_key b2) \<and> bm_data b1 < bm_data b2"

lemma CmpKeyData_less: "CmpKeyData b1 b2 < 0 \<longleftrightarrow> bm_less b1 b2"
  using CmpKey_total [of "bm_key b1" "bm_key b2"] CmpData_total [of "bm_data b1" "bm_data b2"]
  by (auto simp: CmpKeyData_def bm_less_def cmp_total_def Let_def)

lemma CmpKeyData_greater: "0 < CmpKeyData b1 b2 \<longleftrightarrow> bm_less b2 b1"
  using CmpKey_total [of "bm_key b1" "bm_key b2"] CmpData_total [of "bm_data b1" "bm_data b2"]
  by (auto simp: CmpKeyData_def bm_less_def cmp_total_def Let_def)

lemma bm_less_trans: "bm_less a b \<Longrightarrow> bm_less b c \<Longrightarrow> bm_less a c"
  by (auto simp: bm_less_def)

lemma bm_less_irrefl [simp]: "\<not> bm_less a a"
  by (simp add: bm_less_def)

end
