(* ===== verification/Node.thy ===== *)
theory Node
  imports Cpage Keys
begin

unbundle bit_operations_syntax

text \<open>
  Nodes, \<open>ese/node.cxx\<close> and the inline part of \<open>inc/node.hxx\<close>. A node is a line of a page: the
  length of the key prefix if the node is compressed, the length of the key suffix, the suffix
  and the data. The prefix itself is kept once for the page, in line 0. This theory has the
  reading of a node, the encoding of a node as a list of pieces, and the searches on a page.

  A piece of a node on a page is a place: an offset behind the page header and a length of 32
  bits. None stands for a pointer that is not into the page. The model is that of the release
  build: \<open>DEBUG\<close> is not defined and \<open>PageAssertTrack\<close> only reports. A failing \<open>PageEnforce\<close> is
  the result None. The checked reading always has a place for the error and the unchecked one
  never has, as the assertion at the start of each routine demands, and a page has at least
  one reserved tag.
\<close>

section \<open>Constants\<close>

definition usNDCbKeyMask :: USHORT where "usNDCbKeyMask = 0x1fff"
definition fNDVersion :: USHORT where "fNDVersion = 0x01"
definition fNDDeleted :: USHORT where "fNDDeleted = 0x02"
definition fNDCompressed :: USHORT where "fNDCompressed = 0x04"
definition cbKeyCount :: nat where "cbKeyCount = 2"
definition cbPrefixOverhead :: nat where "cbPrefixOverhead = cbKeyCount"
definition g_cbPageMax :: nat where "g_cbPageMax = 1024 * 32"
definition sizeof_SPLIT_BUFFER :: nat where "sizeof_SPLIT_BUFFER = 16"
definition fPageRoot :: ULONG where "fPageRoot = 0x0001"

text \<open>The global flag of the release build that keeps the check of the data size in \<open>IlineNDISeekGEQ\<close> on.\<close>

definition g_fNodeMiscMemoryTrashedDefenseInDepthTemp :: bool where
  "g_fNodeMiscMemoryTrashedDefenseInDepthTemp = True"

definition FLeafPage :: "CPAGE \<Rightarrow> bool" where
  "FLeafPage p \<longleftrightarrow> hdr_fFlags (pghdr p) AND fPageLeaf \<noteq> 0"

definition FRootPage :: "CPAGE \<Rightarrow> bool" where
  "FRootPage p \<longleftrightarrow> hdr_fFlags (pghdr p) AND fPageRoot \<noteq> 0"

definition FSpaceTree :: "CPAGE \<Rightarrow> bool" where
  "FSpaceTree p \<longleftrightarrow> hdr_fFlags (pghdr p) AND fPageSpaceTree \<noteq> 0"

section \<open>Places on a page\<close>

record PTR =
  pv :: "nat option"
  cb :: ULONG

definition null_PTR :: PTR where
  "null_PTR = \<lparr>pv = None, cb = 0\<rparr>"

definition null_kdf :: "PTR KEYDATAFLAGS" where
  "null_kdf = \<lparr>key = \<lparr>prefix = null_PTR, suffix = null_PTR\<rparr>, data = null_PTR, fFlags = 0\<rparr>"

text \<open>\<open>fetch\<close> reads the bytes a node's places stand for.\<close>

definition fetch_PTR :: "CPAGE \<Rightarrow> PTR \<Rightarrow> DATA" where
  "fetch_PTR p d = (case pv d of None \<Rightarrow> [] | Some ib \<Rightarrow> subbuf ib (unat (cb d)) (rgb p))"

definition fetch :: "CPAGE \<Rightarrow> PTR KEYDATAFLAGS \<Rightarrow> DATA KEYDATAFLAGS" where
  "fetch p kdf = \<lparr>key = \<lparr>prefix = fetch_PTR p (prefix (key kdf)), suffix = fetch_PTR p (suffix (key kdf))\<rparr>,
                  data = fetch_PTR p (data kdf), fFlags = fFlags kdf\<rparr>"

definition FOnPage :: "CPAGE \<Rightarrow> nat \<Rightarrow> nat \<Rightarrow> bool" where
  "FOnPage p ib n \<longleftrightarrow> (let pb = CbPageHeader p + ib in pb < CbBuffer p \<and> (n = 0 \<or> pb + n \<le> CbBuffer p))"

section \<open>Reading a node\<close>

text \<open>
  \<open>NDILineToKeydataflags\<close> leaves the pointer of the prefix as it was: it is the argument
  \<open>pvPrefix\<close>. The size of the data is computed with unsigned 32-bit arithmetic.
\<close>

definition NDILineToKeydataflags ::
    "PageNodeBoundsChecking \<Rightarrow> CPAGE \<Rightarrow> LINE \<Rightarrow> nat option \<Rightarrow> (PTR KEYDATAFLAGS \<times> JET_ERR) option" where
  "NDILineToKeydataflags pgnbc p line pvPrefix =
     (case pvLine line of
        None \<Rightarrow> None
      | Some pbLine \<Rightarrow>
          let fCompressed = (fLineFlags line AND fNDCompressed \<noteq> 0);
              cbPrefix = (if fCompressed then load_le (subbuf pbLine 2 (rgb p)) AND usNDCbKeyMask else 0 :: USHORT);
              pb = (if fCompressed then pbLine + cbPrefixOverhead else pbLine);
              cbKeyCountTotal = (if fCompressed then cbKeyCount + cbPrefixOverhead else cbKeyCount);
              cbSuffix = (load_le (subbuf pb 2 (rgb p)) AND usNDCbKeyMask :: USHORT);
              err = (if pgnbc = pgnbcChecked \<and> (cbLine line \<le> cbKeyCountTotal \<or> unat cbSuffix \<ge> cbLine line)
                     then JET_errNodeCorrupted else JET_errSuccess)
          in if pgnbc = pgnbcNoChecks \<and> cbLine line \<le> cbKeyCountTotal \<and> \<not> unat cbSuffix < cbLine line then None
             else Some (\<lparr>key = \<lparr>prefix = \<lparr>pv = pvPrefix, cb = ucast cbPrefix\<rparr>,
                                suffix = \<lparr>pv = Some (pb + cbKeyCount), cb = ucast cbSuffix\<rparr>\<rparr>,
                         data = \<lparr>pv = Some (pb + cbKeyCount + unat cbSuffix),
                                 cb = word_of_nat (cbLine line) - ucast cbSuffix - word_of_nat cbKeyCountTotal\<rparr>,
                         fFlags = fLineFlags line\<rparr>, err))"

text \<open>The result has the first of the errors that are found.\<close>

definition first_err :: "JET_ERR \<Rightarrow> JET_ERR \<Rightarrow> JET_ERR" where
  "first_err err err' = (if err = JET_errSuccess then err' else err)"

definition FNDCompressed :: "'d KEYDATAFLAGS \<Rightarrow> bool" where
  "FNDCompressed kdf \<longleftrightarrow> fFlags kdf AND fNDCompressed \<noteq> 0"

definition FNDVersion :: "'d KEYDATAFLAGS \<Rightarrow> bool" where
  "FNDVersion kdf \<longleftrightarrow> fFlags kdf AND fNDVersion \<noteq> 0"

definition FNDDeleted :: "'d KEYDATAFLAGS \<Rightarrow> bool" where
  "FNDDeleted kdf \<longleftrightarrow> fFlags kdf AND fNDDeleted \<noteq> 0"

text \<open>The second half of \<open>NDIGetKeydataflags\<close>: the pointer of the prefix.\<close>

definition get_prefix :: "PageNodeBoundsChecking \<Rightarrow> CPAGE \<Rightarrow> PTR KEYDATAFLAGS \<Rightarrow> JET_ERR \<Rightarrow> PTR KEYDATAFLAGS \<times> JET_ERR" where
  "get_prefix pgnbc p kdf err =
     (let set_prefix = (\<lambda>d. kdf\<lparr>key := (key kdf)\<lparr>prefix := d\<rparr>\<rparr>); cbPrefix = cb (prefix (key kdf)) in
      if FNDCompressed kdf then
        (case GetPtr pgnbc p 0 of (line, err') \<Rightarrow>
           let err = first_err err err' in
           if pgnbc = pgnbcChecked \<and> err' \<noteq> JET_errSuccess \<and> pvLine line = None
           then (set_prefix null_PTR, err)
           else
             let d = (if \<not> FRootPage p then \<lparr>pv = pvLine line, cb = cbPrefix\<rparr>
                      else if FSpaceTree p then \<lparr>pv = map_option (\<lambda>ib. ib + sizeof_SPLIT_BUFFER) (pvLine line), cb = cbPrefix\<rparr>
                      else null_PTR)
             in (set_prefix d,
                 if pgnbc = pgnbcChecked \<and> unat (cb d) > cbLine line \<and> cbLine line \<noteq> 0
                 then first_err err JET_errNodeCorrupted else err))
      else (set_prefix \<lparr>pv = None, cb = cbPrefix\<rparr>, err))"

definition NDIGetKeydataflags ::
    "PageNodeBoundsChecking \<Rightarrow> CPAGE \<Rightarrow> nat \<Rightarrow> (PTR KEYDATAFLAGS \<times> JET_ERR) option" where
  "NDIGetKeydataflags pgnbc p iline =
     (case GetPtr pgnbc p (iline + m_ctagReserved p) of (line, err) \<Rightarrow>
        let cbLengths = cbKeyCount + (if fLineFlags line AND fNDCompressed \<noteq> 0 then cbPrefixOverhead else 0);
            fUnreadable = (case pvLine line of None \<Rightarrow> True | Some ib \<Rightarrow> \<not> FOnPage p ib cbLengths)
        in if pgnbc = pgnbcChecked \<and> err \<noteq> JET_errSuccess \<and> fUnreadable then Some (null_kdf, err)
           else
             case NDILineToKeydataflags pgnbc p line None of
               None \<Rightarrow> None
             | Some (kdf, err') \<Rightarrow> Some (get_prefix pgnbc p kdf (first_err err err')))"

definition ErrNDIGetKeydataflags :: "CPAGE \<Rightarrow> nat \<Rightarrow> (PTR KEYDATAFLAGS \<times> JET_ERR) option" where
  "ErrNDIGetKeydataflags p iline = NDIGetKeydataflags pgnbcChecked p iline"

definition NDGetBookmarkFromKDF :: "DATA KEYDATAFLAGS \<Rightarrow> bool \<Rightarrow> DATA BOOKMARK" where
  "NDGetBookmarkFromKDF kdf fUnique = \<lparr>bm_key = key kdf, bm_data = (if fUnique then [] else data kdf)\<rparr>"

definition NDIGetBookmark :: "CPAGE \<Rightarrow> nat \<Rightarrow> bool \<Rightarrow> DATA BOOKMARK option" where
  "NDIGetBookmark p iline fUnique =
     map_option (\<lambda>(kdf, _). NDGetBookmarkFromKDF (fetch p kdf) fUnique) (NDIGetKeydataflags pgnbcNoChecks p iline)"

section \<open>Writing a node\<close>

text \<open>
  The pieces of a line and its flags. The first routine leaves \<open>le_cbPrefix\<close> bytes of the key
  out, the second the prefix of the given key.
\<close>

definition CdataNDIPrefixAndKeydataflagsToDataflags :: "DATA KEYDATAFLAGS \<Rightarrow> USHORT \<Rightarrow> DATA list \<times> USHORT" where
  "CdataNDIPrefixAndKeydataflagsToDataflags kdf le_cbPrefix =
     (let k = key kdf; cbPrefix = unat le_cbPrefix;
          (pieces, cbSuffix) =
            (if length (prefix k) \<le> cbPrefix then
               let cbPrefixInSuffix = cbPrefix - length (prefix k)
               in ([drop cbPrefixInSuffix (suffix k)], int (length (suffix k)) - int cbPrefixInSuffix)
             else
               ([drop cbPrefix (prefix k), suffix k], int (length (suffix k)) + (int (length (prefix k)) - int cbPrefix)));
          le_cbSuffix = (word_of_int cbSuffix :: USHORT)
      in ((if le_cbPrefix > 0 then [store_le 2 le_cbPrefix] else []) @ [store_le 2 le_cbSuffix] @ pieces @ [data kdf],
          if le_cbPrefix > 0 then fFlags kdf OR fNDCompressed else fFlags kdf AND NOT fNDCompressed))"

definition CdataNDIKeydataflagsToDataflags :: "DATA KEYDATAFLAGS \<Rightarrow> DATA list \<times> USHORT" where
  "CdataNDIKeydataflagsToDataflags kdf =
     (let k = key kdf
      in ((if prefix k \<noteq> [] then [store_le 2 (word_of_nat (length (prefix k)) :: USHORT)] else [])
            @ [store_le 2 (word_of_nat (length (suffix k)) :: USHORT), suffix k, data kdf],
          fFlags kdf))"

section \<open>Searching a page\<close>

text \<open>
  The loop of the binary search of a leaf page. The result is the line, or -1, the last
  comparison and the last node that was looked at.
\<close>

function seek_GEQ :: "CPAGE \<Rightarrow> DATA BOOKMARK \<Rightarrow> bool \<Rightarrow> int \<Rightarrow> int \<Rightarrow> int \<Rightarrow> DATA BOOKMARK
    \<Rightarrow> (int \<times> int \<times> DATA BOOKMARK) option" where
  "seek_GEQ p bm fUnique ilineFirst ilineLast compare bmNode =
     (if ilineFirst \<le> ilineLast then
        let ilineMid = (ilineFirst + ilineLast) div 2 in
        case NDIGetKeydataflags pgnbcNoChecks p (nat ilineMid) of
          None \<Rightarrow> None
        | Some (kdfT, _) \<Rightarrow>
            let bmNode = NDGetBookmarkFromKDF (fetch p kdfT) fUnique in
            if \<not> (sint (cb (data kdfT)) > 0 \<or> \<not> g_fNodeMiscMemoryTrashedDefenseInDepthTemp) then None
            else
              let compare = CmpKeyData bmNode bm in
              if compare < 0 then seek_GEQ p bm fUnique (ilineMid + 1) ilineLast compare bmNode
              else if 0 = compare then Some (ilineMid, compare, bmNode)
              else if ilineMid = ilineFirst then Some (ilineMid, compare, bmNode)
              else seek_GEQ p bm fUnique ilineFirst ilineMid compare bmNode
      else Some (- 1, compare, bmNode))"
  by pat_completeness auto
termination
  by (relation "measure (\<lambda>(p, bm, fUnique, ilineFirst, ilineLast, compare, bmNode). nat (ilineLast + 1 - ilineFirst))") auto

definition null_bm :: "DATA BOOKMARK" where
  "null_bm = \<lparr>bm_key = \<lparr>prefix = [], suffix = []\<rparr>, bm_data = []\<rparr>"

definition IlineNDISeekGEQ :: "CPAGE \<Rightarrow> DATA BOOKMARK \<Rightarrow> bool \<Rightarrow> (int \<times> int) option" where
  "IlineNDISeekGEQ p bm fUnique =
     (case seek_GEQ p bm fUnique 0 (Clines p - 1) 0 null_bm of
        None \<Rightarrow> None
      | Some (iline, compare, bmNode) \<Rightarrow>
          Some (iline, if 0 \<noteq> compare \<and> 0 = length (bm_data bm) then CmpKey (bm_key bmNode) (bm_key bm) else compare))"

text \<open>The loop of the binary search of an internal page. The result is the last line looked at and the comparison.\<close>

function seek_GEQ_internal :: "CPAGE \<Rightarrow> DATA BOOKMARK \<Rightarrow> LINE \<Rightarrow> int \<Rightarrow> int \<Rightarrow> int \<Rightarrow> int \<Rightarrow> (int \<times> int) option" where
  "seek_GEQ_internal p bm lineExternalHeader ilineFirst ilineLast ilineMid compare =
     (if ilineFirst \<le> ilineLast then
        let ilineMid = (ilineFirst + ilineLast) div 2;
            line = fst (GetPtr pgnbcNoChecks p (nat ilineMid + m_ctagReserved p)) in
        case NDILineToKeydataflags pgnbcNoChecks p line (pvLine lineExternalHeader) of
          None \<Rightarrow> None
        | Some (kdfNode, _) \<Rightarrow>
            if \<not> (unat (cb (prefix (key kdfNode))) \<le> cbLine lineExternalHeader
                 \<and> unat (cb (suffix (key kdfNode))) < cbLine line
                 \<and> CbPageHeader p + the (pvLine line) + cbLine line < g_cbPageMax) then None
            else
              let compare = CmpKeyWithKeyData (key (fetch p kdfNode)) bm in
              if compare < 0 then seek_GEQ_internal p bm lineExternalHeader (ilineMid + 1) ilineLast ilineMid compare
              else if 0 = compare then Some (ilineMid, compare)
              else if ilineMid = ilineFirst then Some (ilineMid, compare)
              else seek_GEQ_internal p bm lineExternalHeader ilineFirst ilineMid ilineMid compare
      else Some (ilineMid, compare))"
  by pat_completeness auto
termination
  by (relation "measure (\<lambda>(p, bm, l, ilineFirst, ilineLast, ilineMid, compare). nat (ilineLast + 1 - ilineFirst))") auto

definition IlineNDISeekGEQInternal :: "CPAGE \<Rightarrow> DATA BOOKMARK \<Rightarrow> (int \<times> int) option" where
  "IlineNDISeekGEQInternal p bm =
     (let lineExternalHeader = fst (GetPtr pgnbcNoChecks p 0) in
      if \<not> cbLine lineExternalHeader < g_cbPageMax then None
      else case seek_GEQ_internal p bm lineExternalHeader 0 (Clines p - 1) 0 0 of
             None \<Rightarrow> None
           | Some (ilineMid, compare) \<Rightarrow>
               Some (ilineMid, if 0 = compare \<and> \<not> FNull_key (bm_key bm) then 0 else 1))"

text \<open>The linear searches the debug build compares the binary ones with.\<close>

function seek_linear :: "CPAGE \<Rightarrow> DATA BOOKMARK \<Rightarrow> bool \<Rightarrow> nat \<Rightarrow> (int \<times> int) option" where
  "seek_linear p bm fUnique iline =
     (if int iline < Clines p then
        case NDIGetBookmark p iline fUnique of
          None \<Rightarrow> None
        | Some bmNode \<Rightarrow>
            let cmp = CmpKey (bm_key bmNode) (bm_key bm) in
            if cmp < 0 then seek_linear p bm fUnique (iline + 1)
            else if cmp > 0 \<or> length (bm_data bm) = 0 then Some (int iline, cmp)
            else let cmp = CmpData (bm_data bmNode) (bm_data bm)
                 in if cmp \<ge> 0 then Some (int iline, cmp) else seek_linear p bm fUnique (iline + 1)
      else Some (- 1, 0))"
  by pat_completeness auto
termination
  by (relation "measure (\<lambda>(p, bm, fUnique, iline). nat (Clines p - int iline))") auto

definition IlineNDISeekGEQDebug :: "CPAGE \<Rightarrow> DATA BOOKMARK \<Rightarrow> bool \<Rightarrow> (int \<times> int) option" where
  "IlineNDISeekGEQDebug p bm fUnique = seek_linear p bm fUnique 0"

function seek_linear_internal :: "CPAGE \<Rightarrow> DATA BOOKMARK \<Rightarrow> nat \<Rightarrow> (int \<times> int) option" where
  "seek_linear_internal p bm iline =
     (if int iline < Clines p - 1 then
        case NDIGetKeydataflags pgnbcNoChecks p iline of
          None \<Rightarrow> None
        | Some (kdfNode, _) \<Rightarrow>
            let compare = CmpKeyWithKeyData (key (fetch p kdfNode)) bm in
            if compare < 0 then seek_linear_internal p bm (iline + 1) else Some (int iline, compare)
      else Some (int iline, 1))"
  by pat_completeness auto
termination
  by (relation "measure (\<lambda>(p, bm, iline). nat (Clines p - int iline))") auto

definition IlineNDISeekGEQInternalDebug :: "CPAGE \<Rightarrow> DATA BOOKMARK \<Rightarrow> (int \<times> int) option" where
  "IlineNDISeekGEQInternalDebug p bm = seek_linear_internal p bm 0"

text \<open>The cursor: the page and the current line. A seek returns the cursor and the error.\<close>

record CSR =
  csr_cpage :: CPAGE
  csr_iline :: int

definition ErrNDISeekInternalPage :: "CSR \<Rightarrow> DATA BOOKMARK \<Rightarrow> (CSR \<times> JET_ERR) option" where
  "ErrNDISeekInternalPage pcsr bm =
     (case IlineNDISeekGEQInternal (csr_cpage pcsr) bm of
        None \<Rightarrow> None
      | Some (iline, compare) \<Rightarrow>
          Some (if 0 = compare then
                  if iline \<ge> Clines (csr_cpage pcsr) - 1 then (pcsr, JET_errDatabaseCorrupted)
                  else (pcsr\<lparr>csr_iline := iline + 1\<rparr>, JET_errSuccess)
                else (pcsr\<lparr>csr_iline := iline\<rparr>, wrnNDFoundGreater)))"

definition ErrNDISeekLeafPage :: "bool \<Rightarrow> CSR \<Rightarrow> DATA BOOKMARK \<Rightarrow> (CSR \<times> JET_ERR) option" where
  "ErrNDISeekLeafPage fUnique pcsr bm =
     (case IlineNDISeekGEQ (csr_cpage pcsr) bm fUnique of
        None \<Rightarrow> None
      | Some (iline, compare) \<Rightarrow>
          Some (if iline \<ge> 0 \<and> 0 = compare then (pcsr\<lparr>csr_iline := iline\<rparr>, JET_errSuccess)
                else if iline < 0 then (pcsr\<lparr>csr_iline := Clines (csr_cpage pcsr) - 1\<rparr>, wrnNDFoundLess)
                else (pcsr\<lparr>csr_iline := iline\<rparr>, wrnNDFoundGreater)))"

text \<open>The part of the cursor state \<open>FUCB\<close> the node layer uses.\<close>

record FUCB =
  kdfCurr :: "PTR KEYDATAFLAGS"
  fBookmarkPreviouslySaved :: bool
  fFUCBUnique :: bool

definition NDGet :: "FUCB \<Rightarrow> CSR \<Rightarrow> FUCB option" where
  "NDGet pfucb pcsr =
     map_option (\<lambda>(keydataflags, _). pfucb\<lparr>kdfCurr := keydataflags, fBookmarkPreviouslySaved := False\<rparr>)
       (NDIGetKeydataflags pgnbcNoChecks (csr_cpage pcsr) (nat (csr_iline pcsr)))"

definition ErrNDGet :: "FUCB \<Rightarrow> CSR \<Rightarrow> (FUCB \<times> JET_ERR) option" where
  "ErrNDGet pfucb pcsr =
     (if csr_iline pcsr < 0 \<or> csr_iline pcsr \<ge> Clines (csr_cpage pcsr) then Some (pfucb, JET_errBadLineCount)
      else map_option (\<lambda>pfucb. (pfucb, JET_errSuccess)) (NDGet pfucb pcsr))"

definition is_error :: "JET_ERR \<Rightarrow> bool" where
  "is_error err \<longleftrightarrow> err \<notin> {JET_errSuccess, wrnNDFoundGreater, wrnNDFoundLess}"

definition ErrNDSeek :: "FUCB \<Rightarrow> CSR \<Rightarrow> DATA BOOKMARK \<Rightarrow> (FUCB \<times> CSR \<times> JET_ERR) option" where
  "ErrNDSeek pfucb pcsr bookmark =
     (if Clines (csr_cpage pcsr) \<le> 0 then Some (pfucb, pcsr, JET_errBadEmptyPage)
      else
        let fInternalPage = \<not> FLeafPage (csr_cpage pcsr) in
        case (if fInternalPage then ErrNDISeekInternalPage pcsr bookmark
              else ErrNDISeekLeafPage (fFUCBUnique pfucb) pcsr bookmark) of
          None \<Rightarrow> None
        | Some (pcsr, err) \<Rightarrow>
            if \<not> is_error err then map_option (\<lambda>pfucb. (pfucb, pcsr, err)) (NDGet pfucb pcsr)
            else Some (pfucb, pcsr, err))"

definition ErrNDSeekInternal :: "FUCB \<Rightarrow> CSR \<Rightarrow> DATA BOOKMARK \<Rightarrow> (FUCB \<times> CSR \<times> JET_ERR) option" where
  "ErrNDSeekInternal pfucb pcsr bookmark =
     (case IlineNDISeekGEQInternal (csr_cpage pcsr) bookmark of
        None \<Rightarrow> None
      | Some (iline, compare) \<Rightarrow>
          let pcsr = pcsr\<lparr>csr_iline := iline\<rparr>
          in map_option (\<lambda>pfucb. (pfucb, pcsr, if compare = 0 then JET_errSuccess else wrnNDFoundGreater)) (NDGet pfucb pcsr))"

definition NDMoveFirstSon :: "FUCB \<Rightarrow> CSR \<Rightarrow> (FUCB \<times> CSR) option" where
  "NDMoveFirstSon pfucb pcsr =
     (let pcsr = pcsr\<lparr>csr_iline := 0\<rparr> in map_option (\<lambda>pfucb. (pfucb, pcsr)) (NDGet pfucb pcsr))"

definition NDMoveLastSon :: "FUCB \<Rightarrow> CSR \<Rightarrow> (FUCB \<times> CSR) option" where
  "NDMoveLastSon pfucb pcsr =
     (let pcsr = pcsr\<lparr>csr_iline := Clines (csr_cpage pcsr) - 1\<rparr> in map_option (\<lambda>pfucb. (pfucb, pcsr)) (NDGet pfucb pcsr))"

declare seek_GEQ.simps [simp del] seek_GEQ_internal.simps [simp del] seek_linear.simps [simp del]
  seek_linear_internal.simps [simp del]

end
