(* ===== verification/Node_Codec.thy ===== *)
theory Node_Codec
  imports Cpage_Space Node
begin

unbundle bit_operations_syntax

text \<open>
  Encoding and decoding of nodes. \<open>node_of\<close> is the node a line stands for, given the bytes of
  the page's common prefix; \<open>node_ok\<close> says that the lengths in the line are consistent. Reading
  a node of a well-formed page gives \<open>node_of\<close>, and the pieces the two encoders produce make a
  line that decodes to the node they were given.
\<close>

section \<open>Lines as nodes\<close>

definition compressed :: "USHORT \<Rightarrow> bool" where
  "compressed f \<longleftrightarrow> f AND fNDCompressed \<noteq> 0"

definition key_offset :: "USHORT \<Rightarrow> nat" where
  "key_offset f = (if compressed f then cbPrefixOverhead else 0)"

definition key_len :: "BYTE list \<Rightarrow> nat \<Rightarrow> nat" where
  "key_len bs k = unat (load_le (subbuf k 2 bs) AND usNDCbKeyMask :: USHORT)"

definition cb_prefix :: "BYTE list \<times> USHORT \<Rightarrow> nat" where
  "cb_prefix l = (if compressed (snd l) then key_len (fst l) 0 else 0)"

definition cb_suffix :: "BYTE list \<times> USHORT \<Rightarrow> nat" where
  "cb_suffix l = key_len (fst l) (key_offset (snd l))"

definition data_offset :: "BYTE list \<times> USHORT \<Rightarrow> nat" where
  "data_offset l = key_offset (snd l) + cbKeyCount + cb_suffix l"

definition node_of :: "DATA \<Rightarrow> BYTE list \<times> USHORT \<Rightarrow> DATA KEYDATAFLAGS" where
  "node_of hdr l = \<lparr>key = \<lparr>prefix = take (cb_prefix l) hdr, suffix = subbuf (key_offset (snd l) + cbKeyCount) (cb_suffix l) (fst l)\<rparr>,
     data = drop (data_offset l) (fst l), fFlags = snd l\<rparr>"

definition node_ok :: "DATA \<Rightarrow> BYTE list \<times> USHORT \<Rightarrow> bool" where
  "node_ok hdr l \<longleftrightarrow> cb_prefix l \<le> length hdr \<and> data_offset l < length (fst l)"

text \<open>The bytes the prefixes of a page's nodes are taken from.\<close>

definition prefix_bytes :: "CPAGE \<Rightarrow> DATA" where
  "prefix_bytes p =
     (if \<not> FRootPage p then line_bytes p 0
      else if FSpaceTree p then drop sizeof_SPLIT_BUFFER (line_bytes p 0) else [])"

definition nodes :: "CPAGE \<Rightarrow> DATA KEYDATAFLAGS list" where
  "nodes p = map (node_of (prefix_bytes p)) (records p)"

lemma length_nodes [simp]: "length (nodes p) = length (records p)"
  by (simp add: nodes_def)

definition node_page :: "CPAGE \<Rightarrow> bool" where
  "node_page p \<longleftrightarrow> page_inv p \<and> list_all (node_ok (prefix_bytes p)) (records p)"

section \<open>Reading\<close>

lemma GetPtr_unchecked:
  assumes "page_inv p" and "k < m_itagMicFree p"
  shows "GetPtr pgnbcNoChecks p k =
    (\<lparr>pvLine = (if Cb p k = 0 then None else Some (Ib p k)), cbLine = Cb p k, fLineFlags = snd (line p k)\<rparr>, JET_errSuccess)"
  using FFlags_line [OF assms] by (simp add: GetPtr_def Let_def)

lemma ucast_unat: "ucast (w :: USHORT) = (word_of_nat (unat w) :: ULONG)"
  by (rule bit_word_eqI) (auto simp: bitwise dest: bit_imp_le_length)

lemma unat_ULONG [simp]: "n < 4294967296 \<Longrightarrow> unat (word_of_nat n :: ULONG) = n"
  by (simp add: unsigned_of_nat take_bit_nat_eq_self)

lemma key_len_on_page:
  assumes "Ib p k + Cb p k \<le> length (rgb p)" and "j + 2 \<le> Cb p k"
  shows "unat (load_le (subbuf (Ib p k + j) 2 (rgb p)) AND usNDCbKeyMask :: USHORT) = key_len (line_bytes p k) j"
  using assms by (simp add: key_len_def line_bytes_def)

text \<open>What \<open>NDILineToKeydataflags\<close> returns for a line with consistent lengths.\<close>

definition line_kdf :: "CPAGE \<Rightarrow> nat \<Rightarrow> nat option \<Rightarrow> PTR KEYDATAFLAGS" where
  "line_kdf p k pvPrefix = (let l = line p k in
     \<lparr>key = \<lparr>prefix = \<lparr>pv = pvPrefix, cb = word_of_nat (cb_prefix l)\<rparr>,
             suffix = \<lparr>pv = Some (Ib p k + key_offset (snd l) + cbKeyCount), cb = word_of_nat (cb_suffix l)\<rparr>\<rparr>,
      data = \<lparr>pv = Some (Ib p k + data_offset l), cb = word_of_nat (length (fst l) - data_offset l)\<rparr>, fFlags = snd l\<rparr>)"

lemma NDILine_ok:
  assumes inv: "page_inv p" and k: "k < m_itagMicFree p" and ok: "data_offset (line p k) < length (fst (line p k))"
  shows "NDILineToKeydataflags pgnbc p \<lparr>pvLine = Some (Ib p k), cbLine = Cb p k, fLineFlags = snd (line p k)\<rparr> pvPrefix
    = Some (line_kdf p k pvPrefix, JET_errSuccess)"
proof -
  let ?l = "line p k" and ?n = "key_offset (snd (line p k))"
  have len: "length (fst ?l) = Cb p k" using record_size [OF inv k] by (simp add: line_size_def)
  have off: "?n + 2 + cb_suffix ?l < Cb p k" using ok len by (simp add: data_offset_def cbKeyCount_def)
  then have "Cb p k \<noteq> 0" by simp
  then have fit: "Ib p k + Cb p k \<le> length (rgb p)" and small: "Cb p k < 2 ^ 32"
    using inv_facts(5,9) [OF inv] inv_facts(6) [OF inv k] by simp_all
  have bytes: "fst ?l = line_bytes p k" by (simp add: line_def)
  have s: "unat (load_le (subbuf (Ib p k + ?n) 2 (rgb p)) AND usNDCbKeyMask :: USHORT) = cb_suffix ?l"
    using key_len_on_page [OF fit, of ?n] off by (simp add: cb_suffix_def bytes)
  have q: "compressed (snd ?l) \<Longrightarrow> unat (load_le (subbuf (Ib p k) 2 (rgb p)) AND usNDCbKeyMask :: USHORT) = cb_prefix ?l"
    using key_len_on_page [OF fit, of 0] off by (simp add: cb_prefix_def bytes)
  have su: "ucast (load_le (subbuf (Ib p k + ?n) 2 (rgb p)) AND usNDCbKeyMask :: USHORT) = (word_of_nat (cb_suffix ?l) :: ULONG)"
    by (simp only: ucast_unat s)
  have pu: "compressed (snd ?l) \<Longrightarrow> ucast (load_le (subbuf (Ib p k) 2 (rgb p)) AND usNDCbKeyMask :: USHORT) = (word_of_nat (cb_prefix ?l) :: ULONG)"
    by (simp only: ucast_unat q)
  have d: "word_of_nat (Cb p k) - word_of_nat (cb_suffix ?l) - word_of_nat (cbKeyCount + ?n) = (word_of_nat (length (fst ?l) - data_offset ?l) :: ULONG)"
    using off len by (simp add: data_offset_def cbKeyCount_def of_nat_diff algebra_simps)
  show ?thesis
  proof (cases "compressed (snd ?l)")
    case True
    then have n: "?n = 2" by (simp add: key_offset_def cbPrefixOverhead_def cbKeyCount_def)
    show ?thesis
      using True off s [unfolded n] su [unfolded n] pu d [unfolded n] n
      by (simp add: NDILineToKeydataflags_def line_kdf_def Let_def data_offset_def compressed_def [symmetric]
          cbKeyCount_def cbPrefixOverhead_def algebra_simps del: add_2_eq_Suc add_2_eq_Suc')
  next
    case False
    then have n: "?n = 0" and "cb_prefix ?l = 0" by (simp_all add: key_offset_def cb_prefix_def)
    then show ?thesis
      using False off s [unfolded n] su [unfolded n] d [unfolded n]
      by (simp add: NDILineToKeydataflags_def line_kdf_def Let_def data_offset_def compressed_def [symmetric]
          cbKeyCount_def cbPrefixOverhead_def algebra_simps del: add_2_eq_Suc add_2_eq_Suc')
  qed
qed

lemma key_len_less: "key_len bs k < 8192"
proof -
  have "usNDCbKeyMask = mask 13" by (simp add: usNDCbKeyMask_def mask_eq_exp_minus_1)
  have "key_len bs k = take_bit 13 (unat (load_le (subbuf k 2 bs) :: USHORT))"
    unfolding key_len_def \<open>usNDCbKeyMask = mask 13\<close> by (simp add: unsigned_take_bit_eq flip: take_bit_eq_mask)
  also have "\<dots> < 2 ^ 13" by (rule take_bit_nat_less_exp)
  finally show ?thesis by simp
qed

lemma cb_fields_less: "cb_prefix l < 8192" "cb_suffix l < 8192"
  using key_len_less by (simp_all add: cb_prefix_def cb_suffix_def)

lemma subbuf_to_end: "k \<le> n \<Longrightarrow> i + n \<le> length bs \<Longrightarrow> subbuf (i + k) (n - k) bs = drop k (subbuf i n bs)"
  by (simp add: subbuf_def drop_take add.commute)

lemma fetch_line:
  assumes inv: "page_inv p" and k: "k < m_itagMicFree p" and ok: "data_offset (line p k) < length (fst (line p k))"
  shows "fetch_PTR p (suffix (key (line_kdf p k pvPrefix))) = suffix (key (node_of hdr (line p k)))"
    and "fetch_PTR p (data (line_kdf p k pvPrefix)) = data (node_of hdr (line p k))"
    and "0 < sint (cb (data (line_kdf p k pvPrefix)))"
    and "unat (cb (data (line_kdf p k pvPrefix))) = length (data (node_of hdr (line p k)))"
proof -
  let ?l = "line p k"
  have len: "length (fst ?l) = Cb p k" using record_size [OF inv k] by (simp add: line_size_def)
  then have "Cb p k \<noteq> 0" using ok by simp
  then have fit: "Ib p k + Cb p k \<le> length (rgb p)" and small: "Cb p k < 65536"
    using inv_facts(5,9) [OF inv] inv_facts(6) [OF inv k] by simp_all
  have bytes: "fst ?l = subbuf (Ib p k) (Cb p k) (rgb p)" by (simp add: line_def line_bytes_def)
  have off: "data_offset ?l = key_offset (snd ?l) + cbKeyCount + cb_suffix ?l" by (simp add: data_offset_def)
  show "fetch_PTR p (suffix (key (line_kdf p k pvPrefix))) = suffix (key (node_of hdr ?l))"
    using ok off len cb_fields_less(2) [of ?l] by (simp add: fetch_PTR_def line_kdf_def node_of_def bytes Let_def add.assoc)
  show "fetch_PTR p (data (line_kdf p k pvPrefix)) = data (node_of hdr ?l)"
    using ok len small fit subbuf_to_end [of "data_offset ?l" "Cb p k" "Ib p k" "rgb p"]
    by (simp add: fetch_PTR_def line_kdf_def node_of_def bytes Let_def del: of_nat_diff)
  have u: "unat (cb (data (line_kdf p k pvPrefix))) = Cb p k - data_offset ?l"
    using small len by (simp add: line_kdf_def Let_def del: of_nat_diff)
  then show "unat (cb (data (line_kdf p k pvPrefix))) = length (data (node_of hdr ?l))"
    using len by (simp add: node_of_def)
  have "sint (word_of_nat n :: ULONG) = int n" if "n < 65536" for n
    using that by (simp add: signed_of_nat signed_take_bit_int_eq_self)
  then show "0 < sint (cb (data (line_kdf p k pvPrefix)))"
    using small len ok by (simp add: line_kdf_def Let_def del: of_nat_diff)
qed

lemma fetch_prefix:
  assumes inv: "page_inv p" and c: "c \<le> length (prefix_bytes p)" "c < 8192"
  shows "fetch_PTR p (if \<not> FRootPage p then \<lparr>pv = pvLine (fst (GetPtr pgnbcNoChecks p 0)), cb = word_of_nat c\<rparr>
      else if FSpaceTree p then \<lparr>pv = map_option (\<lambda>ib. ib + sizeof_SPLIT_BUFFER) (pvLine (fst (GetPtr pgnbcNoChecks p 0))), cb = word_of_nat c\<rparr>
      else null_PTR) = take c (prefix_bytes p)"
proof -
  have 0: "0 < m_itagMicFree p" using inv_facts(1,2) [OF inv] by linarith
  have sub: "subbuf (Ib p 0 + j) c (rgb p) = take c (drop j (line_bytes p 0))" if "c = 0 \<or> c + j \<le> Cb p 0" for j
    using that by (auto simp: line_bytes_def subbuf_def drop_take min_def add.commute)
  have len: "length (line_bytes p 0) = Cb p 0"
    using record_size [OF inv 0] by (simp add: line_size_def line_def)
  have "c = 0 \<or> c + sizeof_SPLIT_BUFFER \<le> Cb p 0" if "FRootPage p" "FSpaceTree p" using c(1) len that by (auto simp: prefix_bytes_def)
  note sub2 = sub [OF this]
  show ?thesis
  proof (cases "Cb p 0 = 0")
    case True
    then show ?thesis using c by (auto simp: GetPtr_unchecked [OF inv 0] fetch_PTR_def prefix_bytes_def null_PTR_def line_bytes_def)
  next
    case False
    then show ?thesis
      using c len sub [of 0] sub2
      by (auto simp: GetPtr_unchecked [OF inv 0] fetch_PTR_def prefix_bytes_def null_PTR_def)
  qed
qed

theorem read_node:
  assumes "node_page p" and i: "i < length (records p)"
  shows "\<exists>kdf. NDIGetKeydataflags pgnbcNoChecks p i = Some (kdf, JET_errSuccess) \<and> fetch p kdf = nodes p ! i
    \<and> 0 < sint (cb (data kdf)) \<and> unat (cb (data kdf)) = length (data (nodes p ! i))"
proof -
  let ?k = "i + m_ctagReserved p"
  have inv: "page_inv p" using assms(1) by (simp add: node_page_def)
  have k: "?k < m_itagMicFree p" using i length_records [OF inv] by simp
  have rec: "records p ! i = line p ?k" by (rule nth_records [OF inv i])
  have ok: "node_ok (prefix_bytes p) (line p ?k)" using assms i by (simp add: node_page_def list_all_length rec [symmetric])
  then have d: "data_offset (line p ?k) < length (fst (line p ?k))" and c: "cb_prefix (line p ?k) \<le> length (prefix_bytes p)"
    by (simp_all add: node_ok_def)
  have "Cb p ?k \<noteq> 0" using d record_size [OF inv k] by (simp add: line_size_def)
  then have g: "GetPtr pgnbcNoChecks p ?k
      = (\<lparr>pvLine = Some (Ib p ?k), cbLine = Cb p ?k, fLineFlags = snd (line p ?k)\<rparr>, JET_errSuccess)"
    by (simp add: GetPtr_unchecked [OF inv k])
  let ?r = "get_prefix pgnbcNoChecks p (line_kdf p ?k None) JET_errSuccess"
  have read: "NDIGetKeydataflags pgnbcNoChecks p i = Some ?r"
    by (simp add: NDIGetKeydataflags_def g NDILine_ok [OF inv k d] Let_def first_err_def)
  have 0: "0 < m_itagMicFree p" using inv_facts(1,2) [OF inv] by linarith
  have flags: "FNDCompressed (line_kdf p ?k None) \<longleftrightarrow> compressed (snd (line p ?k))"
    by (simp add: FNDCompressed_def compressed_def line_kdf_def Let_def)
  have cb: "cb (prefix (key (line_kdf p ?k None))) = word_of_nat (cb_prefix (line p ?k))" by (simp add: line_kdf_def Let_def)
  have "snd ?r = JET_errSuccess"
    by (simp add: get_prefix_def GetPtr_unchecked [OF inv 0] first_err_def Let_def)
  moreover have pre: "fetch_PTR p (prefix (key (fst ?r))) = take (cb_prefix (line p ?k)) (prefix_bytes p)"
  proof (cases "compressed (snd (line p ?k))")
    case True
    then show ?thesis
      using fetch_prefix [OF inv c cb_fields_less(1)]
      by (cases "FRootPage p"; cases "FSpaceTree p"; cases "GetPtr pgnbcNoChecks p 0") (simp_all add: get_prefix_def flags cb Let_def)
  next
    case False
    then show ?thesis by (simp add: get_prefix_def flags Let_def fetch_PTR_def cb_prefix_def)
  qed
  moreover have same: "suffix (key (fst ?r)) = suffix (key (line_kdf p ?k None))" "data (fst ?r) = data (line_kdf p ?k None)"
    "fFlags (fst ?r) = snd (line p ?k)"
    by (simp_all add: get_prefix_def Let_def split: prod.splits) (simp_all add: line_kdf_def Let_def)
  moreover have "fetch p (fst ?r) = node_of (prefix_bytes p) (line p ?k)"
    using pre same fetch_line(1,2) [OF inv k d, of None "prefix_bytes p"] by (simp add: fetch_def node_of_def)
  moreover have "nodes p ! i = node_of (prefix_bytes p) (line p ?k)" using i by (simp add: nodes_def rec)
  ultimately show ?thesis
    using read fetch_line(3,4) [OF inv k d, of None] by (intro exI [of _ "fst ?r"]) (metis prod.collapse)
qed

end
