(* ===== verification/Page_Check.thy ===== *)
theory Page_Check
  imports Cpage_Properties Node_Codec
begin

unbundle bit_operations_syntax

text \<open>
  The validation of a page, \<open>CPAGE::ErrCheckPage\<close>, in the release build. Every place where the
  routine gives up with \<open>ErrCaptureCorruptedPageInfoSz\<close> is a value of \<open>page_fault\<close>, named after
  the text it reports; None is success. What the caller's mode makes of a fault is \<open>err_of_fault\<close>.
  The global \<open>g_fRepair\<close> and whether the memory for the map of used bytes could be allocated are
  arguments.
\<close>

section \<open>Faults\<close>

datatype page_fault = CbFreeTooLarge | CbUncommittedFreeTooLarge | IbMicFreeTooLarge | ItagMicFreeTooLarge
  | EmptyAndPreInitFlagsNotSet | TagArrayWalkingOntoPghdr | TagArrayTooBigToLeaveDataRoom
  | PageEmptyAndPagePreInitFlagsBothSet | PreInitPageFlagSetWithInvalidFlags | CorruptFlagsMixedIndexPrimary
  | CorruptFlagsMixedIndexLv | RepairedPage | ZeroLengthIline | TagInFreeSpace | TagBeyondEndOfPage
  | GetLineGotNullPtr | LineEntirelyBelowDataSection | LineStartsBelowDataSection | TagcbPrefixTooLarge
  | TagcbSuffixTooLarge | TagZeroLengthKey | TagcbDataTooLarge | TagCbDataZero | TagDataTooLarge
  | LinesOutOfOrder | TagsOverlap | SpaceSizeMismatch

text \<open>The checks of a list are made in order; the first that holds is the fault.\<close>

fun first_fault :: "(bool \<times> page_fault) list \<Rightarrow> page_fault option" where
  "first_fault [] = None"
| "first_fault ((c, f) # cs) = (if c then Some f else first_fault cs)"

definition CheckTagsNonOverlapping :: ULONG where "CheckTagsNonOverlapping = 0x1"
definition CheckLineBoundedByTag :: ULONG where "CheckLineBoundedByTag = 0x2"
definition CheckLinesInOrder :: ULONG where "CheckLinesInOrder = 0x4"
definition CheckDefault :: ULONG where "CheckDefault = CheckTagsNonOverlapping OR CheckLineBoundedByTag"
definition CheckAll :: ULONG where "CheckAll = CheckTagsNonOverlapping OR CheckLineBoundedByTag OR CheckLinesInOrder"

definition FHasFlag :: "CPAGE \<Rightarrow> ULONG \<Rightarrow> bool" where
  "FHasFlag p f \<longleftrightarrow> hdr_fFlags (pghdr p) AND f \<noteq> 0"

definition FEmptyPage :: "CPAGE \<Rightarrow> bool" where "FEmptyPage p = FHasFlag p fPageEmpty"
definition FPreInitPage :: "CPAGE \<Rightarrow> bool" where "FPreInitPage p = FHasFlag p fPagePreInit"
definition FIndexPage :: "CPAGE \<Rightarrow> bool" where "FIndexPage p = FHasFlag p fPageIndex"
definition FLongValuePage :: "CPAGE \<Rightarrow> bool" where "FLongValuePage p = FHasFlag p fPageLongValue"
definition FRepairedPage :: "CPAGE \<Rightarrow> bool" where "FRepairedPage p = FHasFlag p fPageRepair"
definition FNewRecordFormat :: "CPAGE \<Rightarrow> bool" where "FNewRecordFormat p = FHasFlag p fPageNewRecordFormat"
definition FPrimaryPage :: "CPAGE \<Rightarrow> bool" where "FPrimaryPage p \<longleftrightarrow> \<not> FIndexPage p \<and> \<not> FPreInitPage p"

section \<open>The header\<close>

text \<open>Addresses are relative to the first byte behind the page header.\<close>

definition PbDataEnd :: "CPAGE \<Rightarrow> int" where
  "PbDataEnd p = int (length (rgb p)) - int (CbTagArray p) - 1"

definition check_header :: "bool \<Rightarrow> CPAGE \<Rightarrow> page_fault option" where
  "check_header g_fRepair p =
     (let h = pghdr p; ctags = int (m_itagMicFree p); cbMinLine = 4 in first_fault
       [(int (cbFree h) > CbBufferData p, CbFreeTooLarge),
        (cbUncommittedFree h > CbPageFree p, CbUncommittedFreeTooLarge),
        (int (ibMicFree h) > CbBufferData p, IbMicFreeTooLarge),
        (ctags \<ge> CbBufferData p div int sizeof_TAG, ItagMicFreeTooLarge),
        (m_itagMicFree p = 0 \<and> \<not> FEmptyPage p \<and> \<not> FPreInitPage p, EmptyAndPreInitFlagsNotSet),
        (PbDataEnd p \<le> 1, TagArrayWalkingOntoPghdr),
        (ctags > 0 \<and> PbDataEnd p - (ctags - 1) * cbMinLine < 0, TagArrayTooBigToLeaveDataRoom),
        (FEmptyPage p \<and> FPreInitPage p, PageEmptyAndPagePreInitFlagsBothSet),
        (FPreInitPage p \<and>
           (m_itagMicFree p \<noteq> 0 \<or> \<not> FNewRecordFormat p
            \<or> hdr_fFlags h AND NOT fPagePreInit AND NOT fPageNewRecordFormat AND NOT fPageNewChecksumFormat AND NOT maskFlushType \<noteq> 0
            \<or> pgnoPrev h \<noteq> 0 \<or> pgnoNext h \<noteq> 0), PreInitPageFlagSetWithInvalidFlags),
        (FIndexPage p \<and> FPrimaryPage p, CorruptFlagsMixedIndexPrimary),
        (FLongValuePage p \<and> FIndexPage p, CorruptFlagsMixedIndexLv),
        (FRepairedPage p \<and> \<not> g_fRepair, RepairedPage)])"

section \<open>The map of used bytes\<close>

text \<open>
  One bit for each byte behind the header. The bit of the first byte of a line is computed with
  a cast to 8 bits before it is used as a 32-bit mask.
\<close>

definition set_from :: "nat \<Rightarrow> ULONG" where
  "set_from ib = (let bit = ucast (ucast (push_bit (ib mod 32) 1 :: ULONG) :: BYTE) :: ULONG in NOT (bit - 1))"

definition mark :: "nat \<Rightarrow> ULONG \<Rightarrow> ULONG list \<times> ULONG \<Rightarrow> ULONG list \<times> ULONG" where
  "mark i bits = (\<lambda>(dws, ov). (dws[i := dws ! i OR bits], ov OR (dws ! i AND bits)))"

function mark_line :: "nat \<Rightarrow> nat \<Rightarrow> ULONG list \<times> ULONG \<Rightarrow> ULONG list \<times> ULONG" where
  "mark_line ibTag cbTag st =
     (if cbTag \<ge> 32 - ibTag mod 32
      then mark_line (ibTag + (32 - ibTag mod 32)) (cbTag - (32 - ibTag mod 32)) (mark (ibTag div 32) (set_from ibTag) st)
      else if cbTag \<noteq> 0 then
        let cbitLeftSkip = 32 - cbTag - ibTag mod 32
        in mark (ibTag div 32) (drop_bit cbitLeftSkip (push_bit cbitLeftSkip (set_from ibTag))) st
      else st)"
  by pat_completeness auto
termination
proof (relation "measure (\<lambda>(ibTag, cbTag, st). cbTag)", goal_cases)
  case (2 ibTag cbTag st)
  then show ?case using mod_less_divisor [of 32 ibTag] by simp
qed simp

section \<open>One tag\<close>

definition Cb_PTR :: "PTR \<Rightarrow> int" where
  "Cb_PTR d = sint (cb d)"

text \<open>The checks of a node; the result of \<open>ErrNDIGetKeydataflags\<close> is \<open>kdf\<close> and \<open>errGetKdf\<close>.\<close>

definition check_node :: "bool \<Rightarrow> ULONG \<Rightarrow> CPAGE \<Rightarrow> int \<Rightarrow> nat \<Rightarrow> nat \<Rightarrow> DATA KEY \<Rightarrow> PTR KEYDATAFLAGS \<Rightarrow> JET_ERR \<Rightarrow> page_fault option" where
  "check_node g_fRepair grbit p cbPrefixMax itag cbTag keyPrev kdf errGetKdf =
     (let cbPrefix = Cb_PTR (prefix (key kdf)); cbSuffix = Cb_PTR (suffix (key kdf)); cbData = Cb_PTR (data kdf);
          cbInternalNode = (if FNDCompressed kdf then 2 else 0) + 2 + cbSuffix + cbData;
          cbInt = int cbTag in first_fault
       [(FNDCompressed kdf \<and> (cbPrefix > cbPrefixMax \<or> cbPrefix < 0), TagcbPrefixTooLarge),
        (cbSuffix > cbInt \<or> cbSuffix < 0, TagcbSuffixTooLarge),
        (cbPrefix = 0 \<and> cbSuffix = 0 \<and> (FLeafPage p \<or> int itag < int (itagState (pghdr p) mod 2 ^ 12) - 1) \<and> \<not> g_fRepair, TagZeroLengthKey),
        (cbData > cbInt \<or> cbData < 0, TagcbDataTooLarge),
        (cbData = 0, TagCbDataZero),
        (cbInternalNode > cbInt \<or> cbInternalNode < 0, TagDataTooLarge),
        (errGetKdf \<noteq> JET_errSuccess, TagDataTooLarge),
        (grbit AND CheckLinesInOrder \<noteq> 0 \<and> itag > m_ctagReserved p
           \<and> (FLeafPage p \<or> int itag < int (m_itagMicFree p) - 1) \<and> CmpKey (key (fetch p kdf)) keyPrev < 0, LinesOutOfOrder)])"

record check_state =
  cbTotal :: nat
  dwOverlaps :: ULONG
  rgdw :: "ULONG list option"
  keyLast :: "DATA KEY"

text \<open>The extensive checks of a tag with a line; the result is a fault or the new state.\<close>

definition check_line :: "bool \<Rightarrow> ULONG \<Rightarrow> CPAGE \<Rightarrow> int \<Rightarrow> nat \<Rightarrow> check_state \<Rightarrow> page_fault + check_state" where
  "check_line g_fRepair grbit p cbPrefixMax itag s =
     (let ibTag = Ib p itag; cbTag = Cb p itag; ibEnd = ibTag + cbTag; cbPageAvail = CbBuffer p;
          line = fst (GetPtr pgnbcChecked p itag) in
      if ibTag \<ge> cbPageAvail \<or> cbTag \<ge> cbPageAvail \<or> ibEnd \<ge> cbPageAvail then Inl TagBeyondEndOfPage
      else case pvLine line of
        None \<Rightarrow> Inl GetLineGotNullPtr
      | Some pb \<Rightarrow>
          if int pb + int cbTag - 1 < 0 then Inl LineEntirelyBelowDataSection
          else if int pb < 0 then Inl LineStartsBelowDataSection
          else
            let fNode = (grbit AND CheckLineBoundedByTag \<noteq> 0 \<and> \<not> FSpaceTree p \<and> itag \<ge> m_ctagReserved p);
                kdfErr = (if fNode then case ErrNDIGetKeydataflags p (itag - m_ctagReserved p) of
                             None \<Rightarrow> (null_kdf, JET_errNodeCorrupted) | Some r \<Rightarrow> r
                          else (null_kdf, JET_errSuccess))
            in case (if fNode then check_node g_fRepair grbit p cbPrefixMax itag cbTag (keyLast s) (fst kdfErr) (snd kdfErr) else None) of
                 Some f \<Rightarrow> Inl f
               | None \<Rightarrow>
                   let s = (if fNode \<and> grbit AND CheckLinesInOrder \<noteq> 0 then s\<lparr>keyLast := key (fetch p (fst kdfErr))\<rparr> else s)
                   in Inr (case rgdw s of
                        None \<Rightarrow> s
                      | Some dws \<Rightarrow> (case mark_line ibTag cbTag (dws, dwOverlaps s) of (dws, ov) \<Rightarrow> s\<lparr>rgdw := Some dws, dwOverlaps := ov\<rparr>)))"

definition check_tag :: "bool \<Rightarrow> ULONG \<Rightarrow> CPAGE \<Rightarrow> int \<Rightarrow> nat \<Rightarrow> check_state \<Rightarrow> page_fault + check_state" where
  "check_tag g_fRepair grbit p cbPrefixMax itag s =
     (let ibTag = Ib p itag; cbTag = Cb p itag; s = s\<lparr>cbTotal := cbTotal s + cbTag\<rparr> in
      if cbTag = 0 then (if itag < m_ctagReserved p then Inr s else Inl ZeroLengthIline)
      else if ibTag + cbTag > ibMicFree (pghdr p) then Inl TagInFreeSpace
      else if grbit \<noteq> 0 then check_line g_fRepair grbit p cbPrefixMax itag s
      else Inr s)"

fun check_tags :: "bool \<Rightarrow> ULONG \<Rightarrow> CPAGE \<Rightarrow> int \<Rightarrow> nat list \<Rightarrow> check_state \<Rightarrow> page_fault + check_state" where
  "check_tags g_fRepair grbit p cbPrefixMax [] s = Inr s"
| "check_tags g_fRepair grbit p cbPrefixMax (itag # itags) s =
     (case check_tag g_fRepair grbit p cbPrefixMax itag s of
        Inl f \<Rightarrow> Inl f
      | Inr s \<Rightarrow> check_tags g_fRepair grbit p cbPrefixMax itags s)"

section \<open>The page\<close>

definition ErrCheckPage :: "bool \<Rightarrow> bool \<Rightarrow> ULONG \<Rightarrow> CPAGE \<Rightarrow> page_fault option" where
  "ErrCheckPage g_fRepair fAlloc grbitExtensiveCheck p =
     (case check_header g_fRepair p of
        Some f \<Rightarrow> Some f
      | None \<Rightarrow>
          let cdw = (length (rgb p) + 31) div 32;
              s = \<lparr>cbTotal = 0, dwOverlaps = 0,
                   rgdw = (if grbitExtensiveCheck AND CheckTagsNonOverlapping \<noteq> 0 \<and> fAlloc then Some (replicate cdw 0) else None),
                   keyLast = \<lparr>prefix = [], suffix = []\<rparr>\<rparr>;
              cbPrefixMax = (if FSpaceTree p \<or> objidFDP (pghdr p) = 0 then 0 else int (Cb p 0))
          in case check_tags g_fRepair grbitExtensiveCheck p cbPrefixMax [0..<m_itagMicFree p] s of
               Inl f \<Rightarrow> Some f
             | Inr s \<Rightarrow>
                 if dwOverlaps s \<noteq> 0 then Some TagsOverlap
                 else if int (cbTotal s) + int (cbFree (pghdr p)) + int (CbTagArray p) \<noteq> CbBufferData p then Some SpaceSizeMismatch
                 else None)"

datatype CheckPageMode = OnErrorReturnError | OnErrorFireWall | OnErrorEnforce

text \<open>With \<open>OnErrorEnforce\<close> the process ends: the result None.\<close>

definition err_of_fault :: "CheckPageMode \<Rightarrow> page_fault option \<Rightarrow> JET_ERR option" where
  "err_of_fault mode f =
     (case f of None \<Rightarrow> Some JET_errSuccess
      | Some _ \<Rightarrow> if mode = OnErrorEnforce then None else Some JET_errDatabaseCorrupted)"

declare mark_line.simps [simp del]

end
