(* ===== verification/Node_Seek.thy ===== *)
theory Node_Seek
  imports Node_Codec
begin

text \<open>
  The searches on a page. The two binary searches run the same loop, \<open>bsearch\<close>, on the results
  of comparing the nodes with the bookmark. The locale \<open>probe_order\<close> states what the loop needs
  of a comparison: once a node is not below the bookmark, all later nodes are above it. In the
  locale the loop is shown to find the first node that is not below the bookmark. It is
  interpreted for the comparison of bookmarks on leaf pages and for that of keys on internal ones.
\<close>

section \<open>The loop\<close>

function bsearch :: "(nat \<Rightarrow> int) \<Rightarrow> int \<Rightarrow> int \<Rightarrow> int \<Rightarrow> int \<Rightarrow> bool \<times> int \<times> int" where
  "bsearch cmp lo hi mid compare =
     (if lo \<le> hi then
        let mid = (lo + hi) div 2; compare = cmp (nat mid) in
        if compare < 0 then bsearch cmp (mid + 1) hi mid compare
        else if 0 = compare then (True, mid, compare)
        else if mid = lo then (True, mid, compare)
        else bsearch cmp lo mid mid compare
      else (False, mid, compare))"
  by pat_completeness auto
termination
  by (relation "measure (\<lambda>(cmp, lo, hi, mid, compare). nat (hi + 1 - lo))") auto

declare bsearch.simps [simp del]

text \<open>With a window that is not empty the values handed in do not matter.\<close>

lemma bsearch_start: "lo \<le> hi \<Longrightarrow> bsearch cmp lo hi mid compare = bsearch cmp lo hi mid' compare'"
  by (simp add: bsearch.simps [of cmp lo hi])

lemma mid_bounds:
  fixes lo hi :: int
  assumes "lo \<le> hi"
  shows "lo \<le> (lo + hi) div 2" "(lo + hi) div 2 \<le> hi"
  using assms by linarith+

lemma bsearch_range:
  assumes "0 \<le> lo" and "lo \<le> hi" and "bsearch cmp lo hi mid compare = (found, m, c)"
  shows "lo \<le> m \<and> m \<le> hi \<and> c = cmp (nat m)"
  using assms
proof (induction cmp lo hi mid compare rule: bsearch.induct)
  case (1 cmp lo hi mid compare)
  let ?m = "(lo + hi) div 2"
  note b = mid_bounds [OF "1.prems"(2)]
  from "1.prems"(3) consider
    (less) "cmp (nat ?m) < 0" "bsearch cmp (?m + 1) hi ?m (cmp (nat ?m)) = (found, m, c)"
  | (here) "m = ?m" "c = cmp (nat ?m)"
  | (greater) "cmp (nat ?m) > 0" "?m \<noteq> lo" "bsearch cmp lo ?m ?m (cmp (nat ?m)) = (found, m, c)"
    using "1.prems"(2) by (subst (asm) bsearch.simps) (auto simp: Let_def split: if_splits)
  then show ?case
  proof cases
    case less
    show ?thesis
    proof (cases "?m + 1 \<le> hi")
      case True
      then show ?thesis using "1.IH"(1) [OF _ refl refl] less "1.prems" b by fastforce
    next
      case False
      then have "m = ?m" "c = cmp (nat ?m)" using less(2) by (auto simp: bsearch.simps [of cmp "?m + 1"])
      then show ?thesis using b by simp
    qed
  next
    case here then show ?thesis using b by simp
  next
    case greater
    then show ?thesis using "1.IH"(2) [OF _ refl refl] "1.prems" b by fastforce
  qed
qed

text \<open>The loop finds the first index with a comparison that is not negative; it never looks at the end of a larger window.\<close>

lemma bsearch_first:
  assumes below: "\<forall>i<k. f i < 0" and hit: "0 \<le> f k" and above: "\<forall>i. k < i \<and> int i < H \<longrightarrow> 0 < f i"
    and "0 \<le> lo" and "lo \<le> int k" and "int k \<le> hi" and "hi \<le> H"
  shows "bsearch f lo hi mid compare = (True, int k, f k)"
  using assms
proof (induction f lo hi mid compare rule: bsearch.induct)
  case (1 f lo hi mid compare)
  let ?m = "(lo + hi) div 2"
  have fl: "lo \<le> hi" using "1.prems" by simp
  note b = mid_bounds [OF fl]
  consider "nat ?m < k" | "?m = int k" | "k < nat ?m" using b "1.prems"(4) by linarith
  then show ?case
  proof cases
    case 1
    then have "f (nat ?m) < 0" using "1.prems"(1) by simp
    then show ?thesis
      using "1.IH"(1) [OF fl refl refl] 1 "1.prems" b by (subst bsearch.simps) (simp add: Let_def)
  next
    case m: 2
    show ?thesis
    proof (cases "f k = 0 \<or> ?m = lo")
      case True
      then show ?thesis using fl "1.prems"(2) by (subst bsearch.simps) (auto simp: Let_def m)
    next
      case False
      then have "bsearch f lo ?m ?m (f (nat ?m)) = (True, int k, f k)"
        using "1.IH"(2) [OF fl refl refl] m "1.prems" b by auto
      then show ?thesis using False fl "1.prems"(2) by (subst bsearch.simps) (auto simp: Let_def m)
    qed
  next
    case 3
    have "?m < hi" "?m \<noteq> lo" "int k \<le> ?m" using 3 "1.prems" by linarith+
    moreover from this have "0 < f (nat ?m)" using "1.prems"(3,7) 3 by simp
    ultimately show ?thesis
      using "1.IH"(2) [OF fl refl refl] "1.prems" b by (subst bsearch.simps) (simp add: Let_def)
  qed
qed

lemma bsearch_none:
  assumes "\<forall>i. int i \<le> hi \<longrightarrow> f i < 0" and "0 \<le> lo" and "lo \<le> hi"
  shows "bsearch f lo hi mid compare = (False, hi, f (nat hi))"
  using assms
proof (induction f lo hi mid compare rule: bsearch.induct)
  case (1 f lo hi mid compare)
  let ?m = "(lo + hi) div 2"
  note b = mid_bounds [OF "1.prems"(3)]
  have neg: "f (nat ?m) < 0" using "1.prems" b by simp
  show ?case
  proof (cases "?m + 1 \<le> hi")
    case True
    then show ?thesis
      using "1.IH"(1) [OF "1.prems"(3) refl refl] neg "1.prems" b by (subst bsearch.simps) (simp add: Let_def)
  next
    case False
    then have "?m = hi" using b by simp
    then show ?thesis using neg "1.prems" by (subst bsearch.simps, subst bsearch.simps) (simp add: Let_def)
  qed
qed

locale probe_order =
  fixes lt :: "'n \<Rightarrow> 'n \<Rightarrow> bool" and cmp :: "'n \<Rightarrow> 'q \<Rightarrow> int"
  assumes above: "lt a b \<Longrightarrow> 0 \<le> cmp a q \<Longrightarrow> 0 < cmp b q"
begin

lemma above_later: "sorted_wrt lt ns \<Longrightarrow> i < j \<Longrightarrow> j < length ns \<Longrightarrow> 0 \<le> cmp (ns ! i) q \<Longrightarrow> 0 < cmp (ns ! j) q"
  by (rule above [of "ns ! i"]) (simp_all add: sorted_wrt_iff_nth_less)

text \<open>In a sorted list the nodes below the bookmark come first; \<open>k\<close> is their number.\<close>

lemma split_point:
  assumes "sorted_wrt lt ns"
  obtains k where "k \<le> length ns" and "\<forall>i<k. cmp (ns ! i) q < 0" and "k < length ns \<Longrightarrow> 0 \<le> cmp (ns ! k) q"
    and "\<forall>i. k < i \<and> i < length ns \<longrightarrow> 0 < cmp (ns ! i) q"
proof -
  let ?k = "length (takeWhile (\<lambda>n. cmp n q < 0) ns)"
  have le: "?k \<le> length ns" by (rule length_takeWhile_le)
  have lt: "\<forall>i<?k. cmp (ns ! i) q < 0" by (metis nth_mem set_takeWhileD takeWhile_nth)
  have hit: "?k < length ns \<Longrightarrow> 0 \<le> cmp (ns ! ?k) q" using nth_length_takeWhile [of "\<lambda>n. cmp n q < 0" ns] by simp
  have "\<forall>i. ?k < i \<and> i < length ns \<longrightarrow> 0 < cmp (ns ! i) q"
    using above_later [OF assms] hit by (meson less_trans)
  with le lt hit show ?thesis by (intro that)
qed

lemma bsearch_sorted:
  assumes "sorted_wrt lt ns" and "k < length ns" and "\<forall>i<k. cmp (ns ! i) q < 0" and "0 \<le> cmp (ns ! k) q"
  shows "bsearch (\<lambda>i. cmp (ns ! i) q) 0 (int (length ns) - 1) mid compare = (True, int k, cmp (ns ! k) q)"
  using assms above_later [OF assms(1) _ _ assms(4)]
  by (intro bsearch_first [where H = "int (length ns)"]) auto

lemma bsearch_all_below:
  assumes "ns \<noteq> []" and "\<forall>i<length ns. cmp (ns ! i) q < 0"
  shows "bsearch (\<lambda>i. cmp (ns ! i) q) 0 (int (length ns) - 1) mid compare
    = (False, int (length ns) - 1, cmp (ns ! nat (int (length ns) - 1)) q)"
  using assms by (intro bsearch_none) auto

end

interpretation leaf: probe_order bm_less CmpKeyData
proof unfold_locales
  fix a b q :: "DATA BOOKMARK"
  assume "bm_less a b" "0 \<le> CmpKeyData a q"
  then have "\<not> bm_less a q" using CmpKeyData_less [of a q] by simp
  with \<open>bm_less a b\<close> have "bm_less q b"
    by (auto simp: bm_less_def not_less)
  then show "0 < CmpKeyData b q" by (simp add: CmpKeyData_greater)
qed

definition key_less :: "DATA KEY \<Rightarrow> DATA KEY \<Rightarrow> bool" where
  "key_less k1 k2 \<longleftrightarrow> key_bytes k1 < key_bytes k2"

interpretation inner: probe_order key_less CmpKeyWithKeyData
proof unfold_locales
  fix a b :: "DATA KEY" and q :: "DATA BOOKMARK"
  assume "key_less a b" "0 \<le> CmpKeyWithKeyData a q"
  then show "0 < CmpKeyWithKeyData b q"
    using CmpKeyWithKeyData_total [of a q] CmpKeyWithKeyData_total [of b q] by (auto simp: cmp_total_def key_less_def)
qed

section \<open>Leaf pages\<close>

definition bookmarks :: "CPAGE \<Rightarrow> bool \<Rightarrow> DATA BOOKMARK list" where
  "bookmarks p fUnique = map (\<lambda>kdf. NDGetBookmarkFromKDF kdf fUnique) (nodes p)"

lemma Clines_records: "page_inv p \<Longrightarrow> Clines p = int (length (records p))"
  using inv_facts(2) [of p] by (simp add: Clines_def length_records of_nat_diff)

lemma length_bookmarks [simp]: "length (bookmarks p fUnique) = length (records p)"
  by (simp add: bookmarks_def)

lemma read_bookmark:
  assumes "node_page p" and "i < length (records p)"
  shows "NDIGetBookmark p i fUnique = Some (bookmarks p fUnique ! i)"
  using read_node [OF assms] assms(2) by (auto simp: NDIGetBookmark_def bookmarks_def)

lemma seek_GEQ_bsearch:
  assumes "node_page p" and "0 \<le> lo" and "hi < int (length (records p))"
    and "lo \<le> hi \<or> bmNode = bookmarks p fUnique ! nat mid"
  shows "seek_GEQ p bm fUnique lo hi compare bmNode =
    (case bsearch (\<lambda>i. CmpKeyData (bookmarks p fUnique ! i) bm) lo hi mid compare of
       (found, m, c) \<Rightarrow> Some (if found then m else - 1, c, bookmarks p fUnique ! nat m))"
  using assms
proof (induction p bm fUnique lo hi compare bmNode arbitrary: mid rule: seek_GEQ.induct)
  case (1 p bm fUnique lo hi compare bmNode)
  let ?m = "(lo + hi) div 2"
  show ?case
  proof (cases "lo \<le> hi")
    case False
    then show ?thesis using "1.prems" by (simp add: seek_GEQ.simps bsearch.simps)
  next
    case le: True
    note b = mid_bounds [OF le]
    have i: "nat ?m < length (records p)" using "1.prems"(2,3) b by linarith
    obtain kdf where kdf: "NDIGetKeydataflags pgnbcNoChecks p (nat ?m) = Some (kdf, JET_errSuccess)" "fetch p kdf = nodes p ! nat ?m"
      "0 < sint (cb (data kdf))" using read_node [OF "1.prems"(1) i] by blast
    have node: "NDGetBookmarkFromKDF (fetch p kdf) fUnique = bookmarks p fUnique ! nat ?m"
      using i by (simp add: kdf(2) bookmarks_def)
    have "\<not> \<not> (0 < sint (cb (data kdf)) \<or> \<not> g_fNodeMiscMemoryTrashedDefenseInDepthTemp)" using kdf(3) by simp
    note IH = "1.IH" [OF le refl kdf(1) refl refl this refl, where mid = ?m]
    show ?thesis
      using IH(1) IH(2) kdf(1,3) node "1.prems" b le
      by (subst seek_GEQ.simps, subst bsearch.simps) (auto simp: Let_def)
  qed
qed

lemma seek_linear_eq:
  assumes np: "node_page p" and "i \<le> k" and "k < length (records p)"
    and below: "\<forall>j<k. CmpKeyData (bookmarks p fUnique ! j) bm < 0" and hit: "0 \<le> CmpKeyData (bookmarks p fUnique ! k) bm"
  shows "seek_linear p bm fUnique i =
    Some (int k, if bm_data bm = [] then CmpKey (bm_key (bookmarks p fUnique ! k)) (bm_key bm) else CmpKeyData (bookmarks p fUnique ! k) bm)"
  using assms(2)
proof (induction "k - i" arbitrary: i)
  case 0
  then have ik: "i = k" by simp
  have "int k < Clines p" using np assms(3) Clines_records by (simp add: node_page_def)
  then show ?case
    using read_bookmark [OF np assms(3), of fUnique] hit ik
    by (subst seek_linear.simps) (auto simp: Let_def CmpKeyData_def split: if_splits)
next
  case (Suc n)
  then have ik: "i < k" by simp
  then have i: "i < length (records p)" using assms(3) by simp
  then have "int i < Clines p" using np Clines_records by (simp add: node_page_def)
  moreover have "CmpKeyData (bookmarks p fUnique ! i) bm < 0" using below ik by simp
  moreover have "CmpData b [] \<ge> 0" for b using CmpData_total [of b "[]"] by (cases b) (auto simp: cmp_total_def)
  moreover have "seek_linear p bm fUnique (i + 1) =
    Some (int k, if bm_data bm = [] then CmpKey (bm_key (bookmarks p fUnique ! k)) (bm_key bm) else CmpKeyData (bookmarks p fUnique ! k) bm)"
    using Suc.hyps(1) [of "i + 1"] Suc.hyps(2) ik by simp
  ultimately show ?case
    using read_bookmark [OF np i, of fUnique]
    by (subst seek_linear.simps) (auto simp: Let_def CmpKeyData_def not_less [symmetric] split: if_splits)
qed

lemma seek_linear_none:
  assumes np: "node_page p" and below: "\<forall>j<length (records p). CmpKeyData (bookmarks p fUnique ! j) bm < 0"
  shows "i \<le> length (records p) \<Longrightarrow> seek_linear p bm fUnique i = Some (- 1, 0)"
proof (induction "length (records p) - i" arbitrary: i)
  case 0
  then have "\<not> int i < Clines p" using np Clines_records by (simp add: node_page_def)
  then show ?case by (subst seek_linear.simps) simp
next
  case (Suc n)
  then have i: "i < length (records p)" by simp
  then have "int i < Clines p" using np Clines_records by (simp add: node_page_def)
  moreover have "CmpKeyData (bookmarks p fUnique ! i) bm < 0" using below i by simp
  moreover have "CmpData b [] \<ge> 0" for b using CmpData_total [of b "[]"] by (cases b) (auto simp: cmp_total_def)
  moreover have "seek_linear p bm fUnique (i + 1) = Some (- 1, 0)" using Suc.hyps(1) [of "i + 1"] Suc.hyps(2) i by simp
  ultimately show ?case
    using read_bookmark [OF np i, of fUnique]
    by (subst seek_linear.simps) (auto simp: Let_def CmpKeyData_def not_less [symmetric] split: if_splits)
qed

theorem leaf_seek_ok:
  assumes np: "node_page p" and ne: "records p \<noteq> []" and sorted: "sorted_wrt bm_less (bookmarks p fUnique)"
  obtains (none) c where "\<forall>b\<in>set (bookmarks p fUnique). bm_less b bm"
      "IlineNDISeekGEQ p bm fUnique = Some (- 1, c)" "IlineNDISeekGEQDebug p bm fUnique = Some (- 1, 0)"
  | (found) k c where "k < length (records p)" "\<forall>j<k. bm_less (bookmarks p fUnique ! j) bm" "\<not> bm_less (bookmarks p fUnique ! k) bm"
      "IlineNDISeekGEQ p bm fUnique = Some (int k, c)" "IlineNDISeekGEQDebug p bm fUnique = Some (int k, c)"
      "c = (if bm_data bm = [] then CmpKey (bm_key (bookmarks p fUnique ! k)) (bm_key bm) else CmpKeyData (bookmarks p fUnique ! k) bm)"
proof -
  let ?bs = "bookmarks p fUnique"
  have cl: "Clines p - 1 = int (length ?bs) - 1" using np Clines_records by (simp add: node_page_def)
  have run: "seek_GEQ p bm fUnique 0 (Clines p - 1) 0 null_bm =
      (case bsearch (\<lambda>i. CmpKeyData (?bs ! i) bm) 0 (int (length ?bs) - 1) 0 0 of
         (found, m, c) \<Rightarrow> Some (if found then m else - 1, c, ?bs ! nat m))"
    unfolding cl using seek_GEQ_bsearch [OF np, of 0 "int (length ?bs) - 1"] ne by (simp add: Suc_leI)
  obtain k where k: "k \<le> length ?bs" "\<forall>i<k. CmpKeyData (?bs ! i) bm < 0" "k < length ?bs \<Longrightarrow> 0 \<le> CmpKeyData (?bs ! k) bm"
    using leaf.split_point [OF sorted, of bm] by metis
  show ?thesis
  proof (cases "k < length ?bs")
    case True
    let ?c = "if bm_data bm = [] then CmpKey (bm_key (?bs ! k)) (bm_key bm) else CmpKeyData (?bs ! k) bm"
    have "IlineNDISeekGEQ p bm fUnique = Some (int k, ?c)"
      using leaf.bsearch_sorted [OF sorted True k(2) k(3) [OF True], of 0 0]
      by (simp add: IlineNDISeekGEQ_def run CmpKeyData_def Let_def)
    moreover have "IlineNDISeekGEQDebug p bm fUnique = Some (int k, ?c)"
      using seek_linear_eq [OF np _ _ k(2) k(3) [OF True], of 0] True by (simp add: IlineNDISeekGEQDebug_def)
    ultimately show ?thesis
      using found [OF _ _ _ _ _ refl, of k] True k by (auto simp: CmpKeyData_less [symmetric])
  next
    case False
    then have all: "\<forall>i<length ?bs. CmpKeyData (?bs ! i) bm < 0" using k by simp
    have "?bs \<noteq> []" using ne by (metis length_bookmarks length_0_conv)
    then obtain c where "IlineNDISeekGEQ p bm fUnique = Some (- 1, c)"
      using leaf.bsearch_all_below [OF _ all, of 0 0] by (auto simp: IlineNDISeekGEQ_def run)
    moreover have "IlineNDISeekGEQDebug p bm fUnique = Some (- 1, 0)"
      using seek_linear_none [OF np, of fUnique bm 0] all by (simp add: IlineNDISeekGEQDebug_def)
    moreover have "\<forall>b\<in>set ?bs. bm_less b bm" using all by (auto simp: CmpKeyData_less in_set_conv_nth)
    ultimately show ?thesis using none by blast
  qed
qed

section \<open>Internal pages\<close>

definition keys :: "CPAGE \<Rightarrow> DATA KEY list" where
  "keys p = map key (nodes p)"

lemma length_keys [simp]: "length (keys p) = length (records p)"
  by (simp add: keys_def)

text \<open>
  The internal search takes the prefix of a key from line 0 as it is, for every kind of page: an
  internal root page that is not part of a space tree has nodes without prefix only.
\<close>

definition plain_prefixes :: "CPAGE \<Rightarrow> bool" where
  "plain_prefixes p \<longleftrightarrow> \<not> FRootPage p \<or> list_all (\<lambda>l. cb_prefix l = 0) (records p)"

lemma read_internal:
  assumes np: "node_page p" and "plain_prefixes p" and i: "i < length (records p)" and cb: "CbBuffer p \<le> g_cbPageMax"
  shows "\<exists>kdf line. fst (GetPtr pgnbcNoChecks p (i + m_ctagReserved p)) = line
    \<and> NDILineToKeydataflags pgnbcNoChecks p line (pvLine (fst (GetPtr pgnbcNoChecks p 0))) = Some (kdf, JET_errSuccess)
    \<and> key (fetch p kdf) = keys p ! i
    \<and> unat (cb (prefix (key kdf))) \<le> cbLine (fst (GetPtr pgnbcNoChecks p 0)) \<and> unat (cb (suffix (key kdf))) < cbLine line
    \<and> CbPageHeader p + the (pvLine line) + cbLine line < g_cbPageMax"
proof -
  let ?k = "i + m_ctagReserved p" and ?pv = "pvLine (fst (GetPtr pgnbcNoChecks p 0))"
  have inv: "page_inv p" using np by (simp add: node_page_def)
  note lim = inv_facts [OF inv]
  have k: "?k < m_itagMicFree p" using i length_records [OF inv] by simp
  have rec: "records p ! i = line p ?k" by (rule nth_records [OF inv i])
  have ok: "node_ok (prefix_bytes p) (line p ?k)" using np i by (simp add: node_page_def list_all_length rec [symmetric])
  then have d: "data_offset (line p ?k) < length (fst (line p ?k))" by (simp add: node_ok_def)
  have len: "length (fst (line p ?k)) = Cb p ?k" using record_size [OF inv k] by (simp add: line_size_def)
  then have nz: "Cb p ?k \<noteq> 0" using d by auto
  have 0: "0 < m_itagMicFree p" using k by simp
  have len0: "length (line_bytes p 0) = Cb p 0" using record_size [OF inv 0] by (simp add: line_size_def line_def)
  have c: "cb_prefix (line p ?k) \<le> Cb p 0" "take (cb_prefix (line p ?k)) (prefix_bytes p) = take (cb_prefix (line p ?k)) (line_bytes p 0)"
    using assms(2) ok len0 i rec by (auto simp: plain_prefixes_def node_ok_def prefix_bytes_def list_all_length)
  have g: "fst (GetPtr pgnbcNoChecks p ?k) = \<lparr>pvLine = Some (Ib p ?k), cbLine = Cb p ?k, fLineFlags = snd (line p ?k)\<rparr>"
    using nz by (simp add: GetPtr_unchecked [OF inv k])
  have g0: "fst (GetPtr pgnbcNoChecks p 0) = \<lparr>pvLine = (if Cb p 0 = 0 then None else Some (Ib p 0)), cbLine = Cb p 0, fLineFlags = snd (line p 0)\<rparr>"
    by (simp add: GetPtr_unchecked [OF inv 0])
  have "fetch_PTR p \<lparr>pv = ?pv, cb = word_of_nat (cb_prefix (line p ?k))\<rparr> = take (cb_prefix (line p ?k)) (line_bytes p 0)"
    using c(1) cb_fields_less(1) [of "line p ?k"] by (auto simp: g0 fetch_PTR_def line_bytes_def subbuf_def min_def)
  then have "key (fetch p (line_kdf p ?k ?pv)) = keys p ! i"
    using fetch_line(1) [OF inv k d, of ?pv "prefix_bytes p"] c(2) i
    by (simp add: fetch_def keys_def nodes_def rec node_of_def) (simp add: line_kdf_def Let_def)
  moreover have "unat (cb (prefix (key (line_kdf p ?k ?pv)))) \<le> Cb p 0" "unat (cb (suffix (key (line_kdf p ?k ?pv)))) < Cb p ?k"
    using c(1) cb_fields_less [of "line p ?k"] d len by (simp_all add: line_kdf_def Let_def data_offset_def)
  moreover have "CbPageHeader p + Ib p ?k + Cb p ?k < g_cbPageMax"
    using lim(5) lim(6) [OF k nz] 0 cb by (simp add: CbBuffer_def)
  ultimately show ?thesis using NDILine_ok [OF inv k d, of pgnbcNoChecks ?pv] by (simp add: g g0)
qed

definition internal_page :: "CPAGE \<Rightarrow> bool" where
  "internal_page p \<longleftrightarrow> node_page p \<and> plain_prefixes p \<and> CbBuffer p \<le> g_cbPageMax \<and> records p \<noteq> []"

lemma seek_internal_bsearch:
  assumes "internal_page p" and "l = fst (GetPtr pgnbcNoChecks p 0)" and "0 \<le> lo" and "hi < int (length (records p))"
  shows "seek_GEQ_internal p bm l lo hi mid compare =
    (case bsearch (\<lambda>i. CmpKeyWithKeyData (keys p ! i) bm) lo hi mid compare of (_, m, c) \<Rightarrow> Some (m, c))"
  using assms
proof (induction p bm l lo hi mid compare rule: seek_GEQ_internal.induct)
  case (1 p bm l lo hi mid compare)
  let ?m = "(lo + hi) div 2"
  show ?case
  proof (cases "lo \<le> hi")
    case False
    then show ?thesis by (simp add: seek_GEQ_internal.simps bsearch.simps)
  next
    case le: True
    note b = mid_bounds [OF le]
    have i: "nat ?m < length (records p)" using "1.prems"(3,4) b by linarith
    let ?line = "fst (GetPtr pgnbcNoChecks p (nat ?m + m_ctagReserved p))"
    obtain kdf where kdf: "NDILineToKeydataflags pgnbcNoChecks p ?line (pvLine l) = Some (kdf, JET_errSuccess)"
      "key (fetch p kdf) = keys p ! nat ?m"
      "\<not> \<not> (unat (cb (prefix (key kdf))) \<le> cbLine l \<and> unat (cb (suffix (key kdf))) < cbLine ?line
         \<and> CbPageHeader p + the (pvLine ?line) + cbLine ?line < g_cbPageMax)"
      using read_internal [OF _ _ i] "1.prems"(1,2) by (auto simp: internal_page_def)
    note IH = "1.IH" [OF le refl refl kdf(1) refl kdf(3) refl]
    show ?thesis
      using IH(1) IH(2) kdf "1.prems" b le by (subst seek_GEQ_internal.simps, subst bsearch.simps) (auto simp: Let_def)
  qed
qed

lemma seek_linear_internal_eq:
  assumes ip: "internal_page p" and k: "k < length (records p)" and below: "\<forall>j<k. CmpKeyWithKeyData (keys p ! j) bm < 0"
    and hit: "k + 1 < length (records p) \<Longrightarrow> 0 \<le> CmpKeyWithKeyData (keys p ! k) bm"
  shows "i \<le> k \<Longrightarrow> seek_linear_internal p bm i =
    Some (int k, if k + 1 < length (records p) then CmpKeyWithKeyData (keys p ! k) bm else 1)"
proof (induction "k - i" arbitrary: i)
  have np: "node_page p" and cl: "Clines p = int (length (records p))" using ip Clines_records by (auto simp: internal_page_def node_page_def)
  have read: "\<exists>kdf. NDIGetKeydataflags pgnbcNoChecks p j = Some (kdf, JET_errSuccess) \<and> key (fetch p kdf) = keys p ! j"
    if "j < length (records p)" for j using read_node [OF np that] that by (auto simp: keys_def)
  {
    case 0
    then have ik: "i = k" by simp
    then show ?case using read [OF k] hit cl k by (subst seek_linear_internal.simps) (auto simp: Let_def)
  next
    case (Suc n)
    then have ik: "i < k" by simp
    then have "int i < Clines p - 1" "CmpKeyWithKeyData (keys p ! i) bm < 0" using cl k below by simp_all
    moreover have "seek_linear_internal p bm (i + 1) =
        Some (int k, if k + 1 < length (records p) then CmpKeyWithKeyData (keys p ! k) bm else 1)"
      using Suc.hyps(1) [of "i + 1"] Suc.hyps(2) ik by simp
    ultimately show ?case using read [of i] ik k by (subst seek_linear_internal.simps) (auto simp: Let_def)
  }
qed

theorem internal_seek_ok:
  assumes ip: "internal_page p" and sorted: "sorted_wrt key_less (butlast (keys p))"
    and top: "FNull_key (last (keys p)) \<or> bm_bytes bm < key_bytes (last (keys p))" and bm: "\<not> FNull_key (bm_key bm)"
  obtains k c where "k < length (records p)" "\<forall>j<k. key_bytes (keys p ! j) < bm_bytes bm"
    "k + 1 < length (records p) \<Longrightarrow> bm_bytes bm \<le> key_bytes (keys p ! k)"
    "IlineNDISeekGEQInternal p bm = Some (int k, if key_bytes (keys p ! k) = bm_bytes bm then 0 else 1)"
    "IlineNDISeekGEQInternalDebug p bm = Some (int k, c)"
    "sgn c = (if key_bytes (keys p ! k) = bm_bytes bm then 0 else 1)"
proof -
  let ?ks = "keys p" and ?n = "length (records p)"
  let ?f = "\<lambda>i. CmpKeyWithKeyData (keys p ! i) bm"
  have np: "node_page p" and ne: "?n > 0" and inv: "page_inv p" using ip by (auto simp: internal_page_def node_page_def)
  have ne': "?ks \<noteq> []" using ne by (metis length_keys length_greater_0_conv)
  have total: "cmp_total (?f i) (key_bytes (?ks ! i)) (bm_bytes bm)" for i by (rule CmpKeyWithKeyData_total)
  have "bm_bytes bm \<noteq> []" using bm by (auto simp: bm_bytes_def key_bytes_def FNull_key_def)
  then have top': "?f (?n - 1) \<noteq> 0" "0 < ?f (?n - 1) \<or> FNull_key (?ks ! (?n - 1))"
    using top total [of "?n - 1"] last_conv_nth [OF ne'] by (auto simp: cmp_total_def FNull_key_def key_bytes_def)
  have 0: "0 < m_itagMicFree p" using inv_facts(1,2) [OF inv] by linarith
  have "cbLine (fst (GetPtr pgnbcNoChecks p 0)) = Cb p 0" by (simp add: GetPtr_unchecked [OF inv 0])
  moreover have "Cb p 0 < g_cbPageMax"
    using inv_facts(5) [OF inv] inv_facts(6) [OF inv 0] 0 ip by (cases "Cb p 0 = 0") (auto simp: internal_page_def CbBuffer_def g_cbPageMax_def)
  moreover have "Clines p = int ?n" using Clines_records [OF inv] .
  ultimately have run: "IlineNDISeekGEQInternal p bm =
      (case bsearch ?f 0 (int ?n - 1) 0 0 of (_, m, c) \<Rightarrow> Some (m, if 0 = c then 0 else 1))"
    using seek_internal_bsearch [OF ip refl, of 0 "int ?n - 1"] bm by (simp add: IlineNDISeekGEQInternal_def split: prod.splits)
  obtain k where k: "k \<le> length (butlast ?ks)" "\<forall>i<k. CmpKeyWithKeyData (butlast ?ks ! i) bm < 0"
    "k < length (butlast ?ks) \<Longrightarrow> 0 \<le> CmpKeyWithKeyData (butlast ?ks ! k) bm"
    "\<forall>i. k < i \<and> i < length (butlast ?ks) \<longrightarrow> 0 < CmpKeyWithKeyData (butlast ?ks ! i) bm"
    using inner.split_point [OF sorted, of bm] by metis
  moreover have "k < ?n" using k(1) ne unfolding length_butlast length_keys by linarith
  ultimately have kn: "k < ?n" "\<forall>i<k. ?f i < 0" "k + 1 < ?n \<Longrightarrow> 0 \<le> ?f k" "\<forall>i. k < i \<and> i < ?n - 1 \<longrightarrow> 0 < ?f i"
    using ne by (auto simp: nth_butlast)
  have "\<exists>b c. bsearch ?f 0 (int ?n - 1) 0 0 = (b, int k, ?f k)"
  proof (cases "0 \<le> ?f k")
    case True
    have "\<forall>i. k < i \<and> int i < int ?n - 1 \<longrightarrow> 0 < ?f i"
    proof (intro allI impI)
      fix i assume "k < i \<and> int i < int ?n - 1"
      then have "k < i \<and> i < ?n - 1" by linarith
      with kn(4) show "0 < ?f i" by blast
    qed
    then show ?thesis using True kn bsearch_first [of k ?f "int ?n - 1" 0 "int ?n - 1" 0 0] by auto
  next
    case False
    then have "k = ?n - 1" using kn(1,3) by linarith
    then have E: "int ?n - 1 = int k" using ne by linarith
    have "\<forall>i. int i \<le> int k \<longrightarrow> ?f i < 0"
    proof (intro allI impI)
      fix i assume "int i \<le> int k"
      then have "i < k \<or> i = k" by linarith
      with False kn(2) show "?f i < 0" by (metis not_le)
    qed
    then show ?thesis unfolding E using bsearch_none [of "int k" ?f 0 0 0] by auto
  qed
  then have res: "IlineNDISeekGEQInternal p bm = Some (int k, if ?f k = 0 then 0 else 1)" by (auto simp: run)
  have lin: "IlineNDISeekGEQInternalDebug p bm = Some (int k, if k + 1 < ?n then ?f k else 1)"
    using seek_linear_internal_eq [OF ip kn(1,2,3), of 0] by (simp add: IlineNDISeekGEQInternalDebug_def)
  have lt: "?f i < 0 \<longleftrightarrow> key_bytes (?ks ! i) < bm_bytes bm" and eq: "?f i = 0 \<longleftrightarrow> key_bytes (?ks ! i) = bm_bytes bm" for i
    using total [of i] by (simp_all add: cmp_total_def)
  show ?thesis
  proof (cases "k + 1 < ?n")
    case True
    then have "0 \<le> ?f k" by (rule kn(3))
    then have "sgn (?f k) = (if key_bytes (?ks ! k) = bm_bytes bm then 0 else 1)" by (auto simp: sgn_if eq [symmetric])
    then show ?thesis
      using that [of k "?f k"] kn(1,2) res lin True \<open>0 \<le> ?f k\<close> by (simp add: eq lt not_less [symmetric])
  next
    case False
    then have "k = ?n - 1" using kn(1) by linarith
    then have "key_bytes (?ks ! k) \<noteq> bm_bytes bm" using top'(1) eq by simp
    then show ?thesis using that [of k 1] kn(1,2) res lin False by (simp add: eq lt)
  qed
qed

end
