(* ===== verification/Node_Properties.thy ===== *)
theory Node_Properties
  imports Node_Seek Cpage_Properties
begin

unbundle bit_operations_syntax

text \<open>
  The properties of keys and nodes, each with an instance at a concrete page. The example page
  has the two nodes with keys 5 and 5 6, without prefix.
\<close>

section \<open>Example page\<close>

definition two_nodes :: CPAGE where
  "two_nodes = the (run_ops page_step [OpInsert 0 ([[1, 0], [5], [9]], 0), OpInsert 1 ([[2, 0], [5, 6], [8]], 0)] page64)"

lemma two_nodes_facts: "page_inv two_nodes" "records two_nodes = [([1, 0, 5, 9], 0), ([2, 0, 5, 6, 8], 0)]" "m_fSmallFormat two_nodes"
proof -
  obtain q where q: "run_ops page_step [OpInsert 0 ([[1, 0], [5], [9]], 0), OpInsert 1 ([[2, 0], [5, 6], [8]], 0)] page64 = Some q"
    "page_inv q" "records q = [([1, 0, 5, 9], 0), ([2, 0, 5, 6, 8], 0)]" "m_fSmallFormat q"
    using cpage.run_refines [OF page64_facts(1), of "[OpInsert 0 ([[1, 0], [5], [9]], 0), OpInsert 1 ([[2, 0], [5, 6], [8]], 0)]"]
    unfolding cpage.view_def page_step_def
    by (auto simp: page64_facts record_of_def new_line_def stamp_def data_size_def line_size_def)
  then show "page_inv two_nodes" "records two_nodes = [([1, 0, 5, 9], 0), ([2, 0, 5, 6, 8], 0)]" "m_fSmallFormat two_nodes" by (simp_all add: two_nodes_def)
qed

lemma node_of_simps:
  "node_of hdr ([1, 0, 5, 9], 0) = \<lparr>key = \<lparr>prefix = [], suffix = [5]\<rparr>, data = [9], fFlags = 0\<rparr>"
  "node_of hdr ([2, 0, 5, 6, 8], 0) = \<lparr>key = \<lparr>prefix = [], suffix = [5, 6]\<rparr>, data = [8], fFlags = 0\<rparr>"
  "node_ok hdr ([1, 0, 5, 9], 0)" "node_ok hdr ([2, 0, 5, 6, 8], 0)"
  by (simp_all add: node_of_def node_ok_def cb_prefix_def cb_suffix_def data_offset_def key_offset_def key_len_def compressed_def
      cbKeyCount_def usNDCbKeyMask_def subbuf_def load_le_def)

lemma two_nodes_nodes: "node_page two_nodes"
  "nodes two_nodes = [\<lparr>key = \<lparr>prefix = [], suffix = [5]\<rparr>, data = [9], fFlags = 0\<rparr>, \<lparr>key = \<lparr>prefix = [], suffix = [5, 6]\<rparr>, data = [8], fFlags = 0\<rparr>]"
  by (simp_all add: node_page_def nodes_def two_nodes_facts node_of_simps)

section \<open>Order of keys\<close>

text \<open>
  C22. Keys are compared as whole byte strings: whatever part of two keys is kept as the common
  prefix of their pages, the sign of \<open>CmpKey\<close> is the lexicographic order of the bytes, and the
  sign of \<open>CmpKeyWithKeyData\<close> is the order of the key and the bytes of the bookmark's key
  followed by its data.
\<close>
theorem key_order:
  "cmp_total (CmpKey k1 k2) (prefix k1 @ suffix k1) (prefix k2 @ suffix k2)
    \<and> cmp_total (CmpKeyWithKeyData k1 bm) (prefix k1 @ suffix k1) (prefix (bm_key bm) @ suffix (bm_key bm) @ bm_data bm)"
  using CmpKey_total [of k1 k2] CmpKeyWithKeyData_total [of k1 bm] by (simp add: key_bytes_def bm_bytes_def)

section \<open>Searching\<close>

text \<open>
  C23. The binary search of a leaf page whose nodes are in the order of their bookmarks finds the
  first node that is not below the bookmark sought, or reports -1 when all nodes are below it. The
  linear search of the debug build finds the same line, and the last comparisons of the two
  have the same sign.
\<close>
theorem leaf_seek:
  assumes "node_page p" and "records p \<noteq> []" and "sorted_wrt bm_less (bookmarks p fUnique)"
  shows "\<exists>iline c c'. IlineNDISeekGEQ p bm fUnique = Some (iline, c) \<and> IlineNDISeekGEQDebug p bm fUnique = Some (iline, c')
    \<and> (if iline = - 1 then \<forall>b\<in>set (bookmarks p fUnique). bm_less b bm
       else 0 \<le> iline \<and> nat iline < length (bookmarks p fUnique) \<and> (\<forall>j<nat iline. bm_less (bookmarks p fUnique ! j) bm)
         \<and> \<not> bm_less (bookmarks p fUnique ! nat iline) bm \<and> sgn c = sgn c')"
proof (rule leaf_seek_ok [OF assms, of bm], goal_cases)
  case (1 c)
  then show ?case by auto
next
  case (2 k c)
  then show ?case by (auto intro!: exI [of _ "int k"])
qed

theorem leaf_seek_witness:
  "\<exists>c c'. IlineNDISeekGEQ two_nodes \<lparr>bm_key = \<lparr>prefix = [5], suffix = [1]\<rparr>, bm_data = []\<rparr> True = Some (1, c)
    \<and> IlineNDISeekGEQDebug two_nodes \<lparr>bm_key = \<lparr>prefix = [5], suffix = [1]\<rparr>, bm_data = []\<rparr> True = Some (1, c') \<and> sgn c = sgn c'"
proof -
  let ?bm = "\<lparr>bm_key = \<lparr>prefix = [5], suffix = [1]\<rparr>, bm_data = []\<rparr> :: DATA BOOKMARK"
  have bs: "bookmarks two_nodes True = [\<lparr>bm_key = \<lparr>prefix = [], suffix = [5]\<rparr>, bm_data = []\<rparr>, \<lparr>bm_key = \<lparr>prefix = [], suffix = [5, 6]\<rparr>, bm_data = []\<rparr>]"
    by (simp add: bookmarks_def two_nodes_nodes NDGetBookmarkFromKDF_def)
  have "sorted_wrt bm_less (bookmarks two_nodes True)" by (simp add: bs bm_less_def key_bytes_def)
  moreover have "records two_nodes \<noteq> []" by (simp add: two_nodes_facts)
  ultimately obtain i c c' where r: "IlineNDISeekGEQ two_nodes ?bm True = Some (i, c)" "IlineNDISeekGEQDebug two_nodes ?bm True = Some (i, c')"
    "if i = - 1 then \<forall>b\<in>set (bookmarks two_nodes True). bm_less b ?bm
     else 0 \<le> i \<and> nat i < length (bookmarks two_nodes True) \<and> (\<forall>j<nat i. bm_less (bookmarks two_nodes True ! j) ?bm)
         \<and> \<not> bm_less (bookmarks two_nodes True ! nat i) ?bm \<and> sgn c = sgn c'"
    using leaf_seek [OF two_nodes_nodes(1), of True ?bm] by blast
  have l: "bm_less (bookmarks two_nodes True ! 0) ?bm" "\<not> bm_less (bookmarks two_nodes True ! 1) ?bm"
    by (simp_all add: bs bm_less_def key_bytes_def)
  have "i \<noteq> - 1" using r(3) l(2) by (auto simp: bs)
  with r(3) have i: "0 \<le> i" "nat i < 2" "\<not> bm_less (bookmarks two_nodes True ! nat i) ?bm" "sgn c = sgn c'" by (simp_all add: bs)
  have "nat i \<noteq> 0" using i(3) l(1) by metis
  with i(1,2) have "i = 1" by linarith
  then show ?thesis using r(1,2) i(4) by blast
qed

text \<open>
  C24. The binary search of an internal page whose keys are in order, up to the last one, which is
  empty or above the bookmark, finds the first node that is not below the bookmark, and the last
  node when there is none. It reports 0 exactly if the key is the bookmark. The linear search of
  the debug build gives the same line and a comparison of the same sign.
\<close>
theorem internal_seek:
  assumes "internal_page p" and "sorted_wrt key_less (butlast (keys p))"
    and "FNull_key (last (keys p)) \<or> bm_bytes bm < key_bytes (last (keys p))" and "\<not> FNull_key (bm_key bm)"
  shows "\<exists>k c. IlineNDISeekGEQInternal p bm = Some (int k, if key_bytes (keys p ! k) = bm_bytes bm then 0 else 1)
    \<and> IlineNDISeekGEQInternalDebug p bm = Some (int k, c) \<and> sgn c = (if key_bytes (keys p ! k) = bm_bytes bm then 0 else 1)
    \<and> k < length (keys p) \<and> (\<forall>j<k. key_bytes (keys p ! j) < bm_bytes bm)
    \<and> (k + 1 < length (keys p) \<longrightarrow> bm_bytes bm \<le> key_bytes (keys p ! k))"
  by (rule internal_seek_ok [OF assms]) (metis length_keys)

theorem internal_seek_witness:
  "\<exists>c. IlineNDISeekGEQInternal two_nodes \<lparr>bm_key = \<lparr>prefix = [], suffix = [5]\<rparr>, bm_data = []\<rparr> = Some (0, 0)
    \<and> IlineNDISeekGEQInternalDebug two_nodes \<lparr>bm_key = \<lparr>prefix = [], suffix = [5]\<rparr>, bm_data = []\<rparr> = Some (0, c) \<and> sgn c = 0"
proof -
  let ?bm = "\<lparr>bm_key = \<lparr>prefix = [], suffix = [5]\<rparr>, bm_data = []\<rparr> :: DATA BOOKMARK"
  have ks: "keys two_nodes = [\<lparr>prefix = [], suffix = [5]\<rparr>, \<lparr>prefix = [], suffix = [5, 6]\<rparr>]" by (simp add: keys_def two_nodes_nodes)
  have small: "CbBuffer two_nodes \<le> g_cbPageMax"
    using inv_facts(3) [OF two_nodes_facts(1)] msk_def [of two_nodes]
    by (simp add: CbBuffer_def CbPageHeader_def g_cbPageMax_def two_nodes_facts)
  have "internal_page two_nodes"
    using small by (simp add: internal_page_def two_nodes_nodes two_nodes_facts plain_prefixes_def cb_prefix_def compressed_def)
  from internal_seek [OF this, of ?bm] obtain k c where
    r: "IlineNDISeekGEQInternal two_nodes ?bm = Some (int k, if key_bytes (keys two_nodes ! k) = bm_bytes ?bm then 0 else 1)"
      "IlineNDISeekGEQInternalDebug two_nodes ?bm = Some (int k, c)" "sgn c = (if key_bytes (keys two_nodes ! k) = bm_bytes ?bm then 0 else 1)"
      "k < 2" "\<forall>j<k. key_bytes (keys two_nodes ! j) < bm_bytes ?bm"
    by (auto simp: ks bm_bytes_def key_bytes_def FNull_key_def numeral_2_eq_2)
  have "\<not> key_bytes (keys two_nodes ! 0) < bm_bytes ?bm" by (simp add: ks bm_bytes_def key_bytes_def)
  with r(5) have "k = 0" by blast
  with r(1-3) show ?thesis by (simp add: ks bm_bytes_def key_bytes_def)
qed

end
