(* ===== verification/Page_Check_Ok.thy ===== *)
theory Page_Check_Ok
  imports Page_Check Node_Properties
begin

unbundle bit_operations_syntax

text \<open>
  What a page that \<open>ErrCheckPage\<close> accepts is known to satisfy, and that the check accepts the
  pages the operations produce.
\<close>

section \<open>The header and the tags\<close>

lemma first_fault_None: "first_fault cs = None \<longleftrightarrow> list_all (\<lambda>c. \<not> fst c) cs"
  by (induction cs rule: first_fault.induct) simp_all

lemma check_header_sizes:
  assumes "check_header g p = None"
  shows "cbFree (pghdr p) \<le> length (rgb p)" "ibMicFree (pghdr p) \<le> length (rgb p)"
    "4 * m_itagMicFree p + 2 < length (rgb p)" "m_itagMicFree p * 8 < length (rgb p) + 4"
  using assms unfolding check_header_def Let_def first_fault_None
  by (auto simp: sizes_eq PbDataEnd_def CbTagArray_def sizeof_TAG_def)

definition tag_ok :: "CPAGE \<Rightarrow> nat \<Rightarrow> bool" where
  "tag_ok p i \<longleftrightarrow> (if Cb p i = 0 then i < m_ctagReserved p else Ib p i + Cb p i \<le> ibMicFree (pghdr p))"

lemma check_line_cbTotal: "check_line g grbit p m i s = Inr s' \<Longrightarrow> cbTotal s' = cbTotal s"
  by (auto simp: check_line_def Let_def split: if_splits option.splits prod.splits)

lemma check_tag_ok:
  assumes "check_tag g grbit p m i s = Inr s'"
  shows "tag_ok p i" "cbTotal s' = cbTotal s + Cb p i"
  using assms check_line_cbTotal [of g grbit p m i "s\<lparr>cbTotal := cbTotal s + Cb p i\<rparr>" s']
  by (auto simp: check_tag_def Let_def tag_ok_def split: if_splits)

lemma check_tags_ok:
  assumes "check_tags g grbit p m is s = Inr s'"
  shows "list_all (tag_ok p) is \<and> cbTotal s' = cbTotal s + (\<Sum>i\<leftarrow>is. Cb p i)"
  using assms
proof (induction "is" arbitrary: s)
  case (Cons i xs)
  then obtain s1 where "check_tag g grbit p m i s = Inr s1" "check_tags g grbit p m xs s1 = Inr s'"
    by (auto split: sum.splits)
  then show ?case using Cons.IH check_tag_ok by fastforce
qed simp

lemma ErrCheckPage_None:
  assumes "ErrCheckPage g a grbit p = None"
  obtains m s s' where "check_header g p = None" "check_tags g grbit p m [0..<m_itagMicFree p] s = Inr s'" "cbTotal s = 0"
    "m \<le> int (Cb p 0)" "dwOverlaps s' = 0" "int (cbTotal s') + int (cbFree (pghdr p)) + 4 * int (m_itagMicFree p) = int (length (rgb p))"
  using assms that
  by (auto simp: ErrCheckPage_def Let_def sizes_eq CbTagArray_def sizeof_TAG_def split: option.splits sum.splits if_splits)

lemma accepted_tags:
  assumes "ErrCheckPage g a grbit p = None"
  shows "ibMicFree (pghdr p) \<le> length (rgb p)" "4 * m_itagMicFree p + 2 < length (rgb p)"
    "\<And>i. i < m_itagMicFree p \<Longrightarrow> tag_ok p i"
    "cbFree (pghdr p) + (\<Sum>i<m_itagMicFree p. Cb p i) + 4 * m_itagMicFree p = length (rgb p)"
proof -
  from assms obtain m s s' where h: "check_header g p = None" "check_tags g grbit p m [0..<m_itagMicFree p] s = Inr s'" "cbTotal s = 0"
    "int (cbTotal s') + int (cbFree (pghdr p)) + 4 * int (m_itagMicFree p) = int (length (rgb p))"
    by (rule ErrCheckPage_None)
  show "ibMicFree (pghdr p) \<le> length (rgb p)" "4 * m_itagMicFree p + 2 < length (rgb p)"
    using check_header_sizes [OF h(1)] by simp_all
  from check_tags_ok [OF h(2)] h(3) have t: "list_all (tag_ok p) [0..<m_itagMicFree p]" "cbTotal s' = (\<Sum>i<m_itagMicFree p. Cb p i)"
    by (simp_all add: sum_list_distinct_conv_sum_set lessThan_atLeast0)
  then show "\<And>i. i < m_itagMicFree p \<Longrightarrow> tag_ok p i" by (simp add: list_all_iff)
  show "cbFree (pghdr p) + (\<Sum>i<m_itagMicFree p. Cb p i) + 4 * m_itagMicFree p = length (rgb p)"
    using h(4) unfolding t(2) by linarith
qed

section \<open>Nodes\<close>

lemma sint_small_diff:
  assumes "x < 65536" "y < 65536" "z < 65536"
  shows "sint (word_of_nat x - word_of_nat y - word_of_nat z :: ULONG) = int x - int y - int z"
proof -
  have small: "sint (word_of_int i :: ULONG) = i" if "- 2147483648 \<le> i" "i < 2147483648" for i
    using that by (simp add: signed_of_int signed_take_bit_int_eq_self)
  have "(word_of_nat x - word_of_nat y - word_of_nat z :: ULONG) = word_of_int (int x - int y - int z)" by simp
  then show ?thesis using assms small [of "int x - int y - int z"] by simp
qed

lemma NDILine_checked:
  assumes inv: "page_inv p" and k: "k < m_itagMicFree p" and nz: "Cb p k \<noteq> 0"
    and r: "NDILineToKeydataflags pgnbcChecked p \<lparr>pvLine = Some (Ib p k), cbLine = Cb p k, fLineFlags = snd (line p k)\<rparr> pvPrefix
      = Some (kdf, JET_errSuccess)"
    and d: "0 < sint (cb (data kdf))"
  shows "data_offset (line p k) < length (fst (line p k))" "cb (prefix (key kdf)) = word_of_nat (cb_prefix (line p k))"
    "fFlags kdf = snd (line p k)"
proof -
  let ?l = "line p k" and ?n = "key_offset (snd (line p k))"
  have len: "length (fst ?l) = Cb p k" using record_size [OF inv k] by (simp add: line_size_def)
  have fit: "Ib p k + Cb p k \<le> length (rgb p)" and small: "Cb p k < 65536"
    using inv_facts(5,9) [OF inv] inv_facts(6) [OF inv k nz] by simp_all
  have bytes: "fst ?l = line_bytes p k" by (simp add: line_def)
  have n: "?n \<le> 2" "compressed (snd ?l) \<Longrightarrow> ?n = 2" "\<not> compressed (snd ?l) \<Longrightarrow> ?n = 0"
    by (simp_all add: key_offset_def cbPrefixOverhead_def cbKeyCount_def)
  have big: "?n + 2 < Cb p k"
    using r by (auto simp: NDILineToKeydataflags_def Let_def compressed_def [symmetric] key_offset_def cbKeyCount_def cbPrefixOverhead_def split: if_splits)
  have s: "unat (load_le (subbuf (Ib p k + ?n) 2 (rgb p)) AND usNDCbKeyMask :: USHORT) = cb_suffix ?l"
    using key_len_on_page [OF fit, of ?n] big by (simp add: cb_suffix_def bytes)
  have q: "compressed (snd ?l) \<Longrightarrow> unat (load_le (subbuf (Ib p k) 2 (rgb p)) AND usNDCbKeyMask :: USHORT) = cb_prefix ?l"
    using key_len_on_page [OF fit, of 0] big by (simp add: cb_prefix_def bytes)
  have su: "ucast (load_le (subbuf (Ib p k + ?n) 2 (rgb p)) AND usNDCbKeyMask :: USHORT) = (word_of_nat (cb_suffix ?l) :: ULONG)"
    by (simp only: ucast_unat s)
  have pu: "compressed (snd ?l) \<Longrightarrow> ucast (load_le (subbuf (Ib p k) 2 (rgb p)) AND usNDCbKeyMask :: USHORT) = (word_of_nat (cb_prefix ?l) :: ULONG)"
    by (simp only: ucast_unat q)
  have dk: "cb (data kdf) = word_of_nat (Cb p k) - word_of_nat (cb_suffix ?l) - word_of_nat (?n + 2)"
    using r su n by (cases "compressed (snd ?l)")
      (auto simp: NDILineToKeydataflags_def Let_def compressed_def [symmetric] cbKeyCount_def cbPrefixOverhead_def)
  then have "0 < int (Cb p k) - int (cb_suffix ?l) - int (?n + 2)"
    using d sint_small_diff [of "Cb p k" "cb_suffix ?l" "?n + 2"] small cb_fields_less(2) [of ?l] n(1) by simp
  then show "data_offset ?l < length (fst ?l)" by (simp add: data_offset_def cbKeyCount_def len)
  show "cb (prefix (key kdf)) = word_of_nat (cb_prefix ?l)"
    using r pu by (cases "compressed (snd ?l)") (auto simp: NDILineToKeydataflags_def Let_def compressed_def [symmetric] cb_prefix_def)
  show "fFlags kdf = snd ?l" using r by (auto simp: NDILineToKeydataflags_def Let_def)
qed

lemma first_err_Success: "first_err a b = JET_errSuccess \<longleftrightarrow> a = JET_errSuccess \<and> b = JET_errSuccess"
  by (simp add: first_err_def)

lemma get_prefix_Success:
  assumes "get_prefix pgnbc p kdf err = (kdf', JET_errSuccess)"
  shows "err = JET_errSuccess" "data kdf' = data kdf" "suffix (key kdf') = suffix (key kdf)" "fFlags kdf' = fFlags kdf"
    "\<not> FRootPage p \<or> \<not> FNDCompressed kdf \<Longrightarrow> cb (prefix (key kdf')) = cb (prefix (key kdf))"
  using assms by (auto simp: get_prefix_def Let_def first_err_Success split: if_splits prod.splits)

lemma checked_node:
  assumes inv: "page_inv p" and k: "i + m_ctagReserved p < m_itagMicFree p" and nz: "Cb p (i + m_ctagReserved p) \<noteq> 0"
    and r: "ErrNDIGetKeydataflags p i = Some (kdf, JET_errSuccess)" and d: "0 < sint (cb (data kdf))"
  shows "data_offset (line p (i + m_ctagReserved p)) < length (fst (line p (i + m_ctagReserved p)))"
    "FNDCompressed kdf \<longleftrightarrow> compressed (snd (line p (i + m_ctagReserved p)))"
    "\<not> FRootPage p \<Longrightarrow> cb (prefix (key kdf)) = word_of_nat (cb_prefix (line p (i + m_ctagReserved p)))"
proof -
  let ?k = "i + m_ctagReserved p"
  obtain line err where g: "GetPtr pgnbcChecked p ?k = (line, err)" by (cases "GetPtr pgnbcChecked p ?k")
  have ne: "err = JET_errSuccess"
    using r by (auto simp: ErrNDIGetKeydataflags_def NDIGetKeydataflags_def g Let_def dest: get_prefix_Success(1)
        simp: first_err_Success split: if_splits option.splits)
  then have line: "line = \<lparr>pvLine = Some (Ib p ?k), cbLine = Cb p ?k, fLineFlags = snd (Cpage_Reorg.line p ?k)\<rparr>"
    using g nz FFlags_line [OF inv k] by (auto simp: GetPtr_def Let_def split: if_splits)
  then obtain kdf1 where n: "NDILineToKeydataflags pgnbcChecked p line None = Some (kdf1, JET_errSuccess)"
    "get_prefix pgnbcChecked p kdf1 JET_errSuccess = (kdf, JET_errSuccess)"
    using r ne by (auto simp: ErrNDIGetKeydataflags_def NDIGetKeydataflags_def g Let_def first_err_Success
        dest: get_prefix_Success(1) split: option.splits) (metis first_err_Success get_prefix_Success(1))
  note p = get_prefix_Success [OF n(2)]
  note q = NDILine_checked [OF inv k nz n(1) [unfolded line] d [unfolded p(2)]]
  show "data_offset (Cpage_Reorg.line p ?k) < length (fst (Cpage_Reorg.line p ?k))" by (rule q(1))
  show "FNDCompressed kdf \<longleftrightarrow> compressed (snd (Cpage_Reorg.line p ?k))" by (simp add: FNDCompressed_def compressed_def p(4) q(3))
  show "cb (prefix (key kdf)) = word_of_nat (cb_prefix (Cpage_Reorg.line p ?k))" if "\<not> FRootPage p" using p(5) q(2) that by simp
qed

definition node_check :: "bool \<Rightarrow> ULONG \<Rightarrow> CPAGE \<Rightarrow> int \<Rightarrow> nat \<Rightarrow> DATA KEY \<Rightarrow> page_fault option" where
  "node_check g grbit p m i kL =
     (case ErrNDIGetKeydataflags p (i - m_ctagReserved p) of None \<Rightarrow> Some TagDataTooLarge
      | Some (kdf, err) \<Rightarrow> check_node g grbit p m i (Cb p i) kL kdf err)"

lemma GetPtr_checked_null: "pvLine (fst (GetPtr pgnbcChecked p i)) = None \<Longrightarrow> m_ctagReserved p \<le> i \<Longrightarrow> snd (GetPtr pgnbcChecked p i) \<noteq> JET_errSuccess"
  by (auto simp: GetPtr_def Let_def split: if_splits)

text \<open>The checked reading always has a result.\<close>

lemma checked_defined: "\<exists>kdf err. ErrNDIGetKeydataflags p i = Some (kdf, err)"
proof -
  obtain line err where g: "GetPtr pgnbcChecked p (i + m_ctagReserved p) = (line, err)" by (cases "GetPtr pgnbcChecked p (i + m_ctagReserved p)")
  show ?thesis
  proof (cases "pvLine line")
    case None
    then have "err \<noteq> JET_errSuccess" using GetPtr_checked_null [of p "i + m_ctagReserved p"] g by simp
    with None show ?thesis by (simp add: ErrNDIGetKeydataflags_def NDIGetKeydataflags_def g Let_def)
  next
    case (Some pb)
    then show ?thesis
      by (cases "get_prefix pgnbcChecked p (fst (the (NDILineToKeydataflags pgnbcChecked p line None))) (first_err err (snd (the (NDILineToKeydataflags pgnbcChecked p line None))))")
        (auto simp: ErrNDIGetKeydataflags_def NDIGetKeydataflags_def g Let_def NDILineToKeydataflags_def)
  qed
qed

lemma check_tags_node:
  assumes "check_tags g grbit p m is s = Inr s'" and "i \<in> set is"
    and "grbit AND CheckLineBoundedByTag \<noteq> 0" "\<not> FSpaceTree p" "m_ctagReserved p \<le> i"
  shows "\<exists>kL. node_check g grbit p m i kL = None"
  using assms(1,2)
proof (induction "is" arbitrary: s)
  case (Cons j xs)
  then obtain s1 where s1: "check_tag g grbit p m j s = Inr s1" "check_tags g grbit p m xs s1 = Inr s'"
    by (auto split: sum.splits)
  show ?case
  proof (cases "i = j")
    case True
    have "grbit \<noteq> 0" using assms(3) by auto
    then have "check_line g grbit p m i (s\<lparr>cbTotal := cbTotal s + Cb p i\<rparr>) = Inr s1"
      using s1(1) True assms(5) by (auto simp: check_tag_def Let_def split: if_splits)
    moreover obtain kdf err where "ErrNDIGetKeydataflags p (i - m_ctagReserved p) = Some (kdf, err)" using checked_defined by blast
    ultimately show ?thesis using assms(3-5)
      by (auto simp: check_line_def Let_def node_check_def split: if_splits option.splits)
  next
    case False
    then show ?thesis using Cons.IH [OF s1(2)] Cons.prems(2) by simp
  qed
qed simp

lemma sint_small: "n < 65536 \<Longrightarrow> sint (word_of_nat n :: ULONG) = int n"
  using sint_small_diff [of n 0 0] by simp

lemma accepted_nodes:
  assumes inv: "page_inv p" and c: "ErrCheckPage g a grbit p = None" "grbit AND CheckLineBoundedByTag \<noteq> 0" "\<not> FSpaceTree p"
    and i: "i < length (records p)"
  shows "data_offset (records p ! i) < length (fst (records p ! i))"
    "\<not> FRootPage p \<Longrightarrow> cb_prefix (records p ! i) \<le> length (prefix_bytes p)"
proof -
  let ?k = "i + m_ctagReserved p"
  have k: "?k < m_itagMicFree p" using i length_records [OF inv] by simp
  have rec: "records p ! i = line p ?k" by (rule nth_records [OF inv i])
  from c(1) obtain m s s' where m: "check_tags g grbit p m [0..<m_itagMicFree p] s = Inr s'" "m \<le> int (Cb p 0)"
    by (rule ErrCheckPage_None)
  obtain kL where "node_check g grbit p m ?k kL = None" using check_tags_node [OF m(1) _ c(2,3)] k by force
  then obtain kdf err where r: "ErrNDIGetKeydataflags p i = Some (kdf, err)" "check_node g grbit p m ?k (Cb p ?k) kL kdf err = None"
    by (auto simp: node_check_def split: option.splits prod.splits)
  then have f: "err = JET_errSuccess" "0 < sint (cb (data kdf))" "FNDCompressed kdf \<Longrightarrow> sint (cb (prefix (key kdf))) \<le> m"
    unfolding check_node_def Let_def first_fault_None Cb_PTR_def by (auto simp: not_less)
  have nz: "Cb p ?k \<noteq> 0" using accepted_tags(3) [OF c(1) k] by (auto simp: tag_ok_def split: if_splits)
  note q = checked_node [OF inv k nz r(1) [unfolded f(1)] f(2)]
  show "data_offset (records p ! i) < length (fst (records p ! i))" unfolding rec by (rule q(1))
  assume root: "\<not> FRootPage p"
  have "length (prefix_bytes p) = Cb p 0" using root record_size [OF inv, of 0] k by (simp add: prefix_bytes_def line_size_def line_def)
  moreover have "int (cb_prefix (line p ?k)) \<le> m" if "compressed (snd (line p ?k))"
    using f(3) q(2,3) that root cb_fields_less(1) [of "line p ?k"] by (simp add: sint_small)
  ultimately show "cb_prefix (records p ! i) \<le> length (prefix_bytes p)"
    unfolding rec using m(2) by (cases "compressed (snd (line p ?k))") (simp_all add: cb_prefix_def)
qed

section \<open>The map of used bytes\<close>

definition marked :: "ULONG list \<Rightarrow> nat \<Rightarrow> bool" where
  "marked dws b \<longleftrightarrow> bit (dws ! (b div 32)) (b mod 32)"

lemma bit_set_from: "bit (set_from ib) n \<longleftrightarrow> ib mod 32 < 8 \<and> ib mod 32 \<le> n \<and> n < 32"
proof -
  have b: "ucast (ucast (push_bit k 1 :: ULONG) :: BYTE) = (if k < 8 then push_bit k 1 else 0 :: ULONG)" for k
    by (rule bit_word_eqI) (auto simp: bit_simps)
  have m: "bit (NOT (push_bit k 1 - 1 :: ULONG)) n \<longleftrightarrow> k \<le> n \<and> n < 32" for k
    by (simp add: push_bit_eq_mult mask_eq_exp_minus_1 [symmetric] bit_simps) (auto simp: not_less)
  show ?thesis unfolding set_from_def Let_def b using m by auto
qed

text \<open>A mark that stays inside one range of bytes.\<close>

definition marks :: "(nat \<Rightarrow> bool) \<Rightarrow> ULONG list \<times> ULONG \<Rightarrow> ULONG list \<times> ULONG \<Rightarrow> bool" where
  "marks R st st' \<longleftrightarrow> length (fst st') = length (fst st)
     \<and> (\<forall>b. b < 32 * length (fst st) \<longrightarrow> marked (fst st') b \<longrightarrow> marked (fst st) b \<or> R b)
     \<and> (snd st' \<noteq> 0 \<longrightarrow> snd st \<noteq> 0 \<or> (\<exists>b. R b \<and> b < 32 * length (fst st) \<and> marked (fst st) b))"

lemma marks_mark:
  assumes "i < length (fst st)" and "\<And>n. bit w n \<Longrightarrow> n < 32 \<Longrightarrow> R (32 * i + n)"
  shows "marks R st (mark i w st)"
proof -
  obtain dws ov where st: "st = (dws, ov)" by (cases st)
  have "\<exists>b. R b \<and> b < 32 * length dws \<and> marked dws b" if ne: "dws ! i AND w \<noteq> 0"
  proof -
    obtain n where "bit (dws ! i AND w) n" using ne by (auto simp: bit_eq_iff)
    then have n: "bit (dws ! i) n" "bit w n" "n < 32" by (auto simp: bit_simps dest: bit_imp_le_length)
    then have "R (32 * i + n)" "marked dws (32 * i + n)" "32 * i + n < 32 * length dws"
      using assms st by (simp_all add: marked_def)
    then show ?thesis by blast
  qed
  moreover have "marked dws b \<or> R b" if "marked (dws[i := dws ! i OR w]) b" for b
    using that assms(2) [of "b mod 32"] assms(1) st by (cases "b div 32 = i") (auto simp: marked_def bit_simps)
  ultimately show ?thesis by (auto simp: marks_def mark_def st)
qed

lemma marks_trans: "marks R st st1 \<Longrightarrow> marks R' st1 st2 \<Longrightarrow> (\<And>b. R b \<Longrightarrow> \<not> R' b) \<Longrightarrow> (\<And>b. R b \<or> R' b \<Longrightarrow> S b) \<Longrightarrow> marks S st st2"
  unfolding marks_def by (smt (verit, best))

lemma marks_refl: "marks R st st"
  by (simp add: marks_def)

lemma mark_line_marks:
  assumes "ib + n \<le> 32 * length (fst st)"
  shows "marks (\<lambda>b. ib \<le> b \<and> b < ib + n) st (mark_line ib n st)"
  using assms
proof (induction ib n st rule: mark_line.induct)
  case (1 ib n st)
  let ?k = "32 - ib mod 32"
  have i: "ib = 32 * (ib div 32) + ib mod 32" "ib mod 32 < 32" by simp_all
  show ?case
  proof (cases "n \<ge> ?k")
    case True
    let ?st = "mark (ib div 32) (set_from ib) st"
    have l: "ib div 32 < length (fst st)" using 1(2) True i by linarith
    have m: "marks (\<lambda>b. ib \<le> b \<and> b < ib + ?k) st ?st"
    proof (rule marks_mark [OF l])
      fix n assume "bit (set_from ib) n" "n < 32"
      then have "ib mod 32 \<le> n" by (simp add: bit_set_from)
      then show "ib \<le> 32 * (ib div 32) + n \<and> 32 * (ib div 32) + n < ib + ?k" using i \<open>n < 32\<close> by linarith
    qed
    then have "marks (\<lambda>b. ib + ?k \<le> b \<and> b < ib + ?k + (n - ?k)) ?st (mark_line (ib + ?k) (n - ?k) ?st)"
      using 1(1) [OF True] 1(2) True by (simp add: marks_def)
    then have "marks (\<lambda>b. ib \<le> b \<and> b < ib + n) st (mark_line (ib + ?k) (n - ?k) ?st)"
      using True by (intro marks_trans [OF m]) auto
    then show ?thesis using True by (subst mark_line.simps) simp
  next
    case False
    show ?thesis
    proof (cases "n = 0")
      case True
      then show ?thesis using False by (subst mark_line.simps) (simp add: marks_refl)
    next
      case nz: False
      let ?s = "32 - n - ib mod 32"
      have l: "ib div 32 < length (fst st)" using 1(2) nz i by linarith
      have "marks (\<lambda>b. ib \<le> b \<and> b < ib + n) st (mark (ib div 32) (drop_bit ?s (push_bit ?s (set_from ib))) st)"
      proof (rule marks_mark [OF l])
        fix j assume "bit (drop_bit ?s (push_bit ?s (set_from ib))) j" "j < 32"
        then have "ib mod 32 \<le> j" "j + ?s < 32" by (auto simp: bit_simps bit_set_from)
        then show "ib \<le> 32 * (ib div 32) + j \<and> 32 * (ib div 32) + j < ib + n" using i False by linarith
      qed
      then show ?thesis using False nz by (subst mark_line.simps) (simp add: Let_def)
    qed
  qed
qed

text \<open>
  A line inside one of the 32-byte units of the map that starts behind its first eight bytes
  leaves no mark, and is never found to overlap another.
\<close>

lemma mark_line_lost:
  assumes "8 \<le> ib mod 32" and "ib mod 32 + n \<le> 32" and "ib div 32 < length (fst st)"
  shows "mark_line ib n st = st"
proof -
  have "bit (set_from ib) = (\<lambda>_. False)" using assms(1) by (auto simp: bit_set_from fun_eq_iff)
  then have z: "set_from ib = 0" by (simp add: bit_eq_iff)
  have id: "mark i 0 st = st" if "i < length (fst st)" for i by (cases st) (simp add: mark_def)
  have e: "mark_line k 0 st = st" for k
  proof -
    have "\<not> 32 \<le> k mod 32" by (simp add: not_le)
    then show ?thesis by (subst mark_line.simps) simp
  qed
  show ?thesis
    using assms id z e by (simp add: mark_line.simps [of ib])
qed

section \<open>The check accepts well-formed pages\<close>

lemma GetPtr_same:
  assumes inv: "page_inv p" and k: "k < m_itagMicFree p" and c: "Cb p k \<noteq> 1" "Cb p k = 0 \<longrightarrow> k < m_ctagReserved p"
  shows "GetPtr pgnbcChecked p k = GetPtr pgnbcNoChecks p k"
proof -
  have s: "4 * (k + 1) \<le> length (rgb p)" using inv_slot [OF inv k] by (simp add: slot_def)
  have f: "Ib p k + Cb p k + 4 * m_itagMicFree p \<le> length (rgb p)" if "Cb p k \<noteq> 0"
    using inv_facts(5) [OF inv] inv_facts(6) [OF inv k that] by simp
  show ?thesis
    using s f c by (cases "Cb p k = 0") (simp_all add: GetPtr_def Let_def sizeof_TAG_def CbTagArray_def)
qed

lemma node_record:
  assumes "node_page p" "i < length (records p)"
  shows "page_inv p" "i + m_ctagReserved p < m_itagMicFree p" "records p ! i = line p (i + m_ctagReserved p)"
    "data_offset (line p (i + m_ctagReserved p)) < Cb p (i + m_ctagReserved p)"
    "cb_prefix (line p (i + m_ctagReserved p)) \<le> length (prefix_bytes p)"
    "length (fst (line p (i + m_ctagReserved p))) = Cb p (i + m_ctagReserved p)"
proof -
  show inv: "page_inv p" using assms(1) by (simp add: node_page_def)
  show k: "i + m_ctagReserved p < m_itagMicFree p" using assms(2) length_records [OF inv] by simp
  show rec: "records p ! i = line p (i + m_ctagReserved p)" by (rule nth_records [OF inv assms(2)])
  show len: "length (fst (line p (i + m_ctagReserved p))) = Cb p (i + m_ctagReserved p)"
    using record_size [OF inv k] by (simp add: line_size_def)
  have "node_ok (prefix_bytes p) (line p (i + m_ctagReserved p))"
    using assms by (simp add: node_page_def list_all_length rec [symmetric])
  then show "data_offset (line p (i + m_ctagReserved p)) < Cb p (i + m_ctagReserved p)"
    "cb_prefix (line p (i + m_ctagReserved p)) \<le> length (prefix_bytes p)"
    by (simp_all add: node_ok_def len)
qed

lemma length_prefix_bytes: "page_inv p \<Longrightarrow> length (prefix_bytes p) \<le> Cb p 0"
  using record_size [of p 0] inv_facts(1,2) [of p] by (simp add: prefix_bytes_def line_size_def line_def)

lemma get_prefix_same:
  assumes inv: "page_inv p" and c: "Cb p 0 \<noteq> 1" and pre: "unat (cb (prefix (key kdf))) \<le> length (prefix_bytes p)"
  shows "get_prefix pgnbcChecked p kdf JET_errSuccess = get_prefix pgnbcNoChecks p kdf JET_errSuccess"
proof -
  have 0: "0 < m_itagMicFree p" "0 < m_ctagReserved p" using inv_facts(1,2) [OF inv] by linarith+
  have g: "GetPtr pgnbcChecked p 0 = GetPtr pgnbcNoChecks p 0" by (rule GetPtr_same [OF inv 0(1) c]) (simp add: 0)
  have "unat (cb (prefix (key kdf))) \<le> Cb p 0" using pre length_prefix_bytes [OF inv] by simp
  then show ?thesis
    by (simp add: get_prefix_def g GetPtr_unchecked [OF inv 0(1)] first_err_def Let_def null_PTR_def)
qed

lemma checked_read:
  assumes np: "node_page p" and i: "i < length (records p)" and c: "Cb p 0 \<noteq> 1"
  obtains kdf where "ErrNDIGetKeydataflags p i = Some (kdf, JET_errSuccess)" "fetch p kdf = nodes p ! i"
    "Cb_PTR (suffix (key kdf)) = int (cb_suffix (records p ! i))"
    "Cb_PTR (data kdf) = int (length (fst (records p ! i))) - int (data_offset (records p ! i))"
    "0 \<le> Cb_PTR (prefix (key kdf))" "Cb_PTR (prefix (key kdf)) \<le> int (Cb p 0)"
    "FNDCompressed kdf \<longleftrightarrow> compressed (snd (records p ! i))"
proof -
  let ?k = "i + m_ctagReserved p" and ?L = "line_kdf p (i + m_ctagReserved p) None"
  note n = node_record [OF np i]
  have d: "data_offset (line p ?k) < length (fst (line p ?k))" using n(4,6) by simp
  have nz: "Cb p ?k \<noteq> 0" "Cb p ?k \<noteq> 1" using n(4) by (auto simp: data_offset_def cbKeyCount_def)
  have g: "GetPtr pgnbc p ?k = (\<lparr>pvLine = Some (Ib p ?k), cbLine = Cb p ?k, fLineFlags = snd (line p ?k)\<rparr>, JET_errSuccess)" for pgnbc
    using nz GetPtr_same [OF n(1,2)] GetPtr_unchecked [OF n(1,2)] by (cases pgnbc) simp_all
  have read: "NDIGetKeydataflags pgnbc p i = Some (get_prefix pgnbc p ?L JET_errSuccess)" for pgnbc
    by (simp add: NDIGetKeydataflags_def g NDILine_ok [OF n(1,2) d] Let_def first_err_def)
  have cbp: "cb (prefix (key ?L)) = word_of_nat (cb_prefix (line p ?k))" by (simp add: line_kdf_def Let_def)
  then have pre: "unat (cb (prefix (key ?L))) \<le> length (prefix_bytes p)" using n(5) cb_fields_less(1) [of "line p ?k"] by simp
  have same: "ErrNDIGetKeydataflags p i = NDIGetKeydataflags pgnbcNoChecks p i"
    by (simp add: ErrNDIGetKeydataflags_def read get_prefix_same [OF n(1) c pre])
  from read_node [OF np i] obtain kdf where r: "NDIGetKeydataflags pgnbcNoChecks p i = Some (kdf, JET_errSuccess)" "fetch p kdf = nodes p ! i" by blast
  then have gp: "get_prefix pgnbcNoChecks p ?L JET_errSuccess = (kdf, JET_errSuccess)" by (simp add: read)
  note q = get_prefix_Success [OF gp]
  have small: "Cb p ?k < 65536" using inv_facts(5,9) [OF n(1)] inv_facts(6) [OF n(1,2) nz(1)] by simp
  have "cb (prefix (key kdf)) \<in> {0, word_of_nat (cb_prefix (line p ?k))}"
    using gp cbp by (auto simp: get_prefix_def Let_def null_PTR_def split: if_splits prod.splits)
  then have b: "0 \<le> Cb_PTR (prefix (key kdf))" "Cb_PTR (prefix (key kdf)) \<le> int (Cb p 0)"
    using n(5) length_prefix_bytes [OF n(1)] cb_fields_less(1) [of "line p ?k"] by (auto simp: Cb_PTR_def sint_small)
  have "Cb_PTR (suffix (key kdf)) = int (cb_suffix (records p ! i))"
    using cb_fields_less(2) [of "line p ?k"] by (simp add: Cb_PTR_def q(3) n(3) line_kdf_def Let_def sint_small)
  moreover have "Cb_PTR (data kdf) = int (length (fst (records p ! i))) - int (data_offset (records p ! i))"
    using small n(4,6) by (simp add: Cb_PTR_def q(2) n(3) line_kdf_def Let_def sint_small of_nat_diff [symmetric] del: of_nat_diff)
  moreover have "FNDCompressed kdf \<longleftrightarrow> compressed (snd (records p ! i))"
    by (simp add: FNDCompressed_def compressed_def q(4) n(3)) (simp add: line_kdf_def Let_def)
  ultimately show thesis using that [OF same [unfolded r(1)] r(2)] b by blast
qed

text \<open>What the check demands beyond the layout of the page.\<close>

definition header_coherent :: "bool \<Rightarrow> CPAGE \<Rightarrow> bool" where
  "header_coherent g_fRepair p \<longleftrightarrow>
     8 \<le> length (rgb p) \<and> 8 * m_itagMicFree p < length (rgb p) + 4 \<and> cbUncommittedFree (pghdr p) \<le> cbFree (pghdr p)
     \<and> itagState (pghdr p) mod 2 ^ 12 = m_itagMicFree p \<and> objidFDP (pghdr p) \<noteq> 0 \<and> \<not> FPreInitPage p
     \<and> \<not> (FLongValuePage p \<and> FIndexPage p) \<and> (FRepairedPage p \<longrightarrow> g_fRepair)"

lemma header_accepted:
  assumes inv: "page_inv p" and h: "header_coherent g p"
  shows "check_header g p = None"
proof -
  have n: "1 \<le> m_itagMicFree p" using inv_facts(1,2) [OF inv] by simp
  have "CbPageFree p = cbFree (pghdr p)"
    using inv_facts(4,8,9) [OF inv] by (simp add: CbPageFree_def sizes_eq)
  moreover have "int (m_itagMicFree p) < int (length (rgb p)) div 4"
  proof -
    have "8 \<le> length (rgb p)" "8 * m_itagMicFree p < length (rgb p) + 4" using h by (simp_all add: header_coherent_def)
    then have "4 * (m_itagMicFree p + 1) \<le> length (rgb p)" using n by (cases "m_itagMicFree p = 1") simp_all
    then have "m_itagMicFree p + 1 \<le> length (rgb p) div 4" by (simp add: less_eq_div_iff_mult_less_eq mult.commute)
    then show ?thesis by linarith
  qed
  moreover have "cbFree (pghdr p) \<le> length (rgb p)" "ibMicFree (pghdr p) \<le> length (rgb p)" using inv_facts(5,8) [OF inv] by simp_all
  moreover have "1 < PbDataEnd p" "0 \<le> PbDataEnd p - (int (m_itagMicFree p) - 1) * 4"
    using h n unfolding header_coherent_def PbDataEnd_def CbTagArray_def sizeof_TAG_def by simp_all
  ultimately show ?thesis
    using h n by (simp add: check_header_def Let_def first_fault_None header_coherent_def sizes_eq sizeof_TAG_def FPrimaryPage_def)
qed

definition keys_present :: "CPAGE \<Rightarrow> bool" where
  "keys_present p \<longleftrightarrow> (\<forall>i<length (nodes p). FLeafPage p \<or> i + 1 < length (nodes p) \<longrightarrow> key_bytes (key (nodes p ! i)) \<noteq> [])"

definition keys_ascending :: "CPAGE \<Rightarrow> bool" where
  "keys_ascending p \<longleftrightarrow> (\<forall>i<length (nodes p). 0 < i \<longrightarrow> FLeafPage p \<or> i + 1 < length (nodes p) \<longrightarrow>
     key_bytes (key (nodes p ! (i - 1))) \<le> key_bytes (key (nodes p ! i)))"

lemma fetch_empty:
  assumes "Cb_PTR (prefix (key kdf)) = 0" "Cb_PTR (suffix (key kdf)) = 0"
  shows "key_bytes (key (fetch p kdf)) = []"
proof -
  have "cb (prefix (key kdf)) = 0" "cb (suffix (key kdf)) = 0" using assms unfolding Cb_PTR_def by (metis sint_0 signed_word_eqI)+
  then show ?thesis by (simp add: fetch_def fetch_PTR_def key_bytes_def split: option.splits)
qed

lemma node_accepted:
  assumes np: "node_page p" and i: "i < length (records p)" and c: "Cb p 0 \<noteq> 1" and h: "header_coherent g p"
    and kp: "keys_present p" and ord: "grbit AND CheckLinesInOrder \<noteq> 0 \<Longrightarrow> 0 < i \<Longrightarrow> keys_ascending p \<and> kL = key (nodes p ! (i - 1))"
  obtains kdf where "ErrNDIGetKeydataflags p i = Some (kdf, JET_errSuccess)" "fetch p kdf = nodes p ! i"
    "check_node g grbit p (int (Cb p 0)) (i + m_ctagReserved p) (Cb p (i + m_ctagReserved p)) kL kdf JET_errSuccess = None"
proof -
  let ?k = "i + m_ctagReserved p" and ?l = "records p ! i"
  note n = node_record [OF np i]
  obtain kdf where r: "ErrNDIGetKeydataflags p i = Some (kdf, JET_errSuccess)" "fetch p kdf = nodes p ! i"
    "Cb_PTR (suffix (key kdf)) = int (cb_suffix ?l)" "Cb_PTR (data kdf) = int (length (fst ?l)) - int (data_offset ?l)"
    "0 \<le> Cb_PTR (prefix (key kdf))" "Cb_PTR (prefix (key kdf)) \<le> int (Cb p 0)" "FNDCompressed kdf \<longleftrightarrow> compressed (snd ?l)"
    using checked_read [OF np i c] by blast
  have len: "length (fst ?l) = Cb p ?k" "length (nodes p) = length (records p)" using n(3,6) by (simp_all add: nodes_def)
  have off: "data_offset ?l = key_offset (snd ?l) + 2 + cb_suffix ?l" "data_offset ?l < Cb p ?k" using n(3,4) by (simp_all add: data_offset_def cbKeyCount_def)
  have ko: "key_offset (snd ?l) = (if FNDCompressed kdf then 2 else 0)" using r(7) by (simp add: key_offset_def cbPrefixOverhead_def cbKeyCount_def)
  have last: "int ?k < int (m_itagMicFree p) - 1 \<longleftrightarrow> i + 1 < length (nodes p)" using length_records [OF n(1)] len(2) by auto
  have "\<not> (Cb_PTR (prefix (key kdf)) = 0 \<and> Cb_PTR (suffix (key kdf)) = 0 \<and> (FLeafPage p \<or> int ?k < int (m_itagMicFree p) - 1))"
    using kp i len(2) fetch_empty [of kdf p] r(2) last unfolding keys_present_def by auto
  moreover have "\<not> (grbit AND CheckLinesInOrder \<noteq> 0 \<and> m_ctagReserved p < ?k \<and> (FLeafPage p \<or> int ?k < int (m_itagMicFree p) - 1)
      \<and> CmpKey (key (fetch p kdf)) kL < 0)"
    using ord i len(2) last CmpKey_total [of "key (nodes p ! i)" kL] r(2)
    unfolding keys_ascending_def cmp_total_def by (auto simp: not_less)
  ultimately have "check_node g grbit p (int (Cb p 0)) ?k (Cb p ?k) kL kdf JET_errSuccess = None"
    using r(3-6) off ko len(1) h unfolding check_node_def Let_def first_fault_None header_coherent_def by auto
  with r(1,2) show thesis by (rule that)
qed

text \<open>The state of the loop before tag \<open>j\<close>.\<close>

definition covers :: "CPAGE \<Rightarrow> nat \<Rightarrow> nat \<Rightarrow> bool" where
  "covers p j b \<longleftrightarrow> (\<exists>i<j. Cb p i \<noteq> 0 \<and> Ib p i \<le> b \<and> b < Ib p i + Cb p i)"

definition node_checks :: "ULONG \<Rightarrow> CPAGE \<Rightarrow> bool" where
  "node_checks grbit p \<longleftrightarrow> grbit AND CheckLineBoundedByTag \<noteq> 0 \<and> \<not> FSpaceTree p"

definition loop_ok :: "ULONG \<Rightarrow> CPAGE \<Rightarrow> nat \<Rightarrow> check_state \<Rightarrow> bool" where
  "loop_ok grbit p j s \<longleftrightarrow> dwOverlaps s = 0
     \<and> (\<forall>dws. rgdw s = Some dws \<longrightarrow> length (rgb p) \<le> 32 * length dws \<and> (\<forall>b<32 * length dws. marked dws b \<longrightarrow> covers p j b))
     \<and> (node_checks grbit p \<longrightarrow> grbit AND CheckLinesInOrder \<noteq> 0 \<longrightarrow> m_ctagReserved p < j \<longrightarrow>
          keyLast s = key (nodes p ! (j - 1 - m_ctagReserved p)))"

lemma covers_Suc: "covers p (Suc j) b \<longleftrightarrow> covers p j b \<or> Cb p j \<noteq> 0 \<and> Ib p j \<le> b \<and> b < Ib p j + Cb p j"
  by (auto simp: covers_def less_Suc_eq)

lemma mark_line_free:
  assumes inv: "page_inv p" and j: "j < m_itagMicFree p" and nz: "Cb p j \<noteq> 0"
    and m: "length (rgb p) \<le> 32 * length dws" "\<And>b. b < 32 * length dws \<Longrightarrow> marked dws b \<Longrightarrow> covers p j b"
    and r: "mark_line (Ib p j) (Cb p j) (dws, 0) = (dws', ov)"
  shows "ov = 0" "length dws' = length dws" "\<And>b. b < 32 * length dws \<Longrightarrow> marked dws' b \<Longrightarrow> covers p (Suc j) b"
proof -
  have "Ib p j + Cb p j \<le> 32 * length dws" using inv_facts(5) [OF inv] inv_facts(6) [OF inv j nz] m(1) by simp
  then have k: "marks (\<lambda>b. Ib p j \<le> b \<and> b < Ib p j + Cb p j) (dws, 0) (dws', ov)"
    using mark_line_marks [of "Ib p j" "Cb p j" "(dws, 0)"] r by simp
  have "\<not> covers p j b" if "Ib p j \<le> b" "b < Ib p j + Cb p j" for b
  proof
    assume "covers p j b"
    then obtain i where i: "i < j" "Cb p i \<noteq> 0" "Ib p i \<le> b" "b < Ib p i + Cb p i" by (auto simp: covers_def)
    then show False using inv_facts(7) [OF inv, of i j] j that nz by (auto simp: apart_def)
  qed
  then show "ov = 0" "length dws' = length dws" "\<And>b. b < 32 * length dws \<Longrightarrow> marked dws' b \<Longrightarrow> covers p (Suc j) b"
    using k m(2) nz unfolding marks_def covers_Suc by auto
qed

lemma check_line_accepted:
  assumes np: "node_page p" and h: "header_coherent g p" and c: "Cb p 0 \<noteq> 1" and kp: "keys_present p"
    and ord: "grbit AND CheckLinesInOrder \<noteq> 0 \<longrightarrow> keys_ascending p"
    and j: "j < m_itagMicFree p" and nz: "Cb p j \<noteq> 0" and s: "loop_ok grbit p j s"
    and m: "\<not> FSpaceTree p \<Longrightarrow> cbPrefixMax = int (Cb p 0)"
  shows "\<exists>s'. check_line g grbit p cbPrefixMax j s = Inr s' \<and> loop_ok grbit p (Suc j) s'"
proof -
  have inv: "page_inv p" using np by (simp add: node_page_def)
  have fit: "Ib p j + Cb p j \<le> length (rgb p)" using inv_facts(5) [OF inv] inv_facts(6) [OF inv j nz] by simp
  then have avail: "\<not> (Ib p j \<ge> CbBuffer p \<or> Cb p j \<ge> CbBuffer p \<or> Ib p j + Cb p j \<ge> CbBuffer p)"
    by (simp add: CbBuffer_def CbPageHeader_def)
  have ptag: "pvLine (fst (GetPtr pgnbcChecked p j)) = Some (Ib p j)"
    using inv_slot [OF inv j] nz by (simp add: GetPtr_def Let_def sizeof_TAG_def slot_def)
  define fNode where "fNode \<longleftrightarrow> grbit AND CheckLineBoundedByTag \<noteq> 0 \<and> \<not> FSpaceTree p \<and> m_ctagReserved p \<le> j"
  define i where "i = j - m_ctagReserved p"
  have node: "\<exists>kdf. ErrNDIGetKeydataflags p i = Some (kdf, JET_errSuccess) \<and> fetch p kdf = nodes p ! i
      \<and> check_node g grbit p cbPrefixMax j (Cb p j) (keyLast s) kdf JET_errSuccess = None" if fNode
  proof -
    have i: "i < length (records p)" "i + m_ctagReserved p = j"
      using that j length_records [OF inv] by (simp_all add: fNode_def i_def diff_less_mono)
    have "grbit AND CheckLinesInOrder \<noteq> 0 \<Longrightarrow> 0 < i \<Longrightarrow> keys_ascending p \<and> keyLast s = key (nodes p ! (i - 1))"
      using s ord that by (simp add: loop_ok_def node_checks_def fNode_def i_def)
    from node_accepted [OF np i(1) c h kp this] show ?thesis using m that unfolding i(2) fNode_def by metis
  qed
  define kdf where "kdf = fst (the (ErrNDIGetKeydataflags p i))"
  define s1 where "s1 = (if fNode \<and> grbit AND CheckLinesInOrder \<noteq> 0 then s\<lparr>keyLast := key (fetch p kdf)\<rparr> else s)"
  have s1: "dwOverlaps s1 = 0" "rgdw s1 = rgdw s"
    "node_checks grbit p \<Longrightarrow> grbit AND CheckLinesInOrder \<noteq> 0 \<Longrightarrow> m_ctagReserved p \<le> j \<Longrightarrow> keyLast s1 = key (nodes p ! (j - m_ctagReserved p))"
    using s node by (auto simp: s1_def loop_ok_def node_checks_def fNode_def kdf_def i_def)
  let ?r = "case rgdw s1 of None \<Rightarrow> s1
    | Some dws \<Rightarrow> (case mark_line (Ib p j) (Cb p j) (dws, dwOverlaps s1) of (dws, ov) \<Rightarrow> s1\<lparr>rgdw := Some dws, dwOverlaps := ov\<rparr>)"
  have "check_line g grbit p cbPrefixMax j s = Inr ?r"
    using avail ptag node nz unfolding s1_def kdf_def i_def
    by (cases fNode; cases "rgdw s") (auto simp: check_line_def Let_def fNode_def simp del: not_le)
  moreover have "loop_ok grbit p (Suc j) ?r"
  proof (cases "rgdw s")
    case None
    then show ?thesis using s1 by (simp add: loop_ok_def less_Suc_eq_le)
  next
    case (Some dws)
    have d: "length (rgb p) \<le> 32 * length dws" "\<And>b. b < 32 * length dws \<Longrightarrow> marked dws b \<Longrightarrow> covers p j b"
      using s Some by (auto simp: loop_ok_def)
    obtain dws' ov where r: "mark_line (Ib p j) (Cb p j) (dws, 0) = (dws', ov)" by (cases "mark_line (Ib p j) (Cb p j) (dws, 0)")
    show ?thesis using mark_line_free [OF inv j nz d r] Some s1 r d(1) by (simp add: loop_ok_def less_Suc_eq_le)
  qed
  ultimately show ?thesis by blast
qed

lemma check_tags_accepted:
  assumes a: "node_page p" "header_coherent g p" "Cb p 0 \<noteq> 1" "keys_present p" "grbit AND CheckLinesInOrder \<noteq> 0 \<longrightarrow> keys_ascending p"
      "\<not> FSpaceTree p \<Longrightarrow> cbPrefixMax = int (Cb p 0)"
    and "loop_ok grbit p j s" "j \<le> m_itagMicFree p"
  shows "\<exists>s'. check_tags g grbit p cbPrefixMax [j..<m_itagMicFree p] s = Inr s' \<and> dwOverlaps s' = 0"
  using assms(7,8)
proof (induction "m_itagMicFree p - j" arbitrary: j s)
  case 0
  then show ?case by (simp add: loop_ok_def)
next
  case (Suc n)
  then have j: "j < m_itagMicFree p" and up: "[j..<m_itagMicFree p] = j # [Suc j..<m_itagMicFree p]" by (simp_all add: upt_conv_Cons)
  have inv: "page_inv p" using a(1) by (simp add: node_page_def)
  let ?s = "s\<lparr>cbTotal := cbTotal s + Cb p j\<rparr>"
  have s: "loop_ok grbit p j ?s" using Suc.prems(1) by (simp add: loop_ok_def)
  have "\<exists>s'. check_tag g grbit p cbPrefixMax j s = Inr s' \<and> loop_ok grbit p (Suc j) s'"
  proof (cases "Cb p j = 0")
    case True
    have "j < m_ctagReserved p"
    proof (rule ccontr)
      assume "\<not> j < m_ctagReserved p"
      then have "j - m_ctagReserved p < length (records p)" "j - m_ctagReserved p + m_ctagReserved p = j" using j length_records [OF inv] by simp_all
      then show False using node_record(4) [OF a(1)] True by fastforce
    qed
    then show ?thesis using True s by (auto simp: check_tag_def Let_def loop_ok_def covers_Suc)
  next
    case False
    have "grbit = 0 \<Longrightarrow> loop_ok grbit p (Suc j) ?s" using s by (auto simp: loop_ok_def node_checks_def covers_Suc)
    then show ?thesis
      using check_line_accepted [OF a(1-5) j False s a(6)] inv_facts(6) [OF inv j False] False
      by (auto simp: check_tag_def Let_def)
  qed
  then obtain s' where s': "check_tag g grbit p cbPrefixMax j s = Inr s'" "loop_ok grbit p (Suc j) s'" by blast
  then show ?case using Suc.hyps(1) [of "Suc j" s'] Suc.hyps(2) j by (simp add: up)
qed

lemma accepted:
  assumes np: "node_page p" and h: "header_coherent g p" and c: "Cb p 0 \<noteq> 1" "keys_present p" "grbit AND CheckLinesInOrder \<noteq> 0 \<longrightarrow> keys_ascending p"
  shows "ErrCheckPage g a grbit p = None"
proof -
  have inv: "page_inv p" using np by (simp add: node_page_def)
  define s where "s = \<lparr>cbTotal = 0, dwOverlaps = 0,
    rgdw = (if grbit AND CheckTagsNonOverlapping \<noteq> 0 \<and> a then Some (replicate ((length (rgb p) + 31) div 32) 0) else None),
    keyLast = \<lparr>prefix = [], suffix = []\<rparr>\<rparr>"
  define m where "m = (if FSpaceTree p \<or> objidFDP (pghdr p) = 0 then 0 else int (Cb p 0))"
  have "loop_ok grbit p 0 s" by (auto simp: loop_ok_def s_def marked_def)
  moreover have "\<not> FSpaceTree p \<Longrightarrow> m = int (Cb p 0)" using h by (simp add: m_def header_coherent_def)
  ultimately obtain s' where s': "check_tags g grbit p m [0..<m_itagMicFree p] s = Inr s'" "dwOverlaps s' = 0"
    using check_tags_accepted [OF np h c, of m 0 s] by blast
  have "cbTotal s' = (\<Sum>i<m_itagMicFree p. Cb p i)"
    using check_tags_ok [OF s'(1)] by (simp add: s_def sum_list_distinct_conv_sum_set lessThan_atLeast0)
  then have "int (cbTotal s') + int (cbFree (pghdr p)) + int (CbTagArray p) = CbBufferData p"
    using inv_facts(8) [OF inv] by (simp only: sizes_eq CbTagArray_def sizeof_TAG_def)
  then show ?thesis
    using s' by (simp add: ErrCheckPage_def header_accepted [OF inv h] Let_def s_def [symmetric] m_def [symmetric])
qed

end
