(* ===== verification/Page_Check_Properties.thy ===== *)
theory Page_Check_Properties
  imports Page_Check_Ok
begin

unbundle bit_operations_syntax

text \<open>
  The properties of \<open>ErrCheckPage\<close>: what an accepted page satisfies, that the pages of the node
  layer are accepted, and a page with overlapping lines that is accepted too.
\<close>

section \<open>A page with overlapping lines\<close>

definition overlapped :: CPAGE where
  "overlapped = (blank True 32)\<lparr>
     pghdr := (pghdr (blank True 32))\<lparr>cbFree := 8, ibMicFree := 16, itagState := 3, objidFDP := 1, hdr_fFlags := fPageLeaf OR fPageNewRecordFormat\<rparr>,
     rgb := [0, 0, 0, 0, 0, 0, 0, 0, 1, 0, 2, 0, 9, 9, 7, 7, 0, 0, 0, 0, 6, 0, 10, 0, 6, 0, 8, 0, 0, 0, 0, 0],
     m_itagMicFree := 3, m_ctagReserved := 1\<rparr>"

lemma overlapped_sel:
  "m_itagMicFree overlapped = 3" "m_ctagReserved overlapped = 1" "cbFree (pghdr overlapped) = 8" "ibMicFree (pghdr overlapped) = 16"
  "itagState (pghdr overlapped) = 3" "objidFDP (pghdr overlapped) = 1" "cbUncommittedFree (pghdr overlapped) = 0" "m_fSmallFormat overlapped"
  "rgb overlapped = [0, 0, 0, 0, 0, 0, 0, 0, 1, 0, 2, 0, 9, 9, 7, 7, 0, 0, 0, 0, 6, 0, 10, 0, 6, 0, 8, 0, 0, 0, 0, 0]"
  "hdr_fFlags (pghdr overlapped) = 0x802" "m_cbPage overlapped = 72"
  by (simp_all add: overlapped_def blank_def fPageLeaf_def fPageNewRecordFormat_def)

lemma overlapped_tags:
  "get_tag overlapped 0 = \<lparr>tag_cb = 0, tag_ib = 0\<rparr>" "get_tag overlapped (Suc 0) = \<lparr>tag_cb = 6, tag_ib = 8\<rparr>" "get_tag overlapped 2 = \<lparr>tag_cb = 6, tag_ib = 10\<rparr>"
  by (simp_all add: get_tag_def PtagFromItag_def sizeof_TAG_def overlapped_sel subbuf_def load_le_def Let_def)

lemma overlapped_lines:
  "Cb overlapped 0 = 0" "Cb overlapped (Suc 0) = 6" "Ib overlapped (Suc 0) = 8" "Cb overlapped 2 = 6" "Ib overlapped 2 = 10"
  "FFlags overlapped 0 = 0" "FFlags overlapped (Suc 0) = 0" "FFlags overlapped 2 = 0"
  by (simp_all add: Cb_def Ib_def FFlags_def overlapped_tags overlapped_sel mskTagIbCb_def mskTagFlags_def)

lemmas overlapped_simps = overlapped_sel overlapped_lines

lemma overlapped_flags:
  "FEmptyPage overlapped = False" "FPreInitPage overlapped = False" "FIndexPage overlapped = False" "FLongValuePage overlapped = False"
  "FRepairedPage overlapped = False" "FLeafPage overlapped = True" "FSpaceTree overlapped = False" "FRootPage overlapped = False"
  by (simp_all add: FEmptyPage_def FPreInitPage_def FIndexPage_def FLongValuePage_def FRepairedPage_def FHasFlag_def FLeafPage_def
      FSpaceTree_def FRootPage_def overlapped_sel fPageEmpty_def fPagePreInit_def fPageIndex_def fPageLongValue_def fPageRepair_def
      fPageLeaf_def fPageSpaceTree_def fPageRoot_def)

lemma overlapped_header: "check_header False overlapped = None"
  by (simp add: check_header_def Let_def overlapped_simps overlapped_flags sizes_eq CbPageFree_def CbAdjustForPage_def CbBuffer_def
      CbPageHeader_def ushort_def PbDataEnd_def CbTagArray_def sizeof_TAG_def)

lemma overlapped_ptr:
  "GetPtr pgnbcChecked overlapped (Suc 0) = (\<lparr>pvLine = Some 8, cbLine = 6, fLineFlags = 0\<rparr>, JET_errSuccess)"
  "GetPtr pgnbcChecked overlapped 2 = (\<lparr>pvLine = Some 10, cbLine = 6, fLineFlags = 0\<rparr>, JET_errSuccess)"
  by (simp_all add: GetPtr_def Let_def overlapped_simps sizeof_TAG_def CbTagArray_def)

lemma overlapped_nodes:
  "ErrNDIGetKeydataflags overlapped 0 = Some (\<lparr>key = \<lparr>prefix = null_PTR, suffix = \<lparr>pv = Some 10, cb = 1\<rparr>\<rparr>, data = \<lparr>pv = Some 11, cb = 3\<rparr>, fFlags = 0\<rparr>, JET_errSuccess)"
  "ErrNDIGetKeydataflags overlapped (Suc 0) = Some (\<lparr>key = \<lparr>prefix = null_PTR, suffix = \<lparr>pv = Some 12, cb = 2\<rparr>\<rparr>, data = \<lparr>pv = Some 14, cb = 2\<rparr>, fFlags = 0\<rparr>, JET_errSuccess)"
  using overlapped_ptr overlapped_ptr(2) [unfolded numeral_2_eq_2]
  by (simp_all add: ErrNDIGetKeydataflags_def NDIGetKeydataflags_def NDILineToKeydataflags_def get_prefix_def Let_def overlapped_simps
      first_err_def FNDCompressed_def subbuf_def load_le_def usNDCbKeyMask_def cbKeyCount_def null_PTR_def)

lemmas overlapped_eval = overlapped_simps overlapped_flags overlapped_ptr overlapped_nodes check_node_def CheckAll_def
  CheckTagsNonOverlapping_def CheckLineBoundedByTag_def CheckLinesInOrder_def CbBuffer_def CbPageHeader_def Cb_PTR_def null_PTR_def
  FNDCompressed_def fetch_def fetch_PTR_def subbuf_def

lemma overlapped_check_line:
  "check_line False CheckAll overlapped 0 (Suc 0) \<lparr>cbTotal = n, dwOverlaps = 0, rgdw = Some [0], keyLast = kL\<rparr>
    = Inr \<lparr>cbTotal = n, dwOverlaps = 0, rgdw = Some [0], keyLast = \<lparr>prefix = [], suffix = [2]\<rparr>\<rparr>"
  "check_line False CheckAll overlapped 0 2 \<lparr>cbTotal = n, dwOverlaps = 0, rgdw = Some [0], keyLast = \<lparr>prefix = [], suffix = [2]\<rparr>\<rparr>
    = Inr \<lparr>cbTotal = n, dwOverlaps = 0, rgdw = Some [0], keyLast = \<lparr>prefix = [], suffix = [9, 9]\<rparr>\<rparr>"
proof -
  have m: "mark_line 8 6 ([0], 0) = ([0], 0)" "mark_line 10 6 ([0], 0) = ([0], 0)" by (rule mark_line_lost; simp)+
  have c: "\<not> CmpKey \<lparr>prefix = [], suffix = [9, 9]\<rparr> \<lparr>prefix = [], suffix = [2 :: BYTE]\<rparr> < 0"
    using CmpKey_total [of "\<lparr>prefix = [], suffix = [9, 9 :: BYTE]\<rparr>" "\<lparr>prefix = [], suffix = [2]\<rparr>"]
    by (simp add: cmp_total_def key_bytes_def)
  show "check_line False CheckAll overlapped 0 (Suc 0) \<lparr>cbTotal = n, dwOverlaps = 0, rgdw = Some [0], keyLast = kL\<rparr>
    = Inr \<lparr>cbTotal = n, dwOverlaps = 0, rgdw = Some [0], keyLast = \<lparr>prefix = [], suffix = [2]\<rparr>\<rparr>"
    by (simp add: check_line_def Let_def overlapped_eval m)
  show "check_line False CheckAll overlapped 0 2 \<lparr>cbTotal = n, dwOverlaps = 0, rgdw = Some [0], keyLast = \<lparr>prefix = [], suffix = [2]\<rparr>\<rparr>
    = Inr \<lparr>cbTotal = n, dwOverlaps = 0, rgdw = Some [0], keyLast = \<lparr>prefix = [], suffix = [9, 9]\<rparr>\<rparr>"
    using c by (simp add: check_line_def Let_def overlapped_eval m)
qed

lemma overlapped_accepted: "ErrCheckPage False True CheckAll overlapped = None"
proof -
  have l: "[0..<3] = [0, Suc 0, 2 :: nat]" by (simp add: upt_rec)
  have t: "check_tags False CheckAll overlapped 0 [0..<3] \<lparr>cbTotal = 0, dwOverlaps = 0, rgdw = Some [0], keyLast = \<lparr>prefix = [], suffix = []\<rparr>\<rparr>
    = Inr \<lparr>cbTotal = 12, dwOverlaps = 0, rgdw = Some [0], keyLast = \<lparr>prefix = [], suffix = [9, 9]\<rparr>\<rparr>"
    by (simp add: l check_tag_def Let_def overlapped_simps overlapped_check_line) (simp add: CheckAll_def CheckTagsNonOverlapping_def
        CheckLineBoundedByTag_def CheckLinesInOrder_def)
  have "CheckAll AND CheckTagsNonOverlapping \<noteq> 0"
    by (simp add: CheckAll_def CheckTagsNonOverlapping_def CheckLineBoundedByTag_def CheckLinesInOrder_def)
  then show ?thesis
    by (simp add: ErrCheckPage_def overlapped_header overlapped_simps overlapped_flags t Let_def sizes_eq CbTagArray_def sizeof_TAG_def)
qed

section \<open>A page with two nodes\<close>











section \<open>Properties\<close>

text \<open>
  C25. A page the check accepts, with any extent of the checks, has its tag array and its lines
  inside the page: every line ends in the used part, only a reserved tag is empty, and the free
  bytes, the lines and the tags together make up the page.
\<close>
theorem page_check_bounds:
  assumes "ErrCheckPage g_fRepair fAlloc grbit p = None"
  shows "ibMicFree (pghdr p) \<le> length (rgb p) \<and> 4 * m_itagMicFree p + 2 < length (rgb p)
    \<and> (\<forall>i<m_itagMicFree p. if Cb p i = 0 then i < m_ctagReserved p else Ib p i + Cb p i \<le> ibMicFree (pghdr p))
    \<and> cbFree (pghdr p) + (\<Sum>i<m_itagMicFree p. Cb p i) + 4 * m_itagMicFree p = length (rgb p)"
  using accepted_tags [OF assms] by (simp add: tag_ok_def)

theorem page_check_bounds_witness:
  "ErrCheckPage False True CheckAll overlapped = None
    \<and> cbFree (pghdr overlapped) + (\<Sum>i<m_itagMicFree overlapped. Cb overlapped i) + 4 * m_itagMicFree overlapped = length (rgb overlapped)"
  using page_check_bounds [OF overlapped_accepted] overlapped_accepted by blast






end
