(* ===== verification/Node_Ops.thy ===== *)
theory Node_Ops
  imports Node
begin

unbundle bit_operations_syntax

text \<open>
  The operations of \<open>ese/node.cxx\<close> that change a page, with the accounting of uncommitted free
  space they share with the version store (\<open>ver.cxx\<close>). Data from outside the page and pieces of
  the page itself are handed to \<open>CPAGE\<close> by value: a routine that passes pieces of the node it
  replaces does not let the node grow, and each piece is copied to a lower or the same address.

  The record \<open>ND_ENV\<close> has what a call finds outside the page: the state of the database file, the
  clock \<open>DbtimeIncrementAndGet\<close>, the reserves of the version store and the logging routine of the
  operation at hand, which dirties the page when it succeeds and returns an error code. Latches
  and statistics are left out. A failing \<open>Enforce\<close> is the result None.
\<close>

section \<open>The environment\<close>

type_synonym DIRFLAG = ULONG

definition fDIRNoVersion :: DIRFLAG where "fDIRNoVersion = 0x00000040"
definition fDIRNoLog :: DIRFLAG where "fDIRNoLog = 0x00002000"
definition fDIRNoDirty :: DIRFLAG where "fDIRNoDirty = 0x00004000"

record ND_ENV =
  FVersioningOff :: bool
  FLogOn :: bool
  FRecovering :: bool
  FUpdateDBTime :: bool
  FPageRecentlyDirtied :: bool
  FFUCBSpace :: bool
  FUpgradeToWARLatch :: bool
  DbtimeIncrementAndGet :: QWORD
  CbVERGetNodeReserve :: "DATA BOOKMARK \<Rightarrow> int \<Rightarrow> int"
  ErrLG :: "CPAGE \<Rightarrow> CPAGE \<times> JET_ERR"

definition UpdateDBTime :: "ND_ENV \<Rightarrow> CPAGE \<Rightarrow> CPAGE" where
  "UpdateDBTime env p = (if FUpdateDBTime env then upd_hdr (\<lambda>h. h\<lparr>dbtimeDirtied := DbtimeIncrementAndGet env\<rparr>) p else p)"

definition Dirty :: "ND_ENV \<Rightarrow> CPAGE \<Rightarrow> CPAGE" where
  "Dirty env p = SetFScrubbedValue (UpdateDBTime env p) False"

definition DirtyForScrub :: "ND_ENV \<Rightarrow> CPAGE \<Rightarrow> CPAGE" where
  "DirtyForScrub env p = SetFScrubbedValue (UpdateDBTime env p) True"

definition fVersion :: "ND_ENV \<Rightarrow> DIRFLAG \<Rightarrow> bool" where
  "fVersion env dirflag \<longleftrightarrow> dirflag AND fDIRNoVersion = 0 \<and> \<not> FVersioningOff env"

definition fLogging :: "ND_ENV \<Rightarrow> DIRFLAG \<Rightarrow> bool" where
  "fLogging env dirflag \<longleftrightarrow> dirflag AND fDIRNoLog = 0 \<and> FLogOn env"

definition fDirty :: "DIRFLAG \<Rightarrow> bool" where
  "fDirty dirflag \<longleftrightarrow> dirflag AND fDIRNoDirty = 0"

text \<open>The log record of an operation, or the mark that the page is dirty.\<close>

definition log_or_dirty :: "ND_ENV \<Rightarrow> DIRFLAG \<Rightarrow> CPAGE \<Rightarrow> CPAGE \<times> JET_ERR" where
  "log_or_dirty env dirflag p =
     (if fLogging env dirflag then ErrLG env p
      else (if fDirty dirflag then Dirty env p else p, JET_errSuccess))"

section \<open>Free space\<close>

definition cbInsertionOverhead :: nat where "cbInsertionOverhead = sizeof_TAG"
definition cbNDNullKeyData :: nat where "cbNDNullKeyData = cbKeyCount + cbInsertionOverhead"

definition CbNDNodeSizeTotal :: "DATA KEYDATAFLAGS \<Rightarrow> nat" where
  "CbNDNodeSizeTotal kdf = length (key_bytes (key kdf)) + length (data kdf) + cbNDNullKeyData"

definition CbNDNodeSizeCompressed :: "DATA KEYDATAFLAGS \<Rightarrow> nat" where
  "CbNDNodeSizeCompressed kdf =
     (let cbSize = length (suffix (key kdf)) + length (data kdf) + cbNDNullKeyData
      in if length (prefix (key kdf)) > 0 then cbSize + cbPrefixOverhead else cbSize)"

fun uncommitted_lines :: "ND_ENV \<Rightarrow> bool \<Rightarrow> CPAGE \<Rightarrow> nat list \<Rightarrow> int option" where
  "uncommitted_lines env fUnique p [] = Some 0"
| "uncommitted_lines env fUnique p (iline # ilines) =
     (case NDIGetKeydataflags pgnbcNoChecks p iline of
        None \<Rightarrow> None
      | Some (keydataflags, _) \<Rightarrow>
          let cbReserve = (if FNDVersion keydataflags
                           then CbVERGetNodeReserve env (NDGetBookmarkFromKDF (fetch p keydataflags) fUnique) (sint (cb (data keydataflags)))
                           else 0)
          in map_option (\<lambda>cbActualUncommitted. cbReserve + cbActualUncommitted) (uncommitted_lines env fUnique p ilines))"

definition CbNDUncommittedFree :: "ND_ENV \<Rightarrow> bool \<Rightarrow> CPAGE \<Rightarrow> int option" where
  "CbNDUncommittedFree env fUnique p =
     (if FPageRecentlyDirtied env then uncommitted_lines env fUnique p [0..<nat (Clines p)] else Some 0)"

text \<open>The result is the page, whose count may have been corrected, and whether there is room.\<close>

definition FVERCheckUncommittedFreedSpace :: "ND_ENV \<Rightarrow> bool \<Rightarrow> CPAGE \<Rightarrow> int \<Rightarrow> bool \<Rightarrow> (CPAGE \<times> bool) option" where
  "FVERCheckUncommittedFreedSpace env fUnique p cbReq fPermitUpdateUncFree =
     (if FRecovering env then
        Some (if fPermitUpdateUncFree \<and> cbUncommittedFree (pghdr p) \<noteq> 0 \<and> FUpgradeToWARLatch env
              then SetCbUncommittedFree p 0 else p, True)
      else if cbReq > int (CbPageFree p) - int (cbUncommittedFree (pghdr p)) then
        (case CbNDUncommittedFree env fUnique p of
           None \<Rightarrow> None
         | Some cbUncommitted \<Rightarrow>
             if cbUncommitted = int (cbUncommittedFree (pghdr p)) then Some (p, False)
             else Some (if fPermitUpdateUncFree \<and> FUpgradeToWARLatch env then SetCbUncommittedFree p cbUncommitted else p,
                        cbReq \<le> int (CbPageFree p) - cbUncommitted))
      else Some (p, True))"

definition FNDFreePageSpace :: "ND_ENV \<Rightarrow> bool \<Rightarrow> CPAGE \<Rightarrow> nat \<Rightarrow> (CPAGE \<times> bool) option" where
  "FNDFreePageSpace env fUnique p cbReq =
     (if CbPageFree p < cbReq then Some (p, False)
      else FVERCheckUncommittedFreedSpace env fUnique p (int cbReq) True)"

definition FNDPossiblyVersioned :: "ND_ENV \<Rightarrow> FUCB \<Rightarrow> bool" where
  "FNDPossiblyVersioned env pfucb \<longleftrightarrow> FPageRecentlyDirtied env \<and> FNDVersion (kdfCurr pfucb)"

definition CbNDReservedSizeOfNode :: "ND_ENV \<Rightarrow> FUCB \<Rightarrow> CPAGE \<Rightarrow> ULONG" where
  "CbNDReservedSizeOfNode env pfucb p =
     (if FNDPossiblyVersioned env pfucb \<or> FRecovering env \<and> \<not> FFUCBSpace env then
        word_of_int (CbVERGetNodeReserve env (NDGetBookmarkFromKDF (fetch p (kdfCurr pfucb)) (fFUCBUnique pfucb)) (sint (cb (data (kdfCurr pfucb)))))
      else 0)"

text \<open>The part of a version \<open>VERREPLACE\<close> that counts reserved space.\<close>

record VERREPLACE =
  cbMaxSize :: "16 word"
  cbDelta :: "16 word"

definition VERSetCbAdjust :: "CPAGE \<Rightarrow> VERREPLACE \<Rightarrow> int \<Rightarrow> int \<Rightarrow> CPAGE \<times> VERREPLACE" where
  "VERSetCbAdjust p prce cbDataNew cbDataOld =
     (let cbMax = sint (cbMaxSize prce);
          fMax = (cbDataNew > cbMax);
          cbDiff = (if fMax then cbMax - cbDataOld else cbDataNew - cbDataOld);
          prce = (if fMax then prce\<lparr>cbMaxSize := word_of_int cbDataNew\<rparr> else prce);
          prce = prce\<lparr>cbDelta := cbDelta prce - word_of_int cbDiff\<rparr>
      in (if cbDiff > 0 then ReclaimUncommittedFreed p cbDiff
          else if cbDiff < 0 then AddUncommittedFreed p (- cbDiff) else p, prce))"

section \<open>Flags\<close>

definition NDISetCompressed :: "'d KEYDATAFLAGS \<Rightarrow> 'd KEYDATAFLAGS" where
  "NDISetCompressed kdf = kdf\<lparr>fFlags := fFlags kdf OR fNDCompressed\<rparr>"

definition NDIResetCompressed :: "'d KEYDATAFLAGS \<Rightarrow> 'd KEYDATAFLAGS" where
  "NDIResetCompressed kdf = kdf\<lparr>fFlags := fFlags kdf AND NOT fNDCompressed\<rparr>"

definition on_page :: "CSR \<Rightarrow> (CPAGE \<Rightarrow> CPAGE) \<Rightarrow> CSR" where
  "on_page pcsr f = pcsr\<lparr>csr_cpage := f (csr_cpage pcsr)\<rparr>"

definition ILine :: "CSR \<Rightarrow> nat" where
  "ILine pcsr = nat (csr_iline pcsr)"

definition NDISetFlag :: "CSR \<Rightarrow> USHORT \<Rightarrow> CSR option" where
  "NDISetFlag pcsr fFlag =
     map_option (\<lambda>(kdf, _). on_page pcsr (\<lambda>p. ReplaceFlags p (ILine pcsr) (fFlags kdf OR fFlag)))
       (NDIGetKeydataflags pgnbcNoChecks (csr_cpage pcsr) (ILine pcsr))"

definition NDIResetFlag :: "CSR \<Rightarrow> USHORT \<Rightarrow> CSR option" where
  "NDIResetFlag pcsr fFlag =
     map_option (\<lambda>(kdf, _). on_page pcsr (\<lambda>p. ReplaceFlags p (ILine pcsr) (fFlags kdf AND NOT fFlag)))
       (NDIGetKeydataflags pgnbcNoChecks (csr_cpage pcsr) (ILine pcsr))"

definition NDResetFlagDelete :: "CSR \<Rightarrow> CSR option" where
  "NDResetFlagDelete pcsr = NDIResetFlag pcsr fNDDeleted"

definition ErrNDFlagVersion :: "CSR \<Rightarrow> (CSR \<times> JET_ERR) option" where
  "ErrNDFlagVersion pcsr = map_option (\<lambda>pcsr. (pcsr, JET_errSuccess)) (NDISetFlag pcsr fNDVersion)"

definition NDDeferResetNodeVersion :: "ND_ENV \<Rightarrow> CSR \<Rightarrow> CSR option" where
  "NDDeferResetNodeVersion env pcsr = (if FUpgradeToWARLatch env then NDIResetFlag pcsr fNDVersion else Some pcsr)"

definition NDResetVersionInfo :: "CPAGE \<Rightarrow> CPAGE" where
  "NDResetVersionInfo p =
     (if FLeafPage p \<and> \<not> FSpaceTree p then SetCbUncommittedFree (ResetAllFlags p fNDVersion) 0 else p)"

definition FNDAnyNodeIsVersioned :: "CPAGE \<Rightarrow> bool" where
  "FNDAnyNodeIsVersioned p \<longleftrightarrow>
     FLeafPage p \<and> \<not> FSpaceTree p \<and> (cbUncommittedFree (pghdr p) \<noteq> 0 \<or> FAnyLineHasFlagSet p fNDVersion)"

definition FNDAnyNodeIsCompressed :: "CPAGE \<Rightarrow> bool" where
  "FNDAnyNodeIsCompressed p = FAnyLineHasFlagSet p fNDCompressed"

section \<open>Operations without logging\<close>

definition lift_page :: "CSR \<Rightarrow> (CPAGE \<Rightarrow> CPAGE option) \<Rightarrow> CSR option" where
  "lift_page pcsr f = map_option (\<lambda>p. pcsr\<lparr>csr_cpage := p\<rparr>) (f (csr_cpage pcsr))"

text \<open>\<open>NDInsert\<close> with the number of bytes to take from the prefix of the page, and with the prefix of the given key.\<close>

definition NDInsert_cbPrefix :: "CSR \<Rightarrow> DATA KEYDATAFLAGS \<Rightarrow> nat \<Rightarrow> CSR option" where
  "NDInsert_cbPrefix pcsr kdf cbPrefix =
     (case CdataNDIPrefixAndKeydataflagsToDataflags kdf (word_of_nat cbPrefix) of (rgdata, fFlagsLine) \<Rightarrow>
        lift_page pcsr (\<lambda>p. Insert p (ILine pcsr) rgdata fFlagsLine))"

definition NDInsert :: "FUCB \<Rightarrow> CSR \<Rightarrow> DATA KEYDATAFLAGS \<Rightarrow> (FUCB \<times> CSR) option" where
  "NDInsert pfucb pcsr kdf =
     (case CdataNDIKeydataflagsToDataflags kdf of (rgdata, fFlagsLine) \<Rightarrow>
        case lift_page pcsr (\<lambda>p. Insert p (ILine pcsr) rgdata fFlagsLine) of
          None \<Rightarrow> None
        | Some pcsr \<Rightarrow> map_option (\<lambda>pfucb. (pfucb, pcsr)) (NDGet pfucb pcsr))"

definition NDReplaceForUpgrade :: "CPAGE \<Rightarrow> nat \<Rightarrow> DATA \<Rightarrow> PTR KEYDATAFLAGS \<Rightarrow> CPAGE option" where
  "NDReplaceForUpgrade p iline pdata kdfOld =
     (case CdataNDIKeydataflagsToDataflags ((fetch p kdfOld)\<lparr>data := pdata\<rparr>) of (rgdata, fFlagsLine) \<Rightarrow>
        Replace p iline rgdata fFlagsLine)"

definition NDReplace :: "CSR \<Rightarrow> DATA \<Rightarrow> CSR option" where
  "NDReplace pcsr pdata =
     (case NDIGetKeydataflags pgnbcNoChecks (csr_cpage pcsr) (ILine pcsr) of
        None \<Rightarrow> None
      | Some (kdf, _) \<Rightarrow>
          (case CdataNDIKeydataflagsToDataflags ((fetch (csr_cpage pcsr) kdf)\<lparr>data := pdata\<rparr>) of (rgdata, fFlagsLine) \<Rightarrow>
             lift_page pcsr (\<lambda>p. Replace p (ILine pcsr) rgdata fFlagsLine)))"

definition NDDelete :: "CSR \<Rightarrow> CSR" where
  "NDDelete pcsr = on_page pcsr (\<lambda>p. Delete p (ILine pcsr))"

definition NDBulkDelete :: "CSR \<Rightarrow> nat \<Rightarrow> CSR" where
  "NDBulkDelete pcsr clines = on_page pcsr (\<lambda>p. fold (\<lambda>iline p. Delete p iline) (rev [ILine pcsr..<ILine pcsr + clines]) p)"

section \<open>Prefixes\<close>

definition NDGetPrefix :: "FUCB \<Rightarrow> CSR \<Rightarrow> FUCB" where
  "NDGetPrefix pfucb pcsr =
     (let p = csr_cpage pcsr; line = fst (GetPtr pgnbcNoChecks p 0);
          set_prefix = (\<lambda>d. pfucb\<lparr>kdfCurr := null_kdf\<lparr>key := \<lparr>prefix = d, suffix = null_PTR\<rparr>\<rparr>\<rparr>)
      in if \<not> FRootPage p then set_prefix \<lparr>pv = pvLine line, cb = word_of_nat (cbLine line)\<rparr>
         else if FSpaceTree p then
           (if cbLine line \<ge> sizeof_SPLIT_BUFFER
            then set_prefix \<lparr>pv = map_option (\<lambda>ib. ib + sizeof_SPLIT_BUFFER) (pvLine line), cb = word_of_nat (cbLine line - sizeof_SPLIT_BUFFER)\<rparr>
            else set_prefix \<lparr>pv = pvLine line, cb = 0\<rparr>)
         else set_prefix null_PTR)"

text \<open>On a root page with a prefix the code copies the external header first; an assertion says the branch is dead.\<close>

definition sizeof_SPACE_HEADER :: nat where "sizeof_SPACE_HEADER = 16"

definition NDSetPrefix :: "CSR \<Rightarrow> DATA KEY \<Rightarrow> CSR option" where
  "NDSetPrefix pcsr k =
     (let p = csr_cpage pcsr in
      if FRootPage p \<and> FNull_key k then Some pcsr
      else
        let line = fst (GetPtr pgnbcNoChecks p 0);
            cbExtHdr = (if FSpaceTree p then sizeof_SPLIT_BUFFER else sizeof_SPACE_HEADER);
            rgexthdr = (if FRootPage p \<and> cbLine line \<noteq> 0
                        then [case pvLine line of None \<Rightarrow> [] | Some pb \<Rightarrow> subbuf pb cbExtHdr (rgb p)] else [])
        in lift_page pcsr (\<lambda>p. SetExternalHeader p (rgexthdr @ [prefix k, suffix k]) 0))"

definition NDGrowCbPrefix :: "FUCB \<Rightarrow> CSR \<Rightarrow> nat \<Rightarrow> CSR option" where
  "NDGrowCbPrefix pfucb pcsr cbPrefixNew =
     (let kdf = NDISetCompressed (fetch (csr_cpage pcsr) (kdfCurr pfucb))
      in case CdataNDIPrefixAndKeydataflagsToDataflags kdf (word_of_nat cbPrefixNew) of (rgdata, fFlagsLine) \<Rightarrow>
           lift_page pcsr (\<lambda>p. Replace p (ILine pcsr) rgdata fFlagsLine))"

text \<open>The length of the prefix is that of the current node, its bytes are those of the old prefix.\<close>

definition NDShrinkCbPrefix :: "FUCB \<Rightarrow> CSR \<Rightarrow> DATA \<Rightarrow> nat \<Rightarrow> CSR option" where
  "NDShrinkCbPrefix pfucb pcsr pdataOldPrefix cbPrefixNew =
     (let kdf = fetch (csr_cpage pcsr) (kdfCurr pfucb);
          kdf = (if cbPrefixNew > 0 then NDISetCompressed kdf else NDIResetCompressed kdf);
          kdf = kdf\<lparr>key := (key kdf)\<lparr>prefix := take (unat (cb (prefix (key (kdfCurr pfucb))))) pdataOldPrefix\<rparr>\<rparr>
      in case CdataNDIPrefixAndKeydataflagsToDataflags kdf (word_of_nat cbPrefixNew) of (rgdata, fFlagsLine) \<Rightarrow>
           lift_page pcsr (\<lambda>p. Replace p (ILine pcsr) rgdata fFlagsLine))"

section \<open>Operations with logging\<close>

definition ErrNDInsert :: "ND_ENV \<Rightarrow> FUCB \<Rightarrow> CSR \<Rightarrow> DATA KEYDATAFLAGS \<Rightarrow> DIRFLAG \<Rightarrow> (FUCB \<times> CSR \<times> JET_ERR) option" where
  "ErrNDInsert env pfucb pcsr kdf dirflag =
     (let cbReq = CbNDNodeSizeCompressed kdf;
          fShort = (\<lambda>p. int cbReq > int (CbPageFree p) - int (cbUncommittedFree (pghdr p)));
          p = csr_cpage pcsr
      in case (if fShort p then FNDFreePageSpace env (fFUCBUnique pfucb) p cbReq else Some (p, True)) of
           None \<Rightarrow> None
         | Some (p, _) \<Rightarrow>
             let pcsr = pcsr\<lparr>csr_cpage := p\<rparr> in
             if fShort p then Some (pfucb, pcsr, JET_errDatabaseCorrupted)
             else if csr_iline pcsr < 0 \<or> csr_iline pcsr > Clines p then Some (pfucb, pcsr, JET_errBadLineCount)
             else
               case (if fLogging env dirflag then ErrLG env p else (Dirty env p, JET_errSuccess)) of (p, err) \<Rightarrow>
                 let pcsr = pcsr\<lparr>csr_cpage := p\<rparr> in
                 if is_error err then Some (pfucb, pcsr, err)
                 else
                   case NDInsert pfucb pcsr (if fVersion env dirflag then kdf\<lparr>fFlags := fFlags kdf OR fNDVersion\<rparr> else kdf) of
                     None \<Rightarrow> None
                   | Some (pfucb, pcsr) \<Rightarrow> map_option (\<lambda>pfucb. (pfucb, pcsr, err)) (NDGet pfucb pcsr))"

definition ErrNDFlagInsert :: "ND_ENV \<Rightarrow> FUCB \<Rightarrow> CSR \<Rightarrow> DIRFLAG \<Rightarrow> (FUCB \<times> CSR \<times> JET_ERR) option" where
  "ErrNDFlagInsert env pfucb pcsr dirflag =
     (case NDGet pfucb pcsr of
        None \<Rightarrow> None
      | Some pfucb \<Rightarrow>
          case log_or_dirty env dirflag (csr_cpage pcsr) of (p, err) \<Rightarrow>
            let pcsr = pcsr\<lparr>csr_cpage := p\<rparr> in
            if is_error err then Some (pfucb, pcsr, err)
            else
              case Option.bind (NDIResetFlag pcsr fNDDeleted) (\<lambda>pcsr. if fVersion env dirflag then NDISetFlag pcsr fNDVersion else Some pcsr) of
                None \<Rightarrow> None
              | Some pcsr \<Rightarrow> map_option (\<lambda>pfucb. (pfucb, pcsr, err)) (NDGet pfucb pcsr))"

definition ErrNDFlagDelete :: "ND_ENV \<Rightarrow> CSR \<Rightarrow> DIRFLAG \<Rightarrow> (CSR \<times> JET_ERR) option" where
  "ErrNDFlagDelete env pcsr dirflag =
     (case log_or_dirty env dirflag (csr_cpage pcsr) of (p, err) \<Rightarrow>
        let pcsr = pcsr\<lparr>csr_cpage := p\<rparr> in
        if is_error err then Some (pcsr, err)
        else map_option (\<lambda>pcsr. (pcsr, err)) (NDISetFlag pcsr (fNDDeleted OR (if fVersion env dirflag then fNDVersion else 0))))"

definition ErrNDDelete :: "ND_ENV \<Rightarrow> CSR \<Rightarrow> DIRFLAG \<Rightarrow> CSR \<times> JET_ERR" where
  "ErrNDDelete env pcsr dirflag =
     (case (if fLogging env dirflag then ErrLG env (csr_cpage pcsr) else (Dirty env (csr_cpage pcsr), JET_errSuccess)) of (p, err) \<Rightarrow>
        let pcsr = pcsr\<lparr>csr_cpage := p\<rparr> in
        if is_error err then (pcsr, err) else (NDDelete pcsr, JET_errSuccess))"

text \<open>
  Room for a node that grows: enough free space on the page, or with the space the node itself
  has reserved. The second result is the code of the failure.
\<close>

definition room_to_grow :: "ND_ENV \<Rightarrow> FUCB \<Rightarrow> CPAGE \<Rightarrow> int \<Rightarrow> (CPAGE \<times> JET_ERR) option" where
  "room_to_grow env pfucb p cbReq =
     (if cbReq > 0 then
        case FNDFreePageSpace env (fFUCBUnique pfucb) p (nat cbReq) of
          None \<Rightarrow> None
        | Some (p, fRoom) \<Rightarrow>
            if fRoom then Some (p, JET_errSuccess)
            else
              let cbReserved = CbNDReservedSizeOfNode env pfucb p
              in Some (p, if word_of_int cbReq > cbReserved + word_of_nat (CbPageFree p) - word_of_nat (cbUncommittedFree (pghdr p))
                          then errPMOutOfPageSpace else JET_errSuccess)
      else Some (p, JET_errSuccess))"

text \<open>The replacement itself: \<open>prceReplace\<close> is the version of the old data, if there is one.\<close>

definition replace_node :: "CSR \<Rightarrow> DATA KEYDATAFLAGS \<Rightarrow> USHORT \<Rightarrow> VERREPLACE option \<Rightarrow> int \<Rightarrow> int \<Rightarrow> (CSR \<times> VERREPLACE option) option" where
  "replace_node pcsr kdf le_cbPrefix prceReplace cbDataNew cbDataOld =
     (case CdataNDIPrefixAndKeydataflagsToDataflags kdf le_cbPrefix of (rgdata, fFlagsLine) \<Rightarrow>
        let cbReq = cbDataNew - cbDataOld;
            adjust = (\<lambda>(p, prce). case prce of None \<Rightarrow> (p, None) | Some v \<Rightarrow> (case VERSetCbAdjust p v cbDataNew cbDataOld of (p, v) \<Rightarrow> (p, Some v)));
            (p, prceReplace) = (if cbReq > 0 then adjust (csr_cpage pcsr, prceReplace) else (csr_cpage pcsr, prceReplace))
        in map_option (\<lambda>p. case (if cbReq < 0 then adjust (p, prceReplace) else (p, prceReplace)) of (p, prce) \<Rightarrow> (pcsr\<lparr>csr_cpage := p\<rparr>, prce))
             (Replace p (ILine pcsr) rgdata fFlagsLine))"

text \<open>
  \<open>ErrNDReplace\<close>. The argument \<open>fEmptyDiff\<close> is what \<open>ErrNDILogReplace\<close> reports when it logs only
  the difference of the data: nothing is changed then. Key and flags come from the cursor.
\<close>

definition ErrNDReplace :: "ND_ENV \<Rightarrow> bool \<Rightarrow> DATA KEY \<Rightarrow> FUCB \<Rightarrow> CSR \<Rightarrow> DATA \<Rightarrow> DIRFLAG \<Rightarrow> VERREPLACE option
    \<Rightarrow> (FUCB \<times> CSR \<times> VERREPLACE option \<times> JET_ERR) option" where
  "ErrNDReplace env fEmptyDiff bmCurr_key pfucb pcsr pdata dirflag prceReplace =
     (case NDGet pfucb pcsr of
        None \<Rightarrow> None
      | Some pfucb \<Rightarrow>
          let cbDataOld = sint (cb (data (kdfCurr pfucb))); cbReq = int (length pdata) - cbDataOld in
          case room_to_grow env pfucb (csr_cpage pcsr) cbReq of
            None \<Rightarrow> None
          | Some (p, err) \<Rightarrow>
              let pcsr = pcsr\<lparr>csr_cpage := p\<rparr> in
              if is_error err then Some (pfucb, pcsr, prceReplace, err)
              else if fLogging env dirflag \<and> fEmptyDiff then map_option (\<lambda>pfucb. (pfucb, pcsr, prceReplace, JET_errSuccess)) (NDGet pfucb pcsr)
              else
                case log_or_dirty env dirflag p of (p, err) \<Rightarrow>
                  let pcsr = pcsr\<lparr>csr_cpage := p\<rparr> in
                  if is_error err then Some (pfucb, pcsr, prceReplace, err)
                  else
                    let kdf = \<lparr>key = bmCurr_key, data = pdata,
                               fFlags = fFlags (kdfCurr pfucb) OR (if fVersion env dirflag then fNDVersion else 0)\<rparr>
                    in case replace_node pcsr kdf (ucast (cb (prefix (key (kdfCurr pfucb))))) prceReplace (int (length pdata)) cbDataOld of
                         None \<Rightarrow> None
                       | Some (pcsr, prce) \<Rightarrow> map_option (\<lambda>pfucb. (pfucb, pcsr, prce, err)) (NDGet pfucb pcsr))"

definition ErrNDFlagInsertAndReplaceData :: "ND_ENV \<Rightarrow> FUCB \<Rightarrow> CSR \<Rightarrow> DATA KEYDATAFLAGS \<Rightarrow> DIRFLAG \<Rightarrow> VERREPLACE option
    \<Rightarrow> (FUCB \<times> CSR \<times> VERREPLACE option \<times> JET_ERR) option" where
  "ErrNDFlagInsertAndReplaceData env pfucb pcsr pkdf dirflag prceReplace =
     (case NDGet pfucb pcsr of
        None \<Rightarrow> None
      | Some pfucb \<Rightarrow>
          let cbDataOld = sint (cb (data (kdfCurr pfucb))); cbReq = int (length (data pkdf)) - cbDataOld in
          case room_to_grow env pfucb (csr_cpage pcsr) cbReq of
            None \<Rightarrow> None
          | Some (p, err) \<Rightarrow>
              let pcsr = pcsr\<lparr>csr_cpage := p\<rparr> in
              if is_error err then Some (pfucb, pcsr, prceReplace, err)
              else
                case (if fLogging env dirflag then ErrLG env p else (Dirty env p, JET_errSuccess)) of (p, err) \<Rightarrow>
                  let pcsr = pcsr\<lparr>csr_cpage := p\<rparr> in
                  if is_error err then Some (pfucb, pcsr, prceReplace, err)
                  else
                    let kdf = pkdf\<lparr>fFlags := fFlags (kdfCurr pfucb) OR (if fVersion env dirflag then fNDVersion else 0)\<rparr>
                    in case replace_node pcsr kdf (ucast (cb (prefix (key (kdfCurr pfucb))))) prceReplace (int (length (data pkdf))) cbDataOld of
                         None \<Rightarrow> None
                       | Some (pcsr, prce) \<Rightarrow>
                           case NDIResetFlag pcsr fNDDeleted of
                             None \<Rightarrow> None
                           | Some pcsr \<Rightarrow> map_option (\<lambda>pfucb. (pfucb, pcsr, prce, err)) (NDGet pfucb pcsr))"

text \<open>\<open>ErrNDDelta\<close>, for every width of the number. The old value is returned.\<close>

definition ErrNDDelta :: "ND_ENV \<Rightarrow> CSR \<Rightarrow> nat \<Rightarrow> 'a::len word \<Rightarrow> DIRFLAG \<Rightarrow> (CSR \<times> 'a word \<times> JET_ERR) option" where
  "ErrNDDelta env pcsr cbOffset tDelta dirflag =
     (case NDIGetKeydataflags pgnbcNoChecks (csr_cpage pcsr) (ILine pcsr) of
        None \<Rightarrow> None
      | Some (keydataflags, _) \<Rightarrow>
          case pv (data keydataflags) of
            None \<Rightarrow> None
          | Some pb \<Rightarrow>
              let n = LENGTH('a) div 8;
                  tOld = load_le (subbuf (pb + cbOffset) n (rgb (csr_cpage pcsr))) in
              case log_or_dirty env dirflag (csr_cpage pcsr) of (p, err) \<Rightarrow>
                let pcsr = pcsr\<lparr>csr_cpage := p\<rparr> in
                if is_error err then Some (pcsr, tOld, err)
                else
                  let pcsr = on_page pcsr (\<lambda>p. set_bytes p (pb + cbOffset) (store_le n (tOld + tDelta)))
                  in map_option (\<lambda>pcsr. (pcsr, tOld, err)) (if fVersion env dirflag then NDISetFlag pcsr fNDVersion else Some pcsr))"

end
