(* ===== verification/Node_Header.thy ===== *)
theory Node_Header
  imports Node_Ops
begin

unbundle bit_operations_syntax

text \<open>
  The external header of a root page (\<open>ese/node.cxx\<close>), which packs optional fields behind a byte
  of flags, the reserved tags, and the scrubbing of a page.
\<close>

section \<open>Fields of the external header\<close>

datatype NodeRootField = noderfWhole | noderfSpaceHeader | noderfIsamAutoInc

primrec noderf_value :: "NodeRootField \<Rightarrow> nat" where
  "noderf_value noderfWhole = 0"
| "noderf_value noderfSpaceHeader = 1"
| "noderf_value noderfIsamAutoInc = 2"

definition BNDIGetPersistedNrfFlag :: "NodeRootField \<Rightarrow> BYTE" where
  "BNDIGetPersistedNrfFlag noderf = push_bit (noderf_value noderf - 1) 1"

primrec g_rgcbExternalHeaderSize :: "NodeRootField \<Rightarrow> nat" where
  "g_rgcbExternalHeaderSize noderfWhole = 0"
| "g_rgcbExternalHeaderSize noderfSpaceHeader = sizeof_SPACE_HEADER"
| "g_rgcbExternalHeaderSize noderfIsamAutoInc = 8"

text \<open>The loop from \<open>noderfSpaceHeader\<close> up to the requested field: the bytes of the stored fields before it.\<close>

definition cbPrecedingStoredFields :: "BYTE \<Rightarrow> NodeRootField \<Rightarrow> nat" where
  "cbPrecedingStoredFields fStoredFlag noderfRequested =
     (\<Sum>noderf\<leftarrow>filter (\<lambda>noderf. noderf_value noderf < noderf_value noderfRequested) [noderfSpaceHeader, noderfIsamAutoInc].
        if fStoredFlag AND BNDIGetPersistedNrfFlag noderf \<noteq> 0 then g_rgcbExternalHeaderSize noderf else 0)"

definition GetPtrExternalHeader :: "CPAGE \<Rightarrow> PTR" where
  "GetPtrExternalHeader p = (let line = fst (GetPtr pgnbcNoChecks p 0) in \<lparr>pv = pvLine line, cb = word_of_nat (cbLine line)\<rparr>)"

text \<open>The flags that are stored and where the fields start.\<close>

definition stored_fields :: "CPAGE \<Rightarrow> BYTE \<times> nat option" where
  "stored_fields p =
     (let line = GetPtrExternalHeader p in
      if cb line = 0 then (0, pv line)
      else if cb line = word_of_nat sizeof_SPACE_HEADER then (BNDIGetPersistedNrfFlag noderfSpaceHeader, pv line)
      else (rgb p ! the (pv line), map_option Suc (pv line)))"

definition NDGetPtrExternalHeader :: "CPAGE \<Rightarrow> NodeRootField \<Rightarrow> PTR" where
  "NDGetPtrExternalHeader p noderfRequested =
     (if noderfRequested = noderfWhole then GetPtrExternalHeader p
      else
        let (fStoredFlag, pbCursor) = stored_fields p; fRequestFlag = BNDIGetPersistedNrfFlag noderfRequested in
        if fStoredFlag AND fRequestFlag \<noteq> fRequestFlag then null_PTR
        else \<lparr>pv = map_option (\<lambda>pb. pb + cbPrecedingStoredFields fStoredFlag noderfRequested) pbCursor,
              cb = word_of_nat (g_rgcbExternalHeaderSize noderfRequested)\<rparr>)"

definition NDGetExternalHeader :: "FUCB \<Rightarrow> CSR \<Rightarrow> NodeRootField \<Rightarrow> FUCB" where
  "NDGetExternalHeader pfucb pcsr noderfRequested =
     pfucb\<lparr>kdfCurr := null_kdf\<lparr>data := NDGetPtrExternalHeader (csr_cpage pcsr) noderfRequested\<rparr>\<rparr>"

text \<open>
  The new external header for a field, built in a buffer of 32 bytes. None: the bytes behind the
  field do not fit in the buffer, which the code only asserts.
\<close>

definition build_header :: "CPAGE \<Rightarrow> DATA \<Rightarrow> NodeRootField \<Rightarrow> (JET_ERR + DATA) option" where
  "build_header p pdata noderfRequested =
     (let line = GetPtrExternalHeader p; (fStoredFlag, pb) = stored_fields p;
          start = (case pv line of None \<Rightarrow> 0 | Some ib \<Rightarrow> ib); first = (case pb of None \<Rightarrow> 0 | Some ib \<Rightarrow> ib);
          cbPreceding = cbPrecedingStoredFields fStoredFlag noderfRequested;
          cbField = g_rgcbExternalHeaderSize noderfRequested;
          fRequestFlag = BNDIGetPersistedNrfFlag noderfRequested;
          src = first + cbPreceding + (if fRequestFlag AND fStoredFlag \<noteq> 0 then cbField else 0);
          cbPostceding = start + unat (cb line) - src;
          newData = (fStoredFlag OR fRequestFlag) # subbuf first cbPreceding (rgb p) @ take cbField pdata @ subbuf src cbPostceding (rgb p)
      in if 32 < cbPreceding + 1 \<and> cbPreceding > 0 then Some (Inl JET_errInvalidBufferSize)
         else if 32 < cbPreceding + cbField + 1 then Some (Inl JET_errInvalidBufferSize)
         else if 32 < cbPreceding + cbField + 1 + cbPostceding then None
         else Some (Inr newData))"

definition ErrNDISetExternalHeader :: "ND_ENV \<Rightarrow> CSR \<Rightarrow> DATA \<Rightarrow> DIRFLAG \<Rightarrow> NodeRootField \<Rightarrow> (CSR \<times> JET_ERR) option" where
  "ErrNDISetExternalHeader env pcsr pdata dirflag noderfRequested =
     (if noderfRequested \<noteq> noderfWhole \<and> length pdata \<noteq> g_rgcbExternalHeaderSize noderfRequested then None
      else
        let pcsr = (if \<not> fLogging env dirflag \<and> fDirty dirflag then on_page pcsr (Dirty env) else pcsr);
            p = csr_cpage pcsr; cbHdr = unat (cb (GetPtrExternalHeader p));
            log_and_set = (\<lambda>d. case (if fLogging env dirflag then ErrLG env p else (p, JET_errSuccess)) of (p, err) \<Rightarrow>
              if is_error err then Some (pcsr\<lparr>csr_cpage := p\<rparr>, err)
              else map_option (\<lambda>p. (pcsr\<lparr>csr_cpage := p\<rparr>, JET_errSuccess)) (SetExternalHeader p [d] 0))
        in if noderfRequested = noderfWhole \<or> noderfRequested = noderfSpaceHeader \<and> (cbHdr = sizeof_SPACE_HEADER \<or> cbHdr = 0)
           then log_and_set pdata
           else case build_header p pdata noderfRequested of
                  None \<Rightarrow> None
                | Some (Inl err) \<Rightarrow> Some (pcsr, err)
                | Some (Inr newData) \<Rightarrow> log_and_set newData)"

definition ErrNDSetExternalHeader :: "ND_ENV \<Rightarrow> CSR \<Rightarrow> DATA \<Rightarrow> DIRFLAG \<Rightarrow> NodeRootField \<Rightarrow> (CSR \<times> JET_ERR) option" where
  "ErrNDSetExternalHeader env pcsr pdata dirflag noderfRequested = ErrNDISetExternalHeader env pcsr pdata dirflag noderfRequested"

definition NDSetExternalHeader :: "ND_ENV \<Rightarrow> CSR \<Rightarrow> NodeRootField \<Rightarrow> DATA \<Rightarrow> CSR option" where
  "NDSetExternalHeader env pcsr noderfRequested pdata =
     map_option fst (ErrNDISetExternalHeader env pcsr pdata (fDIRNoLog OR fDIRNoDirty) noderfRequested)"

fun validate_prefixes :: "CPAGE \<Rightarrow> DATA \<Rightarrow> nat list \<Rightarrow> JET_ERR option" where
  "validate_prefixes p pdata [] = Some JET_errSuccess"
| "validate_prefixes p pdata (iline # ilines) =
     (case NDIGetKeydataflags pgnbcNoChecks p iline of
        None \<Rightarrow> None
      | Some (kdfNode, _) \<Rightarrow>
          if sint (cb (prefix (key kdfNode))) > int (length pdata) then Some JET_errLogOperationInconsistentWithDatabase
          else validate_prefixes p pdata ilines)"

definition ErrNDValidateSetExternalHeader :: "CPAGE \<Rightarrow> DATA \<Rightarrow> JET_ERR option" where
  "ErrNDValidateSetExternalHeader p pdata =
     (if FSpaceTree p \<or> FRootPage p then Some JET_errSuccess else validate_prefixes p pdata [0..<nat (Clines p)])"

section \<open>Reserved tags\<close>

text \<open>The first byte of a reserved tag is its identifier. The result is the tag, or -1; None: an empty reserved tag is read.\<close>

fun find_reserved :: "CPAGE \<Rightarrow> BYTE \<Rightarrow> nat list \<Rightarrow> (int \<times> PTR) option" where
  "find_reserved p resvTagId [] = Some (- 1, null_PTR)"
| "find_reserved p resvTagId (itag # itags) =
     (let line = fst (GetPtr pgnbcNoChecks p itag) in
      case pvLine line of
        None \<Rightarrow> None
      | Some pb \<Rightarrow>
          if rgb p ! pb = resvTagId then Some (int itag, \<lparr>pv = Some pb, cb = word_of_nat (cbLine line)\<rparr>)
          else find_reserved p resvTagId itags)"

definition INDIGetReservedTag :: "CPAGE \<Rightarrow> BYTE \<Rightarrow> (int \<times> PTR) option" where
  "INDIGetReservedTag p resvTagId = find_reserved p resvTagId [1..<m_ctagReserved p]"

definition INDIAddReservedTag :: "CPAGE \<Rightarrow> BYTE \<Rightarrow> nat \<Rightarrow> BYTE \<Rightarrow> (CPAGE \<times> int) option" where
  "INDIAddReservedTag p resvTagId cbTag fill =
     (case INDIGetReservedTag p resvTagId of
        None \<Rightarrow> None
      | Some (itagOld, _) \<Rightarrow>
          if itagOld \<ge> 0 then None
          else case IAddReservedTag p cbTag fill of
                 None \<Rightarrow> None
               | Some (p, itag) \<Rightarrow>
                   if itag \<le> 0 then None
                   else case pvLine (fst (GetPtr pgnbcNoChecks p (nat itag))) of
                          None \<Rightarrow> None
                        | Some pb \<Rightarrow> Some (set_bytes p pb [resvTagId], itag))"

definition NDIReplaceReservedTag :: "CPAGE \<Rightarrow> BYTE \<Rightarrow> DATA \<Rightarrow> CPAGE option" where
  "NDIReplaceReservedTag p resvTagId d =
     (case INDIGetReservedTag p resvTagId of
        None \<Rightarrow> None
      | Some (itag, _) \<Rightarrow> if itag > 0 then ReplaceReservedTag p (nat itag) [d] else None)"

section \<open>Scrubbing\<close>

datatype SCRUBOPER = scrubOperNone | scrubOperScrubData | scrubOperScrubLVData

definition chSCRUBDBMaintDeletedDataFill :: BYTE where "chSCRUBDBMaintDeletedDataFill = of_char CHR ''D''"
definition chSCRUBDBMaintUsedPageFreeFill :: BYTE where "chSCRUBDBMaintUsedPageFreeFill = of_char CHR ''Z''"
definition chSCRUBDBMaintUnusedPageFill :: BYTE where "chSCRUBDBMaintUnusedPageFill = of_char CHR ''U''"

text \<open>\<open>ErrRECScrubLVChunk\<close> overwrites a chunk of a long value in place; it is an argument.\<close>

definition scrub_node :: "(DATA \<Rightarrow> DATA) \<Rightarrow> CPAGE \<Rightarrow> nat \<Rightarrow> SCRUBOPER \<Rightarrow> CPAGE option" where
  "scrub_node ErrRECScrubLVChunk p iline oper =
     (case NDIGetKeydataflags pgnbcNoChecks p iline of
        None \<Rightarrow> None
      | Some (kdf, _) \<Rightarrow>
          (case oper of
             scrubOperNone \<Rightarrow> Some p
           | scrubOperScrubData \<Rightarrow>
               Some (ReplaceFlags (set_bytes p (the (pv (data kdf))) (replicate (unat (cb (data kdf))) chSCRUBDBMaintDeletedDataFill))
                       iline (fFlags kdf AND NOT fNDVersion))
           | scrubOperScrubLVData \<Rightarrow>
               Some (ReplaceFlags (set_bytes p (the (pv (data kdf))) (ErrRECScrubLVChunk (fetch_PTR p (data kdf))))
                       iline (fFlags kdf AND NOT fNDVersion))))"

fun scrub_nodes :: "(DATA \<Rightarrow> DATA) \<Rightarrow> nat \<Rightarrow> SCRUBOPER list \<Rightarrow> CPAGE \<Rightarrow> CPAGE option" where
  "scrub_nodes scrubLV iline [] p = Some p"
| "scrub_nodes scrubLV iline (oper # opers) p =
     (case scrub_node scrubLV p iline oper of None \<Rightarrow> None | Some p \<Rightarrow> scrub_nodes scrubLV (Suc iline) opers p)"

definition NDScrubOneUsedPage :: "(DATA \<Rightarrow> DATA) \<Rightarrow> CPAGE \<Rightarrow> SCRUBOPER list \<Rightarrow> CPAGE option" where
  "NDScrubOneUsedPage scrubLV p rgscrubOper =
     (if int (length rgscrubOper) \<noteq> Clines p then None
      else case scrub_nodes scrubLV 0 rgscrubOper p of
             None \<Rightarrow> None
           | Some p \<Rightarrow> OverwriteUnusedSpace p chSCRUBDBMaintUsedPageFreeFill)"

definition ErrNDScrubOneUsedPage :: "ND_ENV \<Rightarrow> (DATA \<Rightarrow> DATA) \<Rightarrow> CPAGE \<Rightarrow> SCRUBOPER list \<Rightarrow> DIRFLAG \<Rightarrow> (CPAGE \<times> JET_ERR) option" where
  "ErrNDScrubOneUsedPage env scrubLV p rgscrubOper dirflag =
     (case (if fLogging env dirflag then ErrLG env p else (DirtyForScrub env p, JET_errSuccess)) of (p, err) \<Rightarrow>
        if is_error err then Some (p, err)
        else map_option (\<lambda>p. (p, err)) (NDScrubOneUsedPage scrubLV p rgscrubOper))"

definition NDScrubOneUnusedPage :: "CPAGE \<Rightarrow> CPAGE option" where
  "NDScrubOneUnusedPage p = OverwriteUnusedSpace (((\<lambda>p. Delete p 0) ^^ nat (Clines p)) p) chSCRUBDBMaintUnusedPageFill"

definition ErrNDScrubOneUnusedPage :: "ND_ENV \<Rightarrow> CPAGE \<Rightarrow> DIRFLAG \<Rightarrow> (CPAGE \<times> JET_ERR) option" where
  "ErrNDScrubOneUnusedPage env p dirflag =
     (case (if fLogging env dirflag then ErrLG env p else (DirtyForScrub env p, JET_errSuccess)) of (p, err) \<Rightarrow>
        if is_error err then Some (p, err) else map_option (\<lambda>p. (p, err)) (NDScrubOneUnusedPage p))"

end
