(* ===== verification/Node_Edit.thy ===== *)
theory Node_Edit
  imports Node_Header Node_Codec
begin

unbundle bit_operations_syntax

text \<open>
  What the operations on nodes do to the list of nodes of a page. The page operations keep the
  flags in the page header and the reserved lines, so the prefix of the page stays; what is left
  is that the pieces of the encoders, put together, decode to the node they were made of.
\<close>

section \<open>The flags of the page\<close>

abbreviation page_flags :: "CPAGE \<Rightarrow> ULONG" where
  "page_flags p \<equiv> hdr_fFlags (pghdr p)"

lemma move_lines_flags: "move_lines is p k = Some (q, e) \<Longrightarrow> page_flags q = page_flags p"
  by (induction "is" p k rule: move_lines.induct) (auto simp: Let_def split: if_splits)

lemma ReorganizeData_flags: "ReorganizeData p = Some q \<Longrightarrow> page_flags q = page_flags p"
  by (auto simp: ReorganizeData_def Let_def move_lines_flags split: option.splits if_splits)

lemma FreeSpace_flags: "FreeSpace p c = Some q \<Longrightarrow> page_flags q = page_flags p"
  by (auto simp: FreeSpace_def ReorganizeData_flags split: option.splits if_splits)

lemma SetITagState_flags [simp]: "page_flags (SetITagState p n c) = page_flags p"
  by (simp add: SetITagState_def Let_def)

lemma move_dwords_flags: "page_flags (fst (move_dwords n p k)) = page_flags p"
  by (induction n arbitrary: p k) (simp_all add: move_dword_def)

lemma duff_rounds_flags: "page_flags (duff_rounds p k e) = page_flags p"
proof (induction p k e rule: duff_rounds.induct)
  case (1 p k e)
  show ?case
  proof (cases "k < e")
    case True
    then show ?thesis
      using 1 [OF True, of "fst (move_dwords 8 p k)" "snd (move_dwords 8 p k)"] move_dwords_flags [of 8 p k]
      by (auto simp: duff_rounds.simps [of p k e] split: prod.splits)
  qed (simp add: duff_rounds.simps [of p k e])
qed

lemma ExpandTagArray_flags [simp]: "page_flags (ExpandTagArray p i) = page_flags p"
proof -
  have "page_flags (case move_dwords n p k of (p', k') \<Rightarrow> duff_rounds p' k' e) = page_flags p" for n k e
    using move_dwords_flags [of n p k] by (auto simp: duff_rounds_flags split: prod.splits)
  then show ?thesis by (simp add: ExpandTagArray_def SetITagMicFree_def Let_def)
qed

lemma copy_pieces_flags [simp]: "page_flags (copy_pieces p k ds) = page_flags p"
proof -
  have "page_flags (fst (fold (\<lambda>d (p, k). (set_bytes p k d, k + length d)) ds (p, k))) = page_flags p"
    by (induction ds arbitrary: p k) simp_all
  then show ?thesis by (simp add: copy_pieces_def)
qed

lemma CopyData_flags [simp]: "page_flags (CopyData p i ds) = page_flags p"
  by (simp add: CopyData_def Let_def)

lemma Insert_flags: "Insert p i ds f = Some q \<Longrightarrow> page_flags q = page_flags p"
  by (auto simp: Insert_def InsertTag_def Let_def dest: FreeSpace_flags split: option.splits)

lemma ReplaceTag_flags: "ReplaceTag p i ds f = Some q \<Longrightarrow> page_flags q = page_flags p"
  by (auto simp: ReplaceTag_def Let_def dest!: FreeSpace_flags split: option.splits if_splits)

lemma copy_tags_back_flags [simp]: "page_flags (copy_tags_back p i) = page_flags p"
proof -
  have "page_flags (fold (\<lambda>i p. put_tag p i (get_tag p (i + 1))) xs p) = page_flags p" for xs
    by (induction xs arbitrary: p) simp_all
  then show ?thesis by (simp add: copy_tags_back_def)
qed

lemma Delete_flags [simp]: "page_flags (Delete p i) = page_flags p"
  by (simp add: Delete_def DeleteTag_def Let_def SetITagMicFree_def)

text \<open>What the reading of nodes takes from outside the records.\<close>

definition same_prefix :: "CPAGE \<Rightarrow> CPAGE \<Rightarrow> bool" where
  "same_prefix p q \<longleftrightarrow> FRootPage q = FRootPage p \<and> FSpaceTree q = FSpaceTree p \<and> FLeafPage q = FLeafPage p
     \<and> reserved_lines q = reserved_lines p \<and> m_fSmallFormat q = m_fSmallFormat p"

lemma same_prefixI:
  "page_flags q = page_flags p \<Longrightarrow> reserved_lines q = reserved_lines p \<Longrightarrow> m_fSmallFormat q = m_fSmallFormat p \<Longrightarrow> same_prefix p q"
  by (simp add: same_prefix_def FRootPage_def FSpaceTree_def FLeafPage_def)

lemma reserved_0:
  assumes "page_inv p"
  shows "reserved_lines p \<noteq> []" "line_bytes p 0 = fst (hd (reserved_lines p))"
proof -
  have n: "1 \<le> m_ctagReserved p" "m_ctagReserved p \<le> m_itagMicFree p" using inv_facts(1,2) [OF assms] .
  then show "reserved_lines p \<noteq> []" by (auto simp: reserved_lines_def simp flip: length_0_conv)
  then have "hd (reserved_lines p) = line p 0"
    using n by (simp add: hd_conv_nth) (simp add: reserved_lines_def lines_def)
  then show "line_bytes p 0 = fst (hd (reserved_lines p))" by (simp add: line_def)
qed

lemma same_prefix_bytes: "same_prefix p q \<Longrightarrow> page_inv p \<Longrightarrow> page_inv q \<Longrightarrow> prefix_bytes q = prefix_bytes p"
  by (simp add: prefix_bytes_def same_prefix_def reserved_0)

lemma same_prefix_trans: "same_prefix p q \<Longrightarrow> same_prefix q r \<Longrightarrow> same_prefix p r"
  by (simp add: same_prefix_def)

section \<open>Decoding what was encoded\<close>

lemma stamp_cases: "stamp b (Suc 0) f (x # y # bs) = x # (if b then y else (y AND 0x1f) OR push_bit 5 (ucast f)) # bs"
  by (simp add: stamp_def)

lemma key_mask: "usNDCbKeyMask = mask 13"
  by (simp add: usNDCbKeyMask_def mask_eq_exp_minus_1)

lemma key_len_stamp: "key_len (x # ((y AND 0x1f) OR push_bit 5 z) # bs) 0 = key_len (x # y # bs) 0"
proof -
  have m: "(0x1f :: BYTE) = mask 5" by (simp add: mask_eq_exp_minus_1)
  have "(load_le [x, (y AND 0x1f) OR push_bit 5 z] AND mask 13 :: USHORT) = load_le [x, y] AND mask 13"
    unfolding m by (rule bit_word_eqI) (auto simp: bit_simps bit_USHORT_byte)
  then show ?thesis by (simp add: key_len_def key_mask subbuf_def)
qed

lemma record_cases:
  assumes "f < 8"
  obtains y' where "record_of b ([x # y # bs], f) = (x # y' # bs, f)" "key_len (x # y' # bs) 0 = key_len (x # y # bs) 0"
proof (cases b)
  case True
  then show thesis using that [of y] by (simp add: record_of_def new_line_def stamp_cases)
next
  case False
  then show thesis
    using that [of "(y AND 0x1f) OR push_bit 5 (ucast f)"] key_len_stamp line_flags_high [OF assms]
    by (simp add: record_of_def new_line_def stamp_cases)
qed

lemma node_of_record:
  assumes "f < 8" and "2 \<le> length bs"
  shows "node_of hdr (record_of b ([bs], f)) = node_of hdr (bs, f)" "node_ok hdr (record_of b ([bs], f)) \<longleftrightarrow> node_ok hdr (bs, f)"
proof -
  obtain x y cs where bs: "bs = x # y # cs" using assms(2) by (auto simp: numeral_2_eq_2 Suc_le_length_iff)
  obtain y' where r: "record_of b ([bs], f) = (x # y' # cs, f)" "key_len (x # y' # cs) 0 = key_len (x # y # cs) 0"
    using record_cases [OF assms(1)] bs by metis
  have behind: "key_len (x # y' # cs) (Suc (Suc k)) = key_len (x # y # cs) (Suc (Suc k))" for k by (simp add: key_len_def subbuf_def)
  have "cb_prefix (x # y' # cs, f) = cb_prefix (x # y # cs, f)" "cb_suffix (x # y' # cs, f) = cb_suffix (x # y # cs, f)"
    using r(2) behind [of 0] by (simp_all add: cb_prefix_def cb_suffix_def key_offset_def cbPrefixOverhead_def cbKeyCount_def numeral_2_eq_2)
  then show "node_of hdr (record_of b ([bs], f)) = node_of hdr (bs, f)" "node_ok hdr (record_of b ([bs], f)) \<longleftrightarrow> node_ok hdr (bs, f)"
    unfolding r(1) unfolding bs
    by (simp_all add: node_of_def node_ok_def data_offset_def cbKeyCount_def numeral_2_eq_2 subbuf_def)
qed

lemma key_len_store:
  assumes "n < 8192"
  shows "key_len (store_le 2 (word_of_nat n :: USHORT) @ bs) 0 = n"
proof -
  have "subbuf 0 2 (store_le 2 (word_of_nat n :: USHORT) @ bs) = store_le 2 (word_of_nat n :: USHORT)" by simp
  then have "key_len (store_le 2 (word_of_nat n :: USHORT) @ bs) 0 = unat ((word_of_nat n :: USHORT) AND mask 13)"
    unfolding key_len_def key_mask by simp
  also have "\<dots> = take_bit 13 n" by (simp add: unsigned_take_bit_eq unsigned_of_nat flip: take_bit_eq_mask)
  finally show ?thesis using assms by (simp add: take_bit_nat_eq_self)
qed

lemma key_len_shift: "key_len (xs @ bs) (length xs) = key_len bs 0"
  by (simp add: key_len_def subbuf_def)

text \<open>A line made of the lengths, a suffix and data.\<close>

lemma node_of_plain:
  assumes "\<not> compressed f" "length s < 8192"
  shows "node_of hdr (store_le 2 (word_of_nat (length s) :: USHORT) @ s @ d, f) = \<lparr>key = \<lparr>prefix = [], suffix = s\<rparr>, data = d, fFlags = f\<rparr>"
    "node_ok hdr (store_le 2 (word_of_nat (length s) :: USHORT) @ s @ d, f) \<longleftrightarrow> d \<noteq> []"
  using key_len_store [OF assms(2), of "s @ d"] assms(1)
  by (simp_all add: node_of_def node_ok_def data_offset_def cb_prefix_def cb_suffix_def key_offset_def cbKeyCount_def subbuf_def)

lemma node_of_compressed:
  assumes "compressed f" "length s < 8192" "c < 8192"
  shows "node_of hdr (store_le 2 (word_of_nat c :: USHORT) @ store_le 2 (word_of_nat (length s) :: USHORT) @ s @ d, f)
      = \<lparr>key = \<lparr>prefix = take c hdr, suffix = s\<rparr>, data = d, fFlags = f\<rparr>"
    "node_ok hdr (store_le 2 (word_of_nat c :: USHORT) @ store_le 2 (word_of_nat (length s) :: USHORT) @ s @ d, f)
      \<longleftrightarrow> c \<le> length hdr \<and> d \<noteq> []"
proof -
  let ?bs = "store_le 2 (word_of_nat c :: USHORT) @ store_le 2 (word_of_nat (length s) :: USHORT) @ s @ d"
  have "key_len ?bs 0 = c" by (rule key_len_store [OF assms(3)])
  moreover have "key_len ?bs 2 = length s"
    using key_len_shift [of "store_le 2 (word_of_nat c :: USHORT)" "store_le 2 (word_of_nat (length s) :: USHORT) @ s @ d"]
      key_len_store [OF assms(2), of "s @ d"] by simp
  ultimately show "node_of hdr (?bs, f) = \<lparr>key = \<lparr>prefix = take c hdr, suffix = s\<rparr>, data = d, fFlags = f\<rparr>"
    "node_ok hdr (?bs, f) \<longleftrightarrow> c \<le> length hdr \<and> d \<noteq> []"
    using assms(1)
    by (simp_all add: node_of_def node_ok_def data_offset_def cb_prefix_def cb_suffix_def key_offset_def cbKeyCount_def
        cbPrefixOverhead_def subbuf_def)
qed

text \<open>The node a line with a prefix of \<open>c\<close> bytes stands for.\<close>

definition stored_flags :: "nat \<Rightarrow> USHORT \<Rightarrow> USHORT" where
  "stored_flags c f = (if 0 < c then f OR fNDCompressed else f AND NOT fNDCompressed)"

definition stored_node :: "DATA \<Rightarrow> nat \<Rightarrow> DATA KEYDATAFLAGS \<Rightarrow> DATA KEYDATAFLAGS" where
  "stored_node hdr c kdf = \<lparr>key = \<lparr>prefix = take c hdr, suffix = drop c (key_bytes (key kdf))\<rparr>, data = data kdf, fFlags = stored_flags c (fFlags kdf)\<rparr>"

definition encodable :: "nat \<Rightarrow> DATA KEYDATAFLAGS \<Rightarrow> bool" where
  "encodable c kdf \<longleftrightarrow> c \<le> length (key_bytes (key kdf)) \<and> c < 8192 \<and> length (key_bytes (key kdf)) < 8192 + c \<and> fFlags kdf < 8"

definition stored_size :: "nat \<Rightarrow> DATA KEYDATAFLAGS \<Rightarrow> nat" where
  "stored_size c kdf = (if 0 < c then 4 else 2) + (length (key_bytes (key kdf)) - c) + length (data kdf)"

lemma bit_Compressed: "bit fNDCompressed n \<longleftrightarrow> n = 2"
proof -
  have e: "fNDCompressed = 2 ^ 2" by (simp add: fNDCompressed_def)
  show ?thesis unfolding e by (simp only: bit_exp_iff possible_bit_word) auto
qed

lemma compressed_bit: "compressed f \<longleftrightarrow> bit f 2"
proof -
  have "bit (f AND fNDCompressed) n \<longleftrightarrow> bit f 2 \<and> n = 2" for n by (auto simp: bit_simps bit_Compressed)
  then show ?thesis unfolding compressed_def by (metis bit_0_eq bot_apply bot_bool_def bit_word_eqI)
qed

lemma compressed_flags [simp]: "compressed (f OR fNDCompressed)" "\<not> compressed (f AND NOT fNDCompressed)"
  by (simp_all add: compressed_bit bit_simps bit_Compressed)

lemma compressed_stored [simp]: "compressed (stored_flags c f) \<longleftrightarrow> 0 < c"
  by (simp add: stored_flags_def)

lemma or_less_8: "f < 8 \<Longrightarrow> g < 8 \<Longrightarrow> f OR g < (8 :: USHORT)"
proof -
  assume a: "f < 8" "g < 8"
  have "bit w n \<Longrightarrow> w < 8 \<Longrightarrow> n < 3" for w :: USHORT and n
    using bit_nat_bound [of "unat w" 3 n] by (simp add: word_less_nat_alt bit_unsigned_iff)
  then show "f OR g < 8" using a by (intro three_bits) (auto simp: bit_simps)
qed

lemma stored_flags_less: "f < 8 \<Longrightarrow> stored_flags c f < 8"
  by (simp add: stored_flags_def and_less or_less_8 fNDCompressed_def)

lemma encode_cbPrefix:
  assumes "encodable c kdf"
  shows "concat (fst (CdataNDIPrefixAndKeydataflagsToDataflags kdf (word_of_nat c)))
      = (if 0 < c then store_le 2 (word_of_nat c :: USHORT) else []) @
        store_le 2 (word_of_nat (length (drop c (key_bytes (key kdf)))) :: USHORT) @ drop c (key_bytes (key kdf)) @ data kdf"
    "snd (CdataNDIPrefixAndKeydataflagsToDataflags kdf (word_of_nat c)) = stored_flags c (fFlags kdf)"
proof -
  have c: "unat (word_of_nat c :: USHORT) = c" using assms by (simp add: encodable_def unsigned_of_nat take_bit_nat_eq_self)
  then have pos: "(word_of_nat c :: USHORT) > 0 \<longleftrightarrow> 0 < c" by (simp add: word_less_nat_alt)
  have le: "c \<le> length (prefix (key kdf)) + length (suffix (key kdf))" using assms by (simp add: encodable_def key_bytes_def)
  show "concat (fst (CdataNDIPrefixAndKeydataflagsToDataflags kdf (word_of_nat c)))
      = (if 0 < c then store_le 2 (word_of_nat c :: USHORT) else []) @
        store_le 2 (word_of_nat (length (drop c (key_bytes (key kdf)))) :: USHORT) @ drop c (key_bytes (key kdf)) @ data kdf"
    using le by (auto simp: CdataNDIPrefixAndKeydataflagsToDataflags_def Let_def c pos key_bytes_def of_nat_diff algebra_simps)
  show "snd (CdataNDIPrefixAndKeydataflagsToDataflags kdf (word_of_nat c)) = stored_flags c (fFlags kdf)"
    by (auto simp: CdataNDIPrefixAndKeydataflagsToDataflags_def Let_def c pos stored_flags_def)
qed

text \<open>The pieces of a node make a line that decodes to the node.\<close>

lemma encode_node:
  assumes "encodable c kdf" and "CdataNDIPrefixAndKeydataflagsToDataflags kdf (word_of_nat c) = (d, f)"
  shows "node_of hdr (record_of b (d, f)) = stored_node hdr c kdf"
    "node_ok hdr (record_of b (d, f)) \<longleftrightarrow> c \<le> length hdr \<and> data kdf \<noteq> []"
    "f < 8" "length (concat d) = stored_size c kdf"
proof -
  have d: "concat d = (if 0 < c then store_le 2 (word_of_nat c :: USHORT) else []) @
      store_le 2 (word_of_nat (length (drop c (key_bytes (key kdf)))) :: USHORT) @ drop c (key_bytes (key kdf)) @ data kdf"
    "f = stored_flags c (fFlags kdf)"
    using encode_cbPrefix [OF assms(1)] assms(2) by simp_all
  show f: "f < 8" using assms(1) by (simp add: d(2) encodable_def stored_flags_less)
  show "length (concat d) = stored_size c kdf" by (simp add: d(1) stored_size_def)
  have s: "length (drop c (key_bytes (key kdf))) < 8192" "c < 8192" using assms(1) by (auto simp: encodable_def)
  have n: "node_of hdr (record_of b (d, f)) = node_of hdr (concat d, f)" "node_ok hdr (record_of b (d, f)) \<longleftrightarrow> node_ok hdr (concat d, f)"
    using node_of_record [OF f, of "concat d" hdr b] unfolding record_of_concat by (simp_all add: d(1))
  have "compressed f \<longleftrightarrow> 0 < c" by (simp add: d(2))
  then show "node_of hdr (record_of b (d, f)) = stored_node hdr c kdf" "node_ok hdr (record_of b (d, f)) \<longleftrightarrow> c \<le> length hdr \<and> data kdf \<noteq> []"
    unfolding n unfolding d(1)
    using node_of_compressed [OF _ s, of f hdr "data kdf"] node_of_plain [OF _ s(1), of f hdr "data kdf"]
    by (cases "0 < c"; simp add: stored_node_def d(2))+
qed

text \<open>The second encoder is the first one with the length of the key's own prefix.\<close>

lemma encode_own_prefix:
  assumes "compressed (fFlags kdf) \<longleftrightarrow> prefix (key kdf) \<noteq> []" and "encodable (length (prefix (key kdf))) kdf"
  shows "\<exists>d f. CdataNDIKeydataflagsToDataflags kdf = (d, f) \<and> f < 8
    \<and> node_of hdr (record_of b (d, f)) = kdf\<lparr>key := (key kdf)\<lparr>prefix := take (length (prefix (key kdf))) hdr\<rparr>\<rparr>
    \<and> (node_ok hdr (record_of b (d, f)) \<longleftrightarrow> length (prefix (key kdf)) \<le> length hdr \<and> data kdf \<noteq> [])
    \<and> length (concat d) = stored_size (length (prefix (key kdf))) kdf"
proof -
  let ?c = "length (prefix (key kdf))" and ?f = "fFlags kdf"
  have flags: "stored_flags ?c ?f = ?f"
    using assms(1) unfolding stored_flags_def compressed_bit by (auto intro!: bit_word_eqI simp: bit_simps bit_Compressed)
  obtain d f where df: "CdataNDIPrefixAndKeydataflagsToDataflags kdf (word_of_nat ?c) = (d, f)"
    by (cases "CdataNDIPrefixAndKeydataflagsToDataflags kdf (word_of_nat ?c)")
  note e = encode_node [OF assms(2) df]
  obtain d' f' where df': "CdataNDIKeydataflagsToDataflags kdf = (d', f')" by (cases "CdataNDIKeydataflagsToDataflags kdf")
  have "f = ?f" "f' = ?f" using encode_cbPrefix(2) [OF assms(2)] df df' flags by (auto simp: CdataNDIKeydataflagsToDataflags_def Let_def)
  moreover have "concat d' = concat d"
    using encode_cbPrefix(1) [OF assms(2)] df df' by (auto simp: CdataNDIKeydataflagsToDataflags_def Let_def key_bytes_def)
  ultimately have "record_of b (d', f') = record_of b (d, f)" by (simp add: record_of_def)
  moreover have "stored_node hdr ?c kdf = kdf\<lparr>key := (key kdf)\<lparr>prefix := take ?c hdr\<rparr>\<rparr>"
    by (simp add: stored_node_def flags key_bytes_def)
  ultimately show ?thesis using e df' \<open>concat d' = concat d\<close> \<open>f = ?f\<close> \<open>f' = ?f\<close> by auto
qed

section \<open>Editing the nodes of a page\<close>

lemma nodes_same_prefix:
  assumes "page_inv p" "page_inv q" "same_prefix p q"
  shows "nodes q = map (node_of (prefix_bytes p)) (records q)"
    "node_page q \<longleftrightarrow> list_all (node_ok (prefix_bytes p)) (records q)"
  using same_prefix_bytes [OF assms(3,1,2)] assms(2) by (simp_all add: nodes_def node_page_def)

definition node_size :: "DATA KEYDATAFLAGS \<Rightarrow> nat" where
  "node_size kdf = (if compressed (fFlags kdf) then 4 else 2) + length (suffix (key kdf)) + length (data kdf)"

lemma node_size_line:
  assumes "node_ok hdr l"
  shows "node_size (node_of hdr l) = line_size l"
  using assms
  by (auto simp: node_ok_def node_size_def node_of_def line_size_def data_offset_def key_offset_def cbKeyCount_def cbPrefixOverhead_def)

lemma node_size_stored [simp]: "node_size (stored_node hdr c kdf) = stored_size c kdf"
  by (simp add: node_size_def stored_node_def stored_size_def)

definition storable :: "DATA \<Rightarrow> DATA KEYDATAFLAGS \<times> nat \<Rightarrow> bool" where
  "storable hdr = (\<lambda>(kdf, c). encodable c kdf \<and> c \<le> length hdr \<and> data kdf \<noteq> [])"

lemma insert_pieces:
  assumes np: "node_page p" and f: "f < 8" and i: "i \<le> length (nodes p)" and room: "length (concat d) + 4 \<le> cbFree (pghdr p)"
    and n: "node_of (prefix_bytes p) (record_of (m_fSmallFormat p) (d, f)) = kdf" "node_ok (prefix_bytes p) (record_of (m_fSmallFormat p) (d, f))"
  shows "\<exists>q. Insert p i d f = Some q \<and> node_page q \<and> same_prefix p q \<and> nodes q = take i (nodes p) @ kdf # drop i (nodes p)
    \<and> cbFree (pghdr q) = cbFree (pghdr p) - (length (concat d) + 4)"
proof -
  have inv: "page_inv p" using np by (simp add: node_page_def)
  obtain q where q: "Insert p i d f = Some q" "page_inv q" "reserved_lines q = reserved_lines p" "m_fSmallFormat q = m_fSmallFormat p"
    "records q = take i (records p) @ record_of (m_fSmallFormat p) (d, f) # drop i (records p)"
    "cbFree (pghdr q) = cbFree (pghdr p) - (length (concat d) + 4)"
    using Insert_ok [OF inv f, of i d] i room by auto
  have s: "same_prefix p q" using same_prefixI [OF Insert_flags [OF q(1)] q(3,4)] .
  have "list_all (node_ok (prefix_bytes p)) (records q)"
    using np n(2) by (auto simp: q(5) node_page_def list_all_iff dest: in_set_takeD in_set_dropD)
  then have "node_page q" by (simp add: nodes_same_prefix [OF inv q(2) s])
  moreover have "nodes q = take i (nodes p) @ kdf # drop i (nodes p)"
    unfolding nodes_same_prefix(1) [OF inv q(2) s] q(5) by (simp add: n(1) nodes_def take_map drop_map)
  ultimately show ?thesis using q(1,6) s by blast
qed

lemma replace_pieces:
  assumes np: "node_page p" and f: "f < 8" and i: "i < length (nodes p)" and room: "length (concat d) \<le> node_size (nodes p ! i) + cbFree (pghdr p)"
    and n: "node_of (prefix_bytes p) (record_of (m_fSmallFormat p) (d, f)) = kdf" "node_ok (prefix_bytes p) (record_of (m_fSmallFormat p) (d, f))"
  shows "\<exists>q. Replace p i d f = Some q \<and> node_page q \<and> same_prefix p q \<and> nodes q = (nodes p)[i := kdf]
    \<and> cbFree (pghdr q) = cbFree (pghdr p) + node_size (nodes p ! i) - length (concat d)"
proof -
  have inv: "page_inv p" using np by (simp add: node_page_def)
  have sz: "line_size (records p ! i) = node_size (nodes p ! i)"
    using np i node_size_line by (simp add: nodes_def node_page_def list_all_length)
  obtain q where q: "Replace p i d f = Some q" "page_inv q" "reserved_lines q = reserved_lines p" "m_fSmallFormat q = m_fSmallFormat p"
    "records q = (records p)[i := record_of (m_fSmallFormat p) (d, f)]"
    "cbFree (pghdr q) = cbFree (pghdr p) + node_size (nodes p ! i) - length (concat d)"
    using Replace_ok [OF inv f, of i d] i room by (auto simp: sz)
  have s: "same_prefix p q" using same_prefixI [OF _ q(3,4)] ReplaceTag_flags q(1) by (auto simp: Replace_def)
  have "list_all (node_ok (prefix_bytes p)) (records q)"
    using np n(2) i by (auto simp: q(5) node_page_def list_all_length nth_list_update)
  then have "node_page q" by (simp add: nodes_same_prefix [OF inv q(2) s])
  moreover have "nodes q = (nodes p)[i := kdf]"
    unfolding nodes_same_prefix(1) [OF inv q(2) s] q(5) by (simp add: n(1) nodes_def map_update)
  ultimately show ?thesis using q(1,6) s by blast
qed

lemma node_insert_ok:
  assumes np: "node_page p" and ok: "storable (prefix_bytes p) (kdf, c)" and i: "i \<le> length (nodes p)"
    and room: "stored_size c kdf + 4 \<le> cbFree (pghdr p)" and e: "CdataNDIPrefixAndKeydataflagsToDataflags kdf (word_of_nat c) = (d, f)"
  shows "\<exists>q. Insert p i d f = Some q \<and> node_page q \<and> same_prefix p q
    \<and> nodes q = take i (nodes p) @ stored_node (prefix_bytes p) c kdf # drop i (nodes p)
    \<and> cbFree (pghdr q) = cbFree (pghdr p) - (stored_size c kdf + 4)"
proof -
  have ec: "encodable c kdf" "c \<le> length (prefix_bytes p)" "data kdf \<noteq> []" using ok by (simp_all add: storable_def)
  note n = encode_node [OF ec(1) e]
  show ?thesis using insert_pieces [OF np n(3) i _ n(1)] n(2,4) ec room by simp
qed

lemma node_replace_ok:
  assumes np: "node_page p" and ok: "storable (prefix_bytes p) (kdf, c)" and i: "i < length (nodes p)"
    and room: "stored_size c kdf \<le> node_size (nodes p ! i) + cbFree (pghdr p)" and e: "CdataNDIPrefixAndKeydataflagsToDataflags kdf (word_of_nat c) = (d, f)"
  shows "\<exists>q. Replace p i d f = Some q \<and> node_page q \<and> same_prefix p q \<and> nodes q = (nodes p)[i := stored_node (prefix_bytes p) c kdf]
    \<and> cbFree (pghdr q) = cbFree (pghdr p) + node_size (nodes p ! i) - stored_size c kdf"
proof -
  have ec: "encodable c kdf" "c \<le> length (prefix_bytes p)" "data kdf \<noteq> []" using ok by (simp_all add: storable_def)
  note n = encode_node [OF ec(1) e]
  show ?thesis using replace_pieces [OF np n(3) i _ n(1)] n(2,4) ec room by simp
qed

lemma node_delete_ok:
  assumes np: "node_page p" and i: "i < length (nodes p)"
  shows "node_page (Delete p i)" "same_prefix p (Delete p i)" "nodes (Delete p i) = take i (nodes p) @ drop (Suc i) (nodes p)"
    "cbFree (pghdr (Delete p i)) = cbFree (pghdr p) + node_size (nodes p ! i) + 4"
proof -
  have inv: "page_inv p" using np by (simp add: node_page_def)
  have sz: "line_size (records p ! i) = node_size (nodes p ! i)"
    using np i node_size_line by (simp add: nodes_def node_page_def list_all_length)
  have d: "page_inv (Delete p i)" "records (Delete p i) = take i (records p) @ drop (Suc i) (records p)"
    "reserved_lines (Delete p i) = reserved_lines p" "m_fSmallFormat (Delete p i) = m_fSmallFormat p"
    "cbFree (pghdr (Delete p i)) = cbFree (pghdr p) + node_size (nodes p ! i) + 4"
    using Delete_ok [OF inv, of i] i by (auto simp: sz)
  show "cbFree (pghdr (Delete p i)) = cbFree (pghdr p) + node_size (nodes p ! i) + 4" by (rule d(5))
  show s: "same_prefix p (Delete p i)" using same_prefixI [OF _ d(3,4)] by simp
  have "list_all (node_ok (prefix_bytes p)) (records (Delete p i))"
    using np by (auto simp: d(2) node_page_def list_all_iff dest: in_set_takeD in_set_dropD)
  then show "node_page (Delete p i)" by (simp add: nodes_same_prefix [OF inv d(1) s])
  show "nodes (Delete p i) = take i (nodes p) @ drop (Suc i) (nodes p)"
    unfolding nodes_same_prefix(1) [OF inv d(1) s] d(2) by (simp add: nodes_def take_map drop_map)
qed

text \<open>Nodes as the records of a \<open>line_store\<close>: an insertion or replacement is given a node and the length of its prefix.\<close>

definition insert_node :: "CPAGE \<Rightarrow> nat \<Rightarrow> DATA KEYDATAFLAGS \<times> nat \<Rightarrow> CPAGE option" where
  "insert_node p i d = map_option csr_cpage (NDInsert_cbPrefix \<lparr>csr_cpage = p, csr_iline = int i\<rparr> (fst d) (snd d))"

definition change_node :: "CPAGE \<Rightarrow> nat \<Rightarrow> DATA KEYDATAFLAGS \<times> nat \<Rightarrow> CPAGE option" where
  "change_node p i d = map_option (csr_cpage \<circ> fst) (replace_node \<lparr>csr_cpage = p, csr_iline = int i\<rparr> (fst d) (word_of_nat (snd d)) None 0 0)"

definition delete_node :: "CPAGE \<Rightarrow> nat \<Rightarrow> CPAGE" where
  "delete_node p i = csr_cpage (NDDelete \<lparr>csr_cpage = p, csr_iline = int i\<rparr>)"

interpretation node: line_store node_page nodes "\<lambda>p. cbFree (pghdr p)" prefix_bytes "\<lambda>hdr d. stored_node hdr (snd d) (fst d)"
  "\<lambda>d. stored_size (snd d) (fst d)" node_size storable insert_node change_node delete_node
proof (unfold_locales, goal_cases)
  case (1 p d i)
  obtain pieces f where e: "CdataNDIPrefixAndKeydataflagsToDataflags (fst d) (word_of_nat (snd d)) = (pieces, f)"
    by (cases "CdataNDIPrefixAndKeydataflagsToDataflags (fst d) (word_of_nat (snd d))")
  obtain q where q: "Insert p i pieces f = Some q" "node_page q" "same_prefix p q"
    "nodes q = take i (nodes p) @ stored_node (prefix_bytes p) (snd d) (fst d) # drop i (nodes p)"
    "cbFree (pghdr q) = cbFree (pghdr p) - (stored_size (snd d) (fst d) + 4)"
    using node_insert_ok [OF 1(1) _ 1(3,4) e] 1(2) by auto
  then have "prefix_bytes q = prefix_bytes p" using 1(1) by (intro same_prefix_bytes) (auto simp: node_page_def)
  with q e show ?case by (auto simp: insert_node_def NDInsert_cbPrefix_def lift_page_def ILine_def)
next
  case (2 p d i)
  obtain pieces f where e: "CdataNDIPrefixAndKeydataflagsToDataflags (fst d) (word_of_nat (snd d)) = (pieces, f)"
    by (cases "CdataNDIPrefixAndKeydataflagsToDataflags (fst d) (word_of_nat (snd d))")
  obtain q where q: "Replace p i pieces f = Some q" "node_page q" "same_prefix p q"
    "nodes q = (nodes p)[i := stored_node (prefix_bytes p) (snd d) (fst d)]"
    "cbFree (pghdr q) = cbFree (pghdr p) + node_size (nodes p ! i) - stored_size (snd d) (fst d)"
    using node_replace_ok [OF 2(1) _ 2(3,4) e] 2(2) by auto
  then have "prefix_bytes q = prefix_bytes p" using 2(1) by (intro same_prefix_bytes) (auto simp: node_page_def)
  with q e show ?case by (auto simp: change_node_def replace_node_def ILine_def)
next
  case (3 p i)
  have "prefix_bytes (Delete p i) = prefix_bytes p"
    using node_delete_ok [OF 3] 3(1) by (intro same_prefix_bytes) (auto simp: node_page_def)
  with node_delete_ok [OF 3] show ?case by (simp add: delete_node_def NDDelete_def on_page_def ILine_def)
qed simp

end
