(* ===== verification/Node_Change.thy ===== *)
theory Node_Change
  imports Node_Edit
begin

unbundle bit_operations_syntax

text \<open>
  The operations with logging. Marking a page dirty, logging and the count of uncommitted free
  space touch the header only, and no field the records depend on: the relation \<open>harmless\<close>.
\<close>

section \<open>Harmless changes\<close>

definition harmless :: "CPAGE \<Rightarrow> CPAGE \<Rightarrow> bool" where
  "harmless p q \<longleftrightarrow> q = p\<lparr>pghdr := pghdr q\<rparr> \<and> cbFree (pghdr q) = cbFree (pghdr p) \<and> ibMicFree (pghdr q) = ibMicFree (pghdr p)
     \<and> itagState (pghdr q) = itagState (pghdr p)
     \<and> page_flags q AND NOT fPageScrubbed = page_flags p AND NOT fPageScrubbed"

lemma harmless_refl [simp]: "harmless p p"
  by (simp add: harmless_def)

lemma harmless_trans: "harmless p q \<Longrightarrow> harmless q r \<Longrightarrow> harmless p r"
  unfolding harmless_def by (cases p; cases q; cases r) auto

lemma harmless_uncommitted [simp]: "harmless p (SetCbUncommittedFree p c)" "harmless p (AddUncommittedFreed p c)" "harmless p (ReclaimUncommittedFreed p c)"
  by (simp_all add: harmless_def SetCbUncommittedFree_def AddUncommittedFreed_def ReclaimUncommittedFreed_def upd_hdr_def)

lemma scrubbed_mask: "(f OR g) AND NOT g = f AND NOT g" "(f AND NOT g) AND NOT g = f AND NOT g" for f g :: ULONG
  by (rule bit_word_eqI; auto simp: bit_simps)+

lemma harmless_scrubbed: "harmless p (SetFScrubbedValue p b)"
  by (simp add: harmless_def SetFScrubbedValue_def SetPageFlags_def upd_hdr_def scrubbed_mask)

lemma harmless_dbtime: "harmless p (UpdateDBTime env p)"
  by (simp add: harmless_def UpdateDBTime_def upd_hdr_def)

lemma harmless_Dirty [simp]: "harmless p (Dirty env p)" "harmless p (DirtyForScrub env p)"
  unfolding Dirty_def DirtyForScrub_def using harmless_trans [OF harmless_dbtime harmless_scrubbed] by blast+

lemma harmless_flag:
  assumes "harmless p q" and "f AND fPageScrubbed = 0"
  shows "page_flags q AND f = page_flags p AND f"
proof -
  have "f AND NOT fPageScrubbed = f"
    using assms(2) by (metis (no_types, opaque_lifting) bit_word_eqI bit_and_iff bit_not_iff bit_0_eq bot_apply bot_bool_def bit_imp_possible_bit)
  then have "\<And>w. w AND f = (w AND NOT fPageScrubbed) AND f" by (simp add: and.assoc and.commute and.left_commute)
  then show ?thesis using assms(1) by (metis harmless_def)
qed

lemma harmless_page:
  assumes "harmless p q"
  shows "page_inv q \<longleftrightarrow> page_inv p" "lines q = lines p" "records q = records p" "reserved_lines q = reserved_lines p"
    "m_fSmallFormat q = m_fSmallFormat p" "cbFree (pghdr q) = cbFree (pghdr p)" "m_itagMicFree q = m_itagMicFree p"
    "m_ctagReserved q = m_ctagReserved p" "rgb q = rgb p" "Cb q = Cb p" "Ib q = Ib p"
proof -
  obtain h where q: "q = upd_hdr (\<lambda>_. h) p" "cbFree h = cbFree (pghdr p)" "ibMicFree h = ibMicFree (pghdr p)"
    using assms unfolding harmless_def upd_hdr_def by metis
  show "lines q = lines p" "records q = records p" "reserved_lines q = reserved_lines p" "m_fSmallFormat q = m_fSmallFormat p"
    "cbFree (pghdr q) = cbFree (pghdr p)" "m_itagMicFree q = m_itagMicFree p" "m_ctagReserved q = m_ctagReserved p" "rgb q = rgb p" "Cb q = Cb p" "Ib q = Ib p"
    by (simp_all add: q lines_def records_def reserved_lines_def)
  show "page_inv q \<longleftrightarrow> page_inv p"
    unfolding page_inv_def by (simp add: q CbBuffer_def CbPageHeader_def)
qed

lemma harmless_same_prefix: "harmless p q \<Longrightarrow> same_prefix p q"
  using harmless_flag [of p q fPageRoot] harmless_flag [of p q fPageSpaceTree] harmless_flag [of p q fPageLeaf]
  by (simp add: same_prefix_def FRootPage_def FSpaceTree_def FLeafPage_def harmless_page fPageRoot_def fPageSpaceTree_def fPageLeaf_def fPageScrubbed_def)

lemma harmless_nodes:
  assumes "harmless p q" and "node_page p"
  shows "node_page q" "nodes q = nodes p" "prefix_bytes q = prefix_bytes p"
proof -
  have inv: "page_inv p" "page_inv q" using assms(2) by (simp_all add: node_page_def harmless_page(1) [OF assms(1)])
  show "prefix_bytes q = prefix_bytes p" by (rule same_prefix_bytes [OF harmless_same_prefix [OF assms(1)] inv])
  then show "node_page q" "nodes q = nodes p"
    using assms inv by (simp_all add: node_page_def nodes_def harmless_page)
qed

text \<open>What is expected of the logging routines.\<close>

definition log_harmless :: "ND_ENV \<Rightarrow> bool" where
  "log_harmless env \<longleftrightarrow> (\<forall>p. harmless p (fst (ErrLG env p)))"

lemma harmless_log: "log_harmless env \<Longrightarrow> log_or_dirty env dirflag p = (q, err) \<Longrightarrow> harmless p q"
  by (auto simp: log_or_dirty_def log_harmless_def split: if_splits) (metis fst_conv)

lemma harmless_log_must:
  "log_harmless env \<Longrightarrow> (if fLogging env dirflag then ErrLG env p else (Dirty env p, JET_errSuccess)) = (q, err) \<Longrightarrow> harmless p q"
  by (auto simp: log_harmless_def split: if_splits) (metis fst_conv)

section \<open>Flags of a node\<close>

lemma node_of_flags:
  assumes "compressed f \<longleftrightarrow> compressed (snd l)"
  shows "node_of hdr (fst l, f) = (node_of hdr l)\<lparr>fFlags := f\<rparr>" "node_ok hdr (fst l, f) \<longleftrightarrow> node_ok hdr l"
  using assms by (simp_all add: node_of_def node_ok_def cb_prefix_def cb_suffix_def data_offset_def key_offset_def)

lemma node_flags_ok:
  assumes np: "node_page p" and i: "i < length (nodes p)" and f: "f < 8" "compressed f \<longleftrightarrow> compressed (fFlags (nodes p ! i))"
  shows "node_page (ReplaceFlags p i f)" "same_prefix p (ReplaceFlags p i f)" "nodes (ReplaceFlags p i f) = (nodes p)[i := (nodes p ! i)\<lparr>fFlags := f\<rparr>]"
    "cbFree (pghdr (ReplaceFlags p i f)) = cbFree (pghdr p)"
proof -
  let ?k = "i + m_ctagReserved p" and ?q = "ReplaceFlags p i f"
  have inv: "page_inv p" using np by (simp add: node_page_def)
  have k: "?k < m_itagMicFree p" "m_ctagReserved p \<le> ?k" "1 \<le> ?k" using i length_records [OF inv] inv_facts(1) [OF inv] by simp_all
  note r = ReplaceTagFlags_ok [OF inv k(1) f(1), folded ReplaceFlags_def]
  have l: "records p ! i = line p ?k" using nth_records [OF inv] i by simp
  let ?l = "line p ?k"
  have ok: "node_ok (prefix_bytes p) ?l" using np i by (simp add: node_page_def list_all_length l [symmetric])
  have snd_l: "snd ?l = fFlags (nodes p ! i)" using i l by (simp add: nodes_def node_of_def)
  have rec: "records ?q = (records p)[i := record_of (m_fSmallFormat p) ([fst ?l], f)]"
    unfolding records_def r(2,4) using k new_line_record [OF k(3)] by (simp add: drop_update_swap line_def)
  have res: "reserved_lines ?q = reserved_lines p" unfolding reserved_lines_def r(2,4) using k(2) by simp
  have len: "2 \<le> length (fst ?l)" using ok by (simp add: node_ok_def data_offset_def cbKeyCount_def)
  have n: "node_of (prefix_bytes p) (record_of (m_fSmallFormat p) ([fst ?l], f)) = (nodes p ! i)\<lparr>fFlags := f\<rparr>"
    "node_ok (prefix_bytes p) (record_of (m_fSmallFormat p) ([fst ?l], f))"
    using node_of_record [OF f(1) len] node_of_flags [of f ?l "prefix_bytes p"] f(2) ok i l snd_l by (simp_all add: nodes_def)
  show "cbFree (pghdr ?q) = cbFree (pghdr p)" by (rule r(3))
  show s: "same_prefix p ?q" by (rule same_prefixI [OF _ res r(5)]) (simp add: ReplaceFlags_def ReplaceTagFlags_def)
  have "list_all (node_ok (prefix_bytes p)) (records ?q)"
    using np n(2) i by (auto simp: rec node_page_def list_all_length nth_list_update)
  then show "node_page ?q" by (simp add: nodes_same_prefix [OF inv r(1) s])
  show "nodes ?q = (nodes p)[i := (nodes p ! i)\<lparr>fFlags := f\<rparr>]"
    unfolding nodes_same_prefix(1) [OF inv r(1) s] rec by (simp add: n(1) map_update) (simp add: nodes_def)
qed

lemma fetch_flags: "fFlags (fetch p kdf) = fFlags kdf"
  by (simp add: fetch_def)

lemma node_flags_less: "node_page p \<Longrightarrow> i < length (nodes p) \<Longrightarrow> fFlags (nodes p ! i) < 8"
proof -
  assume np: "node_page p" and i: "i < length (nodes p)"
  have inv: "page_inv p" using np by (simp add: node_page_def)
  have "records p ! i = line p (i + m_ctagReserved p)" "i + m_ctagReserved p < m_itagMicFree p"
    using nth_records [OF inv] length_records [OF inv] i by simp_all
  then show "fFlags (nodes p ! i) < 8"
    using i flags_less [OF inv] FFlags_line [OF inv] by (simp add: nodes_def node_of_def)
qed

text \<open>The two flag operations, for flags other than the one that marks a prefix.\<close>

lemma set_flag_ok:
  assumes np: "node_page p" and i: "i < length (nodes p)" and f: "f < 8" "\<not> compressed f" and c: "csr_cpage c = p" "ILine c = i"
  shows "\<exists>q. NDISetFlag c f = Some (c\<lparr>csr_cpage := q\<rparr>) \<and> node_page q \<and> same_prefix p q
    \<and> nodes q = (nodes p)[i := (nodes p ! i)\<lparr>fFlags := fFlags (nodes p ! i) OR f\<rparr>]"
proof -
  obtain kdf where r: "NDIGetKeydataflags pgnbcNoChecks p i = Some (kdf, JET_errSuccess)" "fetch p kdf = nodes p ! i"
    using read_node [OF np] i by auto
  have k: "fFlags kdf = fFlags (nodes p ! i)" using r(2) fetch_flags by metis
  have "fFlags (nodes p ! i) OR f < 8" "compressed (fFlags (nodes p ! i) OR f) \<longleftrightarrow> compressed (fFlags (nodes p ! i))"
    using node_flags_less [OF np i] f by (simp_all add: or_less_8 compressed_bit bit_simps)
  note n = node_flags_ok [OF np i this]
  show ?thesis using n r(1) by (auto simp: NDISetFlag_def c on_page_def k)
qed

lemma reset_flag_ok:
  assumes np: "node_page p" and i: "i < length (nodes p)" and f: "\<not> compressed f" and c: "csr_cpage c = p" "ILine c = i"
  shows "\<exists>q. NDIResetFlag c f = Some (c\<lparr>csr_cpage := q\<rparr>) \<and> node_page q \<and> same_prefix p q
    \<and> nodes q = (nodes p)[i := (nodes p ! i)\<lparr>fFlags := fFlags (nodes p ! i) AND NOT f\<rparr>]"
proof -
  obtain kdf where r: "NDIGetKeydataflags pgnbcNoChecks p i = Some (kdf, JET_errSuccess)" "fetch p kdf = nodes p ! i"
    using read_node [OF np] i by auto
  have k: "fFlags kdf = fFlags (nodes p ! i)" using r(2) fetch_flags by metis
  have "fFlags (nodes p ! i) AND NOT f < 8" "compressed (fFlags (nodes p ! i) AND NOT f) \<longleftrightarrow> compressed (fFlags (nodes p ! i))"
    using node_flags_less [OF np i] f by (simp_all add: and_less compressed_bit bit_simps)
  note n = node_flags_ok [OF np i this]
  show ?thesis using n r(1) by (auto simp: NDIResetFlag_def c on_page_def k)
qed

text \<open>Reading the current node into the cursor.\<close>

lemma sint_nonneg:
  fixes w :: ULONG
  assumes "0 \<le> sint w"
  shows "sint w = int (unat w)"
proof -
  have neg: "\<not> bit w 31" using assms by (simp add: not_less [symmetric] bit_last_iff [of w, simplified])
  have lt: "bit w n \<Longrightarrow> n < 31" for n using neg bit_imp_le_length [of w n] by (cases "n = 31") simp_all
  have "sint w = uint w"
  proof (rule bit_eqI)
    fix n
    show "bit (sint w) n \<longleftrightarrow> bit (uint w) n"
      using neg lt [of n] by (cases "n < 31") (auto simp: bit_simps min_def)
  qed
  then show ?thesis by simp
qed

lemma NDGet_ok:
  assumes np: "node_page p" and i: "i < length (nodes p)" and c: "csr_cpage c = p" "ILine c = i"
  shows "\<exists>u'. NDGet u c = Some u' \<and> fetch p (kdfCurr u') = nodes p ! i \<and> fFUCBUnique u' = fFUCBUnique u
    \<and> sint (cb (data (kdfCurr u'))) = int (length (data (nodes p ! i)))"
proof -
  obtain kdf where r: "NDIGetKeydataflags pgnbcNoChecks p i = Some (kdf, JET_errSuccess)" "fetch p kdf = nodes p ! i"
    "0 < sint (cb (data kdf))" "unat (cb (data kdf)) = length (data (nodes p ! i))"
    using read_node [OF np] i by auto
  have "sint (cb (data kdf)) = int (unat (cb (data kdf)))" using sint_nonneg r(3) by simp
  then show ?thesis using r by (auto simp: NDGet_def c(1) c(2) [unfolded ILine_def])
qed

section \<open>Deletion and undeletion by flag\<close>

lemma flag_consts: "fNDDeleted < 8" "fNDVersion < 8" "\<not> compressed fNDDeleted" "\<not> compressed fNDVersion"
  "fNDDeleted OR fNDVersion < 8" "\<not> compressed (fNDDeleted OR fNDVersion)"
  by (simp_all add: fNDDeleted_def fNDVersion_def compressed_def fNDCompressed_def)

lemma flag_delete_ok:
  assumes np: "node_page (csr_cpage c)" and i: "ILine c < length (nodes (csr_cpage c))" and lg: "log_harmless env"
  shows "\<exists>c' err. ErrNDFlagDelete env c dirflag = Some (c', err) \<and> node_page (csr_cpage c') \<and> ILine c' = ILine c
    \<and> same_prefix (csr_cpage c) (csr_cpage c')
    \<and> nodes (csr_cpage c') = (if is_error err then nodes (csr_cpage c)
        else (nodes (csr_cpage c))[ILine c := (nodes (csr_cpage c) ! ILine c)\<lparr>fFlags := fFlags (nodes (csr_cpage c) ! ILine c)
          OR fNDDeleted OR (if fVersion env dirflag then fNDVersion else 0)\<rparr>])"
proof -
  obtain q err where q: "log_or_dirty env dirflag (csr_cpage c) = (q, err)" by (cases "log_or_dirty env dirflag (csr_cpage c)")
  note h = harmless_log [OF lg q]
  note hn = harmless_nodes [OF h np] and hs = harmless_same_prefix [OF h]
  let ?f = "fNDDeleted OR (if fVersion env dirflag then fNDVersion else 0)" and ?c = "c\<lparr>csr_cpage := q\<rparr>"
  have f: "?f < 8" "\<not> compressed ?f" using flag_consts by simp_all
  have "ILine ?c = ILine c" by (simp add: ILine_def)
  then obtain r where "NDISetFlag ?c ?f = Some (?c\<lparr>csr_cpage := r\<rparr>)" "node_page r" "same_prefix q r"
    "nodes r = (nodes q)[ILine c := (nodes q ! ILine c)\<lparr>fFlags := fFlags (nodes q ! ILine c) OR ?f\<rparr>]"
    using set_flag_ok [OF hn(1) _ f, of "ILine c" ?c] i hn(2) by auto
  then show ?thesis
    using q hn hs same_prefix_trans [OF hs] by (auto simp: ErrNDFlagDelete_def Let_def ILine_def or.assoc)
qed

lemma flag_insert_ok:
  assumes np: "node_page (csr_cpage c)" and i: "ILine c < length (nodes (csr_cpage c))" and lg: "log_harmless env"
  shows "\<exists>u' c' err. ErrNDFlagInsert env u c dirflag = Some (u', c', err) \<and> node_page (csr_cpage c') \<and> ILine c' = ILine c
    \<and> same_prefix (csr_cpage c) (csr_cpage c') \<and> fetch (csr_cpage c') (kdfCurr u') = nodes (csr_cpage c') ! ILine c
    \<and> nodes (csr_cpage c') = (if is_error err then nodes (csr_cpage c)
        else (nodes (csr_cpage c))[ILine c := (nodes (csr_cpage c) ! ILine c)\<lparr>fFlags := (fFlags (nodes (csr_cpage c) ! ILine c) AND NOT fNDDeleted)
          OR (if fVersion env dirflag then fNDVersion else 0)\<rparr>])"
proof -
  let ?p = "csr_cpage c" and ?i = "ILine c"
  obtain u1 where u1: "NDGet u c = Some u1" "fetch ?p (kdfCurr u1) = nodes ?p ! ?i"
    using NDGet_ok [OF np i, of c u] by auto
  obtain q err where q: "log_or_dirty env dirflag ?p = (q, err)" by (cases "log_or_dirty env dirflag ?p")
  note h = harmless_log [OF lg q]
  note hn = harmless_nodes [OF h np] and hs = harmless_same_prefix [OF h]
  have fq: "fetch q kdf = fetch ?p kdf" for kdf by (simp add: fetch_def fetch_PTR_def harmless_page(9) [OF h] split: option.splits)
  let ?c = "c\<lparr>csr_cpage := q\<rparr>"
  have il: "ILine (c\<lparr>csr_cpage := r\<rparr>) = ?i" for r by (simp add: ILine_def)
  obtain r where r: "NDIResetFlag ?c fNDDeleted = Some (c\<lparr>csr_cpage := r\<rparr>)" "node_page r" "same_prefix q r"
    "nodes r = (nodes q)[?i := (nodes q ! ?i)\<lparr>fFlags := fFlags (nodes q ! ?i) AND NOT fNDDeleted\<rparr>]"
    using reset_flag_ok [OF hn(1) _ flag_consts(3), of ?i ?c] i hn(2) il by auto
  have ir: "?i < length (nodes r)" using i r(4) hn(2) by (metis length_list_update)
  have "\<exists>s. (if fVersion env dirflag then NDISetFlag (c\<lparr>csr_cpage := r\<rparr>) fNDVersion else Some (c\<lparr>csr_cpage := r\<rparr>)) = Some (c\<lparr>csr_cpage := s\<rparr>)
      \<and> node_page s \<and> same_prefix r s
      \<and> nodes s = (nodes r)[?i := (nodes r ! ?i)\<lparr>fFlags := fFlags (nodes r ! ?i) OR (if fVersion env dirflag then fNDVersion else 0)\<rparr>]"
  proof (cases "fVersion env dirflag")
    case True
    then show ?thesis using set_flag_ok [OF r(2) ir flag_consts(2,4), of "c\<lparr>csr_cpage := r\<rparr>"] il by auto
  next
    case False
    then show ?thesis using r(2) by (auto simp: same_prefix_def intro!: exI [of _ r])
  qed
  then obtain s where s: "(if fVersion env dirflag then NDISetFlag (c\<lparr>csr_cpage := r\<rparr>) fNDVersion else Some (c\<lparr>csr_cpage := r\<rparr>)) = Some (c\<lparr>csr_cpage := s\<rparr>)"
    "node_page s" "same_prefix r s"
    "nodes s = (nodes r)[?i := (nodes r ! ?i)\<lparr>fFlags := fFlags (nodes r ! ?i) OR (if fVersion env dirflag then fNDVersion else 0)\<rparr>]" by blast
  have "?i < length (nodes s)" using ir s(4) by (metis length_list_update)
  then obtain u2 where u2: "NDGet u1 (c\<lparr>csr_cpage := s\<rparr>) = Some u2" "fetch s (kdfCurr u2) = nodes s ! ?i"
    using NDGet_ok [OF s(2), of ?i "c\<lparr>csr_cpage := s\<rparr>" u1] il by auto
  have n: "nodes s = (nodes ?p)[?i := (nodes ?p ! ?i)\<lparr>fFlags := (fFlags (nodes ?p ! ?i) AND NOT fNDDeleted) OR (if fVersion env dirflag then fNDVersion else 0)\<rparr>]"
    using i unfolding s(4) r(4) hn(2) by simp
  show ?thesis
  proof (cases "is_error err")
    case True
    then show ?thesis using u1 q hn hs fq by (simp add: ErrNDFlagInsert_def Let_def ILine_def)
  next
    case False
    then have "ErrNDFlagInsert env u c dirflag = Some (u2, c\<lparr>csr_cpage := s\<rparr>, err)"
      using u1(1) q r(1) s(1) u2(1) by (simp add: ErrNDFlagInsert_def Let_def)
    then show ?thesis
      using False s(2) u2(2) n same_prefix_trans [OF hs same_prefix_trans [OF r(3) s(3)]] by (simp add: il)
  qed
qed

section \<open>Physical deletion\<close>

lemma delete_ok:
  assumes np: "node_page (csr_cpage c)" and i: "ILine c < length (nodes (csr_cpage c))" and lg: "log_harmless env"
    and r: "ErrNDDelete env c dirflag = (c', err)"
  shows "node_page (csr_cpage c')" "same_prefix (csr_cpage c) (csr_cpage c')"
    "nodes (csr_cpage c') = (if is_error err then nodes (csr_cpage c) else take (ILine c) (nodes (csr_cpage c)) @ drop (Suc (ILine c)) (nodes (csr_cpage c)))"
proof -
  obtain q err' where q: "(if fLogging env dirflag then ErrLG env (csr_cpage c) else (Dirty env (csr_cpage c), JET_errSuccess)) = (q, err')"
    by (metis surj_pair)
  note h = harmless_log_must [OF lg q]
  note hn = harmless_nodes [OF h np] and hs = harmless_same_prefix [OF h]
  have iq: "ILine c < length (nodes q)" using i hn(2) by simp
  note d = node_delete_ok [OF hn(1) iq]
  have c': "csr_cpage c' = (if is_error err' then q else Delete q (ILine c))" "err = (if is_error err' then err' else JET_errSuccess)"
    using r q by (auto simp: ErrNDDelete_def Let_def NDDelete_def on_page_def ILine_def split: if_splits)
  have e: "is_error err \<longleftrightarrow> is_error err'" using c'(2) by (auto simp: is_error_def)
  show "node_page (csr_cpage c')" "same_prefix (csr_cpage c) (csr_cpage c')"
    using c'(1) d hn(1) hs same_prefix_trans [OF hs] by simp_all
  show "nodes (csr_cpage c') = (if is_error err then nodes (csr_cpage c) else take (ILine c) (nodes (csr_cpage c)) @ drop (Suc (ILine c)) (nodes (csr_cpage c)))"
    using c'(1) d(3) hn(2) e by simp
qed

section \<open>Insertion\<close>

lemma uncommitted_defined: "node_page p \<Longrightarrow> \<forall>i\<in>set is. i < length (nodes p) \<Longrightarrow> \<exists>c. uncommitted_lines env u p is = Some c"
proof (induction "is")
  case (Cons i xs)
  then obtain kdf where "NDIGetKeydataflags pgnbcNoChecks p i = Some (kdf, JET_errSuccess)" using read_node [OF Cons.prems(1), of i] by auto
  then show ?case using Cons by (auto simp: Let_def)
qed simp

lemma Clines_nodes: "page_inv p \<Longrightarrow> Clines p = int (length (nodes p))"
  using inv_facts(2) by (simp add: Clines_def length_records)

lemma free_space_ok:
  assumes "node_page p"
  shows "\<exists>q b. FNDFreePageSpace env u p n = Some (q, b) \<and> harmless p q"
proof -
  have "nat (Clines p) = length (nodes p)" using Clines_nodes assms by (simp add: node_page_def)
  then have "\<exists>c. CbNDUncommittedFree env u p = Some c"
    using uncommitted_defined [OF assms, of "[0..<length (nodes p)]" env u] by (cases "FPageRecentlyDirtied env") (auto simp: CbNDUncommittedFree_def)
  then obtain c where c: "CbNDUncommittedFree env u p = Some c" by blast
  show ?thesis by (auto simp: FNDFreePageSpace_def FVERCheckUncommittedFreedSpace_def c)
qed

lemma CbPageFree_inv: "page_inv p \<Longrightarrow> CbPageFree p = cbFree (pghdr p)"
  using inv_facts(4,8,9) [of p] by (simp add: CbPageFree_def sizes_eq)

text \<open>A node as it is inserted: it has a prefix exactly if it is flagged as compressed.\<close>

definition insertable :: "DATA \<Rightarrow> DATA KEYDATAFLAGS \<Rightarrow> bool" where
  "insertable hdr kdf \<longleftrightarrow> (compressed (fFlags kdf) \<longleftrightarrow> prefix (key kdf) \<noteq> []) \<and> prefix (key kdf) = take (length (prefix (key kdf))) hdr
     \<and> storable hdr (kdf, length (prefix (key kdf)))"

lemma NodeSize_stored: "CbNDNodeSizeCompressed kdf = stored_size (length (prefix (key kdf))) kdf + 4"
  by (simp add: CbNDNodeSizeCompressed_def stored_size_def key_bytes_def cbNDNullKeyData_def cbKeyCount_def cbInsertionOverhead_def
      sizeof_TAG_def cbPrefixOverhead_def)

lemma insertable_flag:
  assumes "insertable hdr kdf" "f < 8" "\<not> compressed f"
  shows "insertable hdr (kdf\<lparr>fFlags := fFlags kdf OR f\<rparr>)"
  using assms by (auto simp: insertable_def storable_def encodable_def or_less_8 compressed_bit bit_simps)

lemma NDInsert_ok:
  assumes np: "node_page (csr_cpage c)" and i: "ILine c \<le> length (nodes (csr_cpage c))" and k: "insertable (prefix_bytes (csr_cpage c)) kdf"
    and room: "CbNDNodeSizeCompressed kdf \<le> cbFree (pghdr (csr_cpage c))"
  shows "\<exists>u' q. NDInsert u c kdf = Some (u', c\<lparr>csr_cpage := q\<rparr>) \<and> node_page q \<and> same_prefix (csr_cpage c) q
    \<and> nodes q = take (ILine c) (nodes (csr_cpage c)) @ kdf # drop (ILine c) (nodes (csr_cpage c)) \<and> fFUCBUnique u' = fFUCBUnique u"
proof -
  let ?p = "csr_cpage c" and ?i = "ILine c" and ?n = "length (prefix (key kdf))"
  have e: "compressed (fFlags kdf) \<longleftrightarrow> prefix (key kdf) \<noteq> []" "encodable ?n kdf" "?n \<le> length (prefix_bytes ?p)" "data kdf \<noteq> []"
    "take ?n (prefix_bytes ?p) = prefix (key kdf)"
    using k by (simp_all add: insertable_def storable_def)
  have same: "kdf\<lparr>key := (key kdf)\<lparr>prefix := take ?n (prefix_bytes ?p)\<rparr>\<rparr> = kdf" by (simp add: e(5))
  obtain d f where d: "CdataNDIKeydataflagsToDataflags kdf = (d, f)" "f < 8" "length (concat d) = stored_size ?n kdf"
    "node_of (prefix_bytes ?p) (record_of (m_fSmallFormat ?p) (d, f)) = kdf" "node_ok (prefix_bytes ?p) (record_of (m_fSmallFormat ?p) (d, f))"
    using encode_own_prefix [OF e(1,2), of "prefix_bytes ?p" "m_fSmallFormat ?p"] e(3,4) unfolding same by auto
  obtain q where q: "Insert ?p ?i d f = Some q" "node_page q" "same_prefix ?p q" "nodes q = take ?i (nodes ?p) @ kdf # drop ?i (nodes ?p)"
    using insert_pieces [OF np d(2) i _ d(4,5)] room by (auto simp: d(3) NodeSize_stored)
  have "?i < length (nodes q)" using i unfolding q(4) by simp
  then obtain u' where "NDGet u (c\<lparr>csr_cpage := q\<rparr>) = Some u'" "fFUCBUnique u' = fFUCBUnique u"
    using NDGet_ok [OF q(2), of ?i "c\<lparr>csr_cpage := q\<rparr>" u] by (auto simp: ILine_def)
  then show ?thesis using q d(1) by (auto simp: NDInsert_def lift_page_def)
qed

lemma insert_ok:
  assumes np: "node_page (csr_cpage c)" and k: "insertable (prefix_bytes (csr_cpage c)) kdf" and lg: "log_harmless env"
  shows "\<exists>u' c' err. ErrNDInsert env u c kdf dirflag = Some (u', c', err) \<and> node_page (csr_cpage c') \<and> same_prefix (csr_cpage c) (csr_cpage c')
    \<and> (if is_error err then nodes (csr_cpage c') = nodes (csr_cpage c)
       else \<exists>kdf'. kdf' = kdf\<lparr>fFlags := fFlags kdf OR (if fVersion env dirflag then fNDVersion else 0)\<rparr>
         \<and> nodes (csr_cpage c') = take (ILine c) (nodes (csr_cpage c)) @ kdf' # drop (ILine c) (nodes (csr_cpage c))
         \<and> fetch (csr_cpage c') (kdfCurr u') = kdf')"
proof -
  let ?p = "csr_cpage c" and ?i = "ILine c" and ?n = "CbNDNodeSizeCompressed kdf"
  let ?short = "\<lambda>p. int ?n > int (CbPageFree p) - int (cbUncommittedFree (pghdr p))"
  have "\<exists>p1 b. (if ?short ?p then FNDFreePageSpace env (fFUCBUnique u) ?p ?n else Some (?p, True)) = Some (p1, b) \<and> harmless ?p p1"
    using free_space_ok [OF np, of env "fFUCBUnique u" ?n] by auto
  then obtain p1 b where p1: "(if ?short ?p then FNDFreePageSpace env (fFUCBUnique u) ?p ?n else Some (?p, True)) = Some (p1, b)" and h1: "harmless ?p p1"
    by blast
  note n1 = harmless_nodes [OF h1 np] and s1 = harmless_same_prefix [OF h1]
  have inv1: "page_inv p1" using n1(1) by (simp add: node_page_def)
  obtain q err where q: "(if fLogging env dirflag then ErrLG env p1 else (Dirty env p1, JET_errSuccess)) = (q, err)" by (metis surj_pair)
  note hq = harmless_log_must [OF lg q]
  note nq = harmless_nodes [OF hq n1(1)] and sq = same_prefix_trans [OF s1 harmless_same_prefix [OF hq]]
  let ?k = "kdf\<lparr>fFlags := fFlags kdf OR (if fVersion env dirflag then fNDVersion else 0)\<rparr>" and ?c = "c\<lparr>csr_cpage := q\<rparr>"
  have flag: "(if fVersion env dirflag then kdf\<lparr>fFlags := fFlags kdf OR fNDVersion\<rparr> else kdf) = ?k" by simp
  consider (short) "?short p1" | (lines) "\<not> ?short p1" "csr_iline c < 0 \<or> csr_iline c > Clines p1"
    | (log) "\<not> ?short p1" "\<not> (csr_iline c < 0 \<or> csr_iline c > Clines p1)" "is_error err"
    | (ok) "\<not> ?short p1" "\<not> (csr_iline c < 0 \<or> csr_iline c > Clines p1)" "\<not> is_error err" by blast
  then show ?thesis
  proof cases
    case short
    then show ?thesis using p1 n1 s1 by (simp add: ErrNDInsert_def Let_def is_error_def)
  next
    case lines
    then show ?thesis using p1 n1 s1 by (simp add: ErrNDInsert_def Let_def is_error_def)
  next
    case log
    then show ?thesis using p1 q nq n1(2) sq by (simp add: ErrNDInsert_def Let_def)
  next
    case ok
    have i: "ILine ?c \<le> length (nodes q)" "ILine ?c = ?i"
      using ok(2) Clines_nodes [OF inv1] nq(2) by (auto simp: ILine_def)
    have kq: "insertable (prefix_bytes q) ?k"
      using k nq(3) n1(3) insertable_flag [OF k flag_consts(2,4)] by simp
    have "?n \<le> cbFree (pghdr p1)" using ok(1) CbPageFree_inv [OF inv1] by simp
    then have room: "CbNDNodeSizeCompressed ?k \<le> cbFree (pghdr q)"
      using harmless_page(6) [OF hq] by (simp add: NodeSize_stored stored_size_def)
    obtain u1 r where r: "NDInsert u ?c ?k = Some (u1, ?c\<lparr>csr_cpage := r\<rparr>)" "node_page r" "same_prefix q r"
      "nodes r = take ?i (nodes q) @ ?k # drop ?i (nodes q)"
      using NDInsert_ok [of ?c ?k u] nq(1) i kq room by auto
    have "?i < length (nodes r)" "nodes r ! ?i = ?k" using i unfolding r(4) by (simp_all add: nth_append)
    then obtain u2 where u2: "NDGet u1 (c\<lparr>csr_cpage := r\<rparr>) = Some u2" "fetch r (kdfCurr u2) = ?k"
      using NDGet_ok [OF r(2), of ?i "c\<lparr>csr_cpage := r\<rparr>" u1] by (auto simp: ILine_def)
    have "ErrNDInsert env u c kdf dirflag = Some (u2, c\<lparr>csr_cpage := r\<rparr>, err)"
      using p1 ok q r(1) u2(1) by (simp add: ErrNDInsert_def Let_def flag del: if_split)
    then show ?thesis using ok(3) r u2(2) nq(2) n1(2) same_prefix_trans [OF sq r(3)] by simp
  qed
qed

end
