(* ===== verification/Node_Replace.thy ===== *)
theory Node_Replace
  imports Node_Change
begin

unbundle bit_operations_syntax

text \<open>Replacing the data of a node and moving bytes of its key to the common prefix.\<close>

section \<open>The current node\<close>

lemma read_prefix:
  assumes np: "node_page p" and i: "i < length (nodes p)" and r: "NDIGetKeydataflags pgnbcNoChecks p i = Some (kdf, err)"
  shows "unat (cb (prefix (key kdf))) = length (prefix (key (nodes p ! i)))"
proof -
  let ?k = "i + m_ctagReserved p" and ?L = "line_kdf p (i + m_ctagReserved p) None"
  have inv: "page_inv p" using np by (simp add: node_page_def)
  have k: "?k < m_itagMicFree p" using i length_records [OF inv] by simp
  have l: "records p ! i = line p ?k" using nth_records [OF inv] i by simp
  have ok: "node_ok (prefix_bytes p) (line p ?k)" using np i by (simp add: node_page_def list_all_length l [symmetric])
  then have d: "data_offset (line p ?k) < length (fst (line p ?k))" and c: "cb_prefix (line p ?k) \<le> length (prefix_bytes p)"
    by (simp_all add: node_ok_def)
  have "Cb p ?k \<noteq> 0" using d record_size [OF inv k] by (simp add: line_size_def)
  then have g: "GetPtr pgnbcNoChecks p ?k = (\<lparr>pvLine = Some (Ib p ?k), cbLine = Cb p ?k, fLineFlags = snd (line p ?k)\<rparr>, JET_errSuccess)"
    by (simp add: GetPtr_unchecked [OF inv k])
  have "get_prefix pgnbcNoChecks p ?L JET_errSuccess = (kdf, err)"
    using r by (simp add: NDIGetKeydataflags_def g NDILine_ok [OF inv k d] Let_def first_err_def)
  moreover have "cb (prefix (key ?L)) = word_of_nat (cb_prefix (line p ?k))" by (simp add: line_kdf_def Let_def)
  ultimately have cb: "cb (prefix (key kdf)) \<in> {0, word_of_nat (cb_prefix (line p ?k))}"
    by (auto simp: get_prefix_def Let_def null_PTR_def split: if_splits prod.splits)
  obtain kdf' where r': "NDIGetKeydataflags pgnbcNoChecks p i = Some (kdf', JET_errSuccess)" "fetch p kdf' = nodes p ! i"
    using read_node [OF np] i by auto
  have pre: "fetch_PTR p (prefix (key kdf)) = prefix (key (nodes p ! i))" using r r' by (auto simp flip: r'(2) simp: fetch_def)
  have len: "length (prefix (key (nodes p ! i))) = cb_prefix (line p ?k)" using i c by (simp add: nodes_def l node_of_def)
  show ?thesis
  proof (cases "cb (prefix (key kdf)) = 0")
    case True
    then show ?thesis using pre by (auto simp: fetch_PTR_def split: option.splits)
  next
    case False
    then show ?thesis using cb len cb_fields_less(1) [of "line p ?k"] by simp
  qed
qed

lemma node_encodable:
  assumes np: "node_page p" and i: "i < length (nodes p)"
  shows "length (prefix (key (nodes p ! i))) < 8192" "length (suffix (key (nodes p ! i))) < 8192"
    "prefix (key (nodes p ! i)) = take (length (prefix (key (nodes p ! i)))) (prefix_bytes p)" "length (prefix (key (nodes p ! i))) \<le> length (prefix_bytes p)"
    "prefix (key (nodes p ! i)) \<noteq> [] \<Longrightarrow> compressed (fFlags (nodes p ! i))"
proof -
  have l: "nodes p ! i = node_of (prefix_bytes p) (records p ! i)" using i by (simp add: nodes_def)
  have ok: "node_ok (prefix_bytes p) (records p ! i)" using np i by (simp add: node_page_def list_all_length)
  show "length (prefix (key (nodes p ! i))) < 8192" "length (suffix (key (nodes p ! i))) < 8192"
    "prefix (key (nodes p ! i)) = take (length (prefix (key (nodes p ! i)))) (prefix_bytes p)" "length (prefix (key (nodes p ! i))) \<le> length (prefix_bytes p)"
    using ok cb_fields_less [of "records p ! i"] by (auto simp: l node_of_def node_ok_def)
  show "compressed (fFlags (nodes p ! i))" if "prefix (key (nodes p ! i)) \<noteq> []"
    using that by (auto simp: l node_of_def cb_prefix_def split: if_splits)
qed

section \<open>Replacement\<close>

lemma adjust_harmless: "VERSetCbAdjust p v n d = (q, v') \<Longrightarrow> harmless p q"
  by (auto simp: VERSetCbAdjust_def Let_def split: if_splits)

lemma replace_node_ok:
  assumes np: "node_page (csr_cpage c)" and i: "ILine c < length (nodes (csr_cpage c))" and ok: "storable (prefix_bytes (csr_cpage c)) (kdf, n)"
    and room: "stored_size n kdf \<le> node_size (nodes (csr_cpage c) ! ILine c) + cbFree (pghdr (csr_cpage c))"
  shows "\<exists>q v'. replace_node c kdf (word_of_nat n) v cbNew cbOld = Some (c\<lparr>csr_cpage := q\<rparr>, v') \<and> node_page q \<and> same_prefix (csr_cpage c) q
    \<and> nodes q = (nodes (csr_cpage c))[ILine c := stored_node (prefix_bytes (csr_cpage c)) n kdf]"
proof -
  let ?p = "csr_cpage c"
  define adjust where "adjust = (\<lambda>(p, prce). case prce of None \<Rightarrow> (p, None) | Some v \<Rightarrow> (case VERSetCbAdjust p v cbNew cbOld of (p, v) \<Rightarrow> (p, Some v)))"
  have adj: "harmless p (fst (adjust (p, w)))" for p w
    by (auto simp: adjust_def split: option.splits prod.splits dest: adjust_harmless)
  obtain d f where e: "CdataNDIPrefixAndKeydataflagsToDataflags kdf (word_of_nat n) = (d, f)"
    by (cases "CdataNDIPrefixAndKeydataflagsToDataflags kdf (word_of_nat n)")
  obtain p1 v1 where p1: "(if cbNew - cbOld > 0 then adjust (?p, v) else (?p, v)) = (p1, v1)" by (metis surj_pair)
  have h1: "harmless ?p p1" using p1 adj [of ?p v] by (auto split: if_splits)
  note n1 = harmless_nodes [OF h1 np]
  obtain q where q: "Replace p1 (ILine c) d f = Some q" "node_page q" "same_prefix p1 q" "nodes q = (nodes p1)[ILine c := stored_node (prefix_bytes p1) n kdf]"
    using node_replace_ok [OF n1(1) _ _ _ e, of "ILine c"] ok i room n1(2,3) harmless_page(6) [OF h1] by auto
  obtain r v2 where r: "(if cbNew - cbOld < 0 then adjust (q, v1) else (q, v1)) = (r, v2)" by (metis surj_pair)
  have h2: "harmless q r" using r adj [of q v1] by (auto split: if_splits)
  note n2 = harmless_nodes [OF h2 q(2)]
  have "replace_node c kdf (word_of_nat n) v cbNew cbOld = Some (c\<lparr>csr_cpage := r\<rparr>, v2)"
    using p1 q(1) r unfolding adjust_def by (simp add: replace_node_def e Let_def)
  then show ?thesis
    using n2 q(4) n1(2,3) same_prefix_trans [OF same_prefix_trans [OF harmless_same_prefix [OF h1] q(3)] harmless_same_prefix [OF h2]] by auto
qed

lemma room_to_grow_ok:
  assumes "node_page p"
  shows "\<exists>q err. room_to_grow env u p n = Some (q, err) \<and> harmless p q"
  using free_space_ok [OF assms, of env "fFUCBUnique u" "nat n"] by (auto simp: room_to_grow_def Let_def)

text \<open>
  The data of the current node is replaced, or nothing is changed. The key of the cursor is that
  of the node, and the page has room for the growth.
\<close>

lemma replace_ok:
  assumes np: "node_page (csr_cpage c)" and i: "ILine c < length (nodes (csr_cpage c))" and lg: "log_harmless env"
    and key: "key_bytes bmKey = key_bytes (key (nodes (csr_cpage c) ! ILine c))" and d: "pdata \<noteq> []"
    and room: "length pdata \<le> length (data (nodes (csr_cpage c) ! ILine c)) + cbFree (pghdr (csr_cpage c))"
  shows "\<exists>u' c' v' err. ErrNDReplace env fEmptyDiff bmKey u c pdata dirflag v = Some (u', c', v', err)
    \<and> node_page (csr_cpage c') \<and> same_prefix (csr_cpage c) (csr_cpage c')
    \<and> nodes (csr_cpage c') = (if is_error err \<or> fLogging env dirflag \<and> fEmptyDiff then nodes (csr_cpage c)
        else (nodes (csr_cpage c))[ILine c := (nodes (csr_cpage c) ! ILine c)\<lparr>data := pdata,
          fFlags := stored_flags (length (prefix (key (nodes (csr_cpage c) ! ILine c))))
            (fFlags (nodes (csr_cpage c) ! ILine c) OR (if fVersion env dirflag then fNDVersion else 0))\<rparr>])"
proof -
  let ?p = "csr_cpage c" and ?i = "ILine c" and ?k = "nodes (csr_cpage c) ! ILine c"
  let ?n = "length (prefix (key ?k))" and ?v = "if fVersion env dirflag then fNDVersion else 0"
  obtain kdf where r: "NDIGetKeydataflags pgnbcNoChecks ?p ?i = Some (kdf, JET_errSuccess)" "fetch ?p kdf = ?k"
    using read_node [OF np] i by auto
  define u1 where "u1 = u\<lparr>kdfCurr := kdf, fBookmarkPreviouslySaved := False\<rparr>"
  have u1: "NDGet u c = Some u1" "kdfCurr u1 = kdf" using r(1) by (simp_all add: NDGet_def u1_def ILine_def)
  let ?old = "sint (cb (data kdf))"
  have pre: "ucast (cb (prefix (key kdf))) = (word_of_nat ?n :: USHORT)"
    using read_prefix [OF np i r(1)] by (metis of_nat_unat)
  have fl: "fFlags kdf = fFlags ?k" using r(2) fetch_flags by metis
  obtain p1 e1 where p1: "room_to_grow env u1 ?p (int (length pdata) - ?old) = Some (p1, e1)" and h1: "harmless ?p p1"
    using room_to_grow_ok [OF np] by blast
  note n1 = harmless_nodes [OF h1 np] and s1 = harmless_same_prefix [OF h1]
  obtain q err where q: "log_or_dirty env dirflag p1 = (q, err)" by (metis surj_pair)
  have h2: "harmless ?p q" using harmless_trans [OF h1 harmless_log [OF lg q]] .
  note n2 = harmless_nodes [OF h2 np] and s2 = harmless_same_prefix [OF h2]
  let ?c = "c\<lparr>csr_cpage := q\<rparr>" and ?kdf = "\<lparr>key = bmKey, data = pdata, fFlags = fFlags kdf OR ?v\<rparr>"
  note enc = node_encodable [OF np i]
  have kb: "key_bytes bmKey = prefix (key ?k) @ suffix (key ?k)" using key by (simp add: key_bytes_def)
  have st: "storable (prefix_bytes ?p) (?kdf, ?n)"
    using enc d node_flags_less [OF np i] flag_consts(2) by (simp add: storable_def encodable_def kb fl or_less_8)
  have new: "stored_node (prefix_bytes ?p) ?n ?kdf = ?k\<lparr>data := pdata, fFlags := stored_flags ?n (fFlags ?k OR ?v)\<rparr>"
    using enc(3) by (simp add: stored_node_def kb fl)
  have sz: "stored_size ?n ?kdf \<le> node_size ?k + cbFree (pghdr ?p)"
    using room enc(5) by (auto simp: stored_size_def node_size_def kb)
  obtain s v' where s: "replace_node ?c ?kdf (word_of_nat ?n) v (int (length pdata)) ?old = Some (c\<lparr>csr_cpage := s\<rparr>, v')" "node_page s" "same_prefix q s"
    "nodes s = (nodes ?p)[?i := ?k\<lparr>data := pdata, fFlags := stored_flags ?n (fFlags ?k OR ?v)\<rparr>]"
    using replace_node_ok [of ?c ?kdf ?n v "int (length pdata)" ?old] n2 i st sz new harmless_page(6) [OF h2] by (auto simp: ILine_def)
  obtain u2 where u2: "NDGet u1 (c\<lparr>csr_cpage := s\<rparr>) = Some u2"
    using NDGet_ok [OF s(2), of ?i "c\<lparr>csr_cpage := s\<rparr>" u1] i arg_cong [OF s(4), of length] by (auto simp: ILine_def)
  obtain u3 where u3: "NDGet u1 (c\<lparr>csr_cpage := p1\<rparr>) = Some u3"
    using NDGet_ok [OF n1(1), of ?i "c\<lparr>csr_cpage := p1\<rparr>" u1] i n1(2) by (auto simp: ILine_def)
  have e: "\<not> is_error JET_errSuccess" by (simp add: is_error_def)
  consider (room) "is_error e1" | (diff) "\<not> is_error e1" "fLogging env dirflag \<and> fEmptyDiff"
    | (log) "\<not> is_error e1" "\<not> (fLogging env dirflag \<and> fEmptyDiff)" "is_error err"
    | (ok) "\<not> is_error e1" "\<not> (fLogging env dirflag \<and> fEmptyDiff)" "\<not> is_error err" by blast
  then show ?thesis
  proof cases
    case room
    then show ?thesis using u1 p1 n1 s1 by (simp add: ErrNDReplace_def Let_def)
  next
    case diff
    then show ?thesis using u1 p1 n1 s1 u3 by (simp add: ErrNDReplace_def Let_def)
  next
    case log
    then have "ErrNDReplace env fEmptyDiff bmKey u c pdata dirflag v = Some (u1, c\<lparr>csr_cpage := q\<rparr>, v, err)"
      using u1 p1 q by (auto simp: ErrNDReplace_def Let_def)
    then show ?thesis using log n2 s2 by simp
  next
    case ok
    then have "ErrNDReplace env fEmptyDiff bmKey u c pdata dirflag v = Some (u2, c\<lparr>csr_cpage := s\<rparr>, v', err)"
      using u1 p1 q s(1) u2 pre by (auto simp: ErrNDReplace_def Let_def)
    then show ?thesis using ok s(2,4) same_prefix_trans [OF s2 s(3)] by auto
  qed
qed

section \<open>Longer prefixes\<close>

text \<open>Moving key bytes to the prefix of the page does not change the key.\<close>

lemma grow_prefix_ok:
  assumes np: "node_page (csr_cpage c)" and i: "ILine c < length (nodes (csr_cpage c))" and cur: "fetch (csr_cpage c) (kdfCurr u) = nodes (csr_cpage c) ! ILine c"
    and n: "cbPrefixOverhead < n" "length (prefix (key (nodes (csr_cpage c) ! ILine c))) \<le> n" "n < 8192" "n \<le> length (key_bytes (key (nodes (csr_cpage c) ! ILine c)))"
    and pre: "n \<le> length (prefix_bytes (csr_cpage c))" "take n (prefix_bytes (csr_cpage c)) = take n (key_bytes (key (nodes (csr_cpage c) ! ILine c)))"
    and d: "data (nodes (csr_cpage c) ! ILine c) \<noteq> []"
  shows "\<exists>q k. NDGrowCbPrefix u c n = Some (c\<lparr>csr_cpage := q\<rparr>) \<and> node_page q \<and> same_prefix (csr_cpage c) q
    \<and> nodes q = (nodes (csr_cpage c))[ILine c := k] \<and> key_bytes (key k) = key_bytes (key (nodes (csr_cpage c) ! ILine c))
    \<and> data k = data (nodes (csr_cpage c) ! ILine c) \<and> length (prefix (key k)) = n
    \<and> fFlags k = fFlags (nodes (csr_cpage c) ! ILine c) OR fNDCompressed"
proof -
  let ?p = "csr_cpage c" and ?i = "ILine c" and ?k = "nodes (csr_cpage c) ! ILine c"
  let ?kdf = "NDISetCompressed ?k"
  note enc = node_encodable [OF np i]
  have n2: "2 < n" using n(1) by (simp add: cbPrefixOverhead_def cbKeyCount_def)
  have st: "storable (prefix_bytes ?p) (?kdf, n)"
    using n enc(1,2) pre(1) d node_flags_less [OF np i]
    by (simp add: storable_def encodable_def NDISetCompressed_def key_bytes_def or_less_8 fNDCompressed_def)
  have sz: "stored_size n ?kdf \<le> node_size ?k + cbFree (pghdr ?p)"
  proof (cases "compressed (fFlags ?k)")
    case True
    then show ?thesis using n n2 by (simp add: stored_size_def node_size_def NDISetCompressed_def key_bytes_def)
  next
    case False
    then have "prefix (key ?k) = []" using enc(5) by blast
    then show ?thesis using False n n2 by (simp add: stored_size_def node_size_def NDISetCompressed_def key_bytes_def)
  qed
  obtain e f where e: "CdataNDIPrefixAndKeydataflagsToDataflags ?kdf (word_of_nat n) = (e, f)"
    by (cases "CdataNDIPrefixAndKeydataflagsToDataflags ?kdf (word_of_nat n)")
  obtain q where q: "Replace ?p ?i e f = Some q" "node_page q" "same_prefix ?p q" "nodes q = (nodes ?p)[?i := stored_node (prefix_bytes ?p) n ?kdf]"
    using node_replace_ok [OF np st i sz e] by blast
  have "NDGrowCbPrefix u c n = Some (c\<lparr>csr_cpage := q\<rparr>)"
    using q(1) e by (simp add: NDGrowCbPrefix_def cur lift_page_def)
  moreover have "key_bytes (key (stored_node (prefix_bytes ?p) n ?kdf)) = key_bytes (key ?k)"
    unfolding stored_node_def key_bytes_def [of "key _\<lparr>prefix := _\<rparr>"] using pre(2) append_take_drop_id [of n "key_bytes (key ?k)"]
    by (simp add: NDISetCompressed_def key_bytes_def [of "\<lparr>prefix = _, suffix = _\<rparr>"])
  ultimately show ?thesis
    using q n2 pre(1) by (intro exI [of _ q] exI [of _ "stored_node (prefix_bytes ?p) n ?kdf"])
      (simp add: stored_node_def NDISetCompressed_def stored_flags_def or.assoc)
qed

end
