(* ===== verification/Node_Header_Ok.thy ===== *)
theory Node_Header_Ok
  imports Node_Replace
begin

unbundle bit_operations_syntax

text \<open>
  The external header as a record of optional fields. \<open>holds_fields\<close> relates the bytes of line 0
  to the fields: nothing, a space header alone in the old format, or a byte of flags with the
  fields that are present.
\<close>

definition packed :: "DATA option \<Rightarrow> DATA option \<Rightarrow> DATA" where
  "packed s a = ((case s of None \<Rightarrow> 0 | Some _ \<Rightarrow> 1) OR (case a of None \<Rightarrow> 0 | Some _ \<Rightarrow> 2))
     # (case s of None \<Rightarrow> [] | Some x \<Rightarrow> x) @ (case a of None \<Rightarrow> [] | Some y \<Rightarrow> y)"

definition field_sizes :: "DATA option \<Rightarrow> DATA option \<Rightarrow> bool" where
  "field_sizes s a \<longleftrightarrow> (\<forall>x. s = Some x \<longrightarrow> length x = 16) \<and> (\<forall>y. a = Some y \<longrightarrow> length y = 8)"

definition holds_fields :: "DATA \<Rightarrow> DATA option \<Rightarrow> DATA option \<Rightarrow> bool" where
  "holds_fields bs s a \<longleftrightarrow> field_sizes s a
     \<and> (bs = [] \<and> s = None \<and> a = None \<or> s = Some bs \<and> a = None \<or> bs = packed s a)"

lemma flag_values [simp]: "BNDIGetPersistedNrfFlag noderfSpaceHeader = 1" "BNDIGetPersistedNrfFlag noderfIsamAutoInc = 2"
  by (simp_all add: BNDIGetPersistedNrfFlag_def)

lemma length_packed:
  "field_sizes s a \<Longrightarrow> length (packed s a) = 1 + (if s = None then 0 else 16) + (if a = None then 0 else 8)"
  by (auto simp: packed_def field_sizes_def split: option.splits)

section \<open>Reading a field\<close>

lemma header_ptr:
  assumes "page_inv p"
  shows "GetPtrExternalHeader p = \<lparr>pv = (if Cb p 0 = 0 then None else Some (Ib p 0)), cb = word_of_nat (Cb p 0)\<rparr>"
    "length (line_bytes p 0) = Cb p 0" "Cb p 0 < 65536" "Cb p 0 \<noteq> 0 \<Longrightarrow> Ib p 0 + Cb p 0 \<le> length (rgb p)"
proof -
  have 0: "0 < m_itagMicFree p" using inv_facts(1,2) [OF assms] by linarith
  show "GetPtrExternalHeader p = \<lparr>pv = (if Cb p 0 = 0 then None else Some (Ib p 0)), cb = word_of_nat (Cb p 0)\<rparr>"
    by (simp add: GetPtrExternalHeader_def GetPtr_unchecked [OF assms 0])
  show "length (line_bytes p 0) = Cb p 0" using record_size [OF assms 0] by (simp add: line_size_def line_def)
  show f: "Cb p 0 \<noteq> 0 \<Longrightarrow> Ib p 0 + Cb p 0 \<le> length (rgb p)" using inv_facts(5) [OF assms] inv_facts(6) [OF assms 0] by simp
  show "Cb p 0 < 65536" using f inv_facts(9) [OF assms] by (cases "Cb p 0 = 0") simp_all
qed

lemma subbuf_header:
  assumes "page_inv p" "k + n \<le> Cb p 0"
  shows "subbuf (Ib p 0 + k) n (rgb p) = take n (drop k (line_bytes p 0))"
proof (cases "Cb p 0 = 0")
  case False
  then show ?thesis using assms(2) by (simp add: line_bytes_def subbuf_def drop_take add.commute)
qed (use assms in simp)

lemma stored_fields_eq:
  assumes inv: "page_inv p"
  shows "stored_fields p = (if Cb p 0 = 0 then (0, None) else if Cb p 0 = 16 then (1, Some (Ib p 0))
    else (line_bytes p 0 ! 0, Some (Suc (Ib p 0))))"
proof -
  note h = header_ptr [OF inv]
  have w: "(word_of_nat (Cb p 0) :: ULONG) = word_of_nat n \<longleftrightarrow> Cb p 0 = n" if "n < 65536" for n
    using h(3) that by (simp add: word_of_nat_eq_iff take_bit_nat_def)
  have "rgb p ! Ib p 0 = line_bytes p 0 ! 0" if "Cb p 0 \<noteq> 0" using that h(4) by (simp add: line_bytes_def)
  then show ?thesis using w [of 0] w [of 16] by (simp add: stored_fields_def h(1) Let_def sizeof_SPACE_HEADER_def)
qed

lemma preceding [simp]: "cbPrecedingStoredFields f noderfSpaceHeader = 0"
  "cbPrecedingStoredFields f noderfIsamAutoInc = (if f AND 1 = 0 then 0 else 16)"
  by (simp_all add: cbPrecedingStoredFields_def sizeof_SPACE_HEADER_def)

lemma get_field:
  assumes inv: "page_inv p" and h: "holds_fields (line_bytes p 0) s a"
  shows "fetch_PTR p (NDGetPtrExternalHeader p noderfSpaceHeader) = (case s of None \<Rightarrow> [] | Some x \<Rightarrow> x)"
    "fetch_PTR p (NDGetPtrExternalHeader p noderfIsamAutoInc) = (case a of None \<Rightarrow> [] | Some y \<Rightarrow> y)"
proof -
  note hp = header_ptr [OF inv] and sub = subbuf_header [OF inv]
  have f: "field_sizes s a" using h by (simp add: holds_fields_def)
  have one: "subbuf (Suc (Ib p 0 + k)) n (rgb p) = take n (drop (Suc k) (line_bytes p 0))" if "Suc k + n \<le> Cb p 0" for k n
    using sub [of "Suc k" n] that by simp
  note e = NDGetPtrExternalHeader_def stored_fields_eq [OF inv] fetch_PTR_def null_PTR_def sizeof_SPACE_HEADER_def
  consider (empty) "line_bytes p 0 = []" "s = None" "a = None" | (old) "s = Some (line_bytes p 0)" "a = None" | (packed) "line_bytes p 0 = packed s a"
    using h by (auto simp: holds_fields_def)
  then have "fetch_PTR p (NDGetPtrExternalHeader p noderfSpaceHeader) = (case s of None \<Rightarrow> [] | Some x \<Rightarrow> x)
    \<and> fetch_PTR p (NDGetPtrExternalHeader p noderfIsamAutoInc) = (case a of None \<Rightarrow> [] | Some y \<Rightarrow> y)"
  proof cases
    case empty
    then show ?thesis using hp(2) by (simp add: e)
  next
    case old
    then have "Cb p 0 = 16" using f hp(2) by (simp add: field_sizes_def)
    then show ?thesis using old sub [of 0 16] hp(2) by (simp add: e)
  next
    case packed
    have c: "Cb p 0 = 1 + (if s = None then 0 else 16) + (if a = None then 0 else 8)" using packed length_packed [OF f] hp(2) by metis
    show ?thesis using one [of 0 16] one [of 0 8] one [of 16 8] c f packed
      by (cases s; cases a) (simp_all add: e packed_def field_sizes_def)
  qed
  then show "fetch_PTR p (NDGetPtrExternalHeader p noderfSpaceHeader) = (case s of None \<Rightarrow> [] | Some x \<Rightarrow> x)"
    "fetch_PTR p (NDGetPtrExternalHeader p noderfIsamAutoInc) = (case a of None \<Rightarrow> [] | Some y \<Rightarrow> y)" by simp_all
qed

section \<open>Writing a field\<close>

lemma build_field:
  assumes inv: "page_inv p" and h: "holds_fields (line_bytes p 0) s a"
  shows "length d = 8 \<Longrightarrow> build_header p d noderfIsamAutoInc = Some (Inr (packed s (Some d)))"
    "length d = 16 \<Longrightarrow> line_bytes p 0 = packed s a \<Longrightarrow> build_header p d noderfSpaceHeader = Some (Inr (packed (Some d) a))"
proof -
  note hp = header_ptr [OF inv] and sub = subbuf_header [OF inv]
  have f: "field_sizes s a" using h by (simp add: holds_fields_def)
  have one: "subbuf (Suc (Ib p 0 + k)) n (rgb p) = take n (drop (Suc k) (line_bytes p 0))" if "Suc k + n \<le> Cb p 0" for k n
    using sub [of "Suc k" n] that by simp
  have u: "unat (word_of_nat (Cb p 0) :: ULONG) = Cb p 0" using hp(3) by (simp add: unat_ULONG)
  note e = build_header_def stored_fields_eq [OF inv] hp(1) sizeof_SPACE_HEADER_def u Let_def
  have sz: "Cb p 0 = 1 + (if s = None then 0 else 16) + (if a = None then 0 else 8)" if "line_bytes p 0 = packed s a"
    using that length_packed [OF f] hp(2) by metis
  show "build_header p d noderfSpaceHeader = Some (Inr (packed (Some d) a))" if "length d = 16" "line_bytes p 0 = packed s a"
    using one [of 0 8] one [of 16 8] sz [OF that(2)] f that
    by (cases s; cases a) (simp_all add: e packed_def field_sizes_def)
  assume d: "length d = 8"
  consider (empty) "line_bytes p 0 = []" "s = None" "a = None" | (old) "s = Some (line_bytes p 0)" "a = None" | (packed) "line_bytes p 0 = packed s a"
    using h by (auto simp: holds_fields_def)
  then show "build_header p d noderfIsamAutoInc = Some (Inr (packed s (Some d)))"
  proof cases
    case empty
    then show ?thesis using hp(2) d by (simp add: e packed_def)
  next
    case old
    then have "Cb p 0 = 16" using f hp(2) by (simp add: field_sizes_def)
    then show ?thesis using old sub [of 0 16] hp(2) d by (simp add: e packed_def)
  next
    case packed
    then show ?thesis
      using one [of 0 16] sz [OF packed] f d by (cases s; cases a) (simp_all add: e packed_def field_sizes_def)
  qed
qed

text \<open>A field is set and the other kept, or, after an error, both are kept.\<close>

definition field_set :: "NodeRootField \<Rightarrow> DATA \<Rightarrow> DATA option \<times> DATA option \<Rightarrow> DATA option \<times> DATA option" where
  "field_set rf d sa = (case rf of noderfSpaceHeader \<Rightarrow> (Some d, snd sa) | noderfIsamAutoInc \<Rightarrow> (fst sa, Some d) | noderfWhole \<Rightarrow> sa)"

lemma new_header:
  assumes inv: "page_inv p" and h: "holds_fields (line_bytes p 0) s a" and rf: "rf \<noteq> noderfWhole" "length d = g_rgcbExternalHeaderSize rf"
  defines "whole \<equiv> rf = noderfSpaceHeader \<and> (unat (cb (GetPtrExternalHeader p)) = sizeof_SPACE_HEADER \<or> unat (cb (GetPtrExternalHeader p)) = 0)"
  shows "\<exists>nd. (if whole then Some (Inr d) else build_header p d rf) = Some (Inr nd) \<and> length nd \<le> 25
    \<and> holds_fields nd (fst (field_set rf d (s, a))) (snd (field_set rf d (s, a)))"
proof -
  note hp = header_ptr [OF inv]
  have f: "field_sizes s a" using h by (simp add: holds_fields_def)
  have u: "unat (cb (GetPtrExternalHeader p)) = Cb p 0" using hp(1,3) by (simp add: unat_ULONG)
  have len: "length (packed s' a') \<le> 25" if "field_sizes s' a'" for s' a' using length_packed [OF that] by simp
  show ?thesis
  proof (cases rf)
    case noderfSpaceHeader
    show ?thesis
    proof (cases "Cb p 0 = 16 \<or> Cb p 0 = 0")
      case True
      have "a = None" using h hp(2) True length_packed [OF f] by (auto simp: holds_fields_def split: if_splits)
      then show ?thesis using True noderfSpaceHeader rf(2)
        by (auto simp: whole_def u sizeof_SPACE_HEADER_def field_set_def holds_fields_def field_sizes_def)
    next
      case False
      then have "line_bytes p 0 = packed s a" using h hp(2) f by (auto simp: holds_fields_def field_sizes_def)
      moreover have "field_sizes (Some d) a" using f rf(2) noderfSpaceHeader by (simp add: field_sizes_def sizeof_SPACE_HEADER_def)
      ultimately show ?thesis using build_field(2) [OF inv h, of d] False noderfSpaceHeader rf(2) len
        by (simp add: whole_def u sizeof_SPACE_HEADER_def field_set_def holds_fields_def)
    qed
  next
    case noderfIsamAutoInc
    then have "field_sizes s (Some d)" using f rf(2) by (simp add: field_sizes_def)
    then show ?thesis using build_field(1) [OF inv h, of d] noderfIsamAutoInc rf(2) len
      by (simp add: whole_def field_set_def holds_fields_def)
  qed (use rf in simp)
qed

lemma harmless_line: "harmless p q \<Longrightarrow> line_bytes q 0 = line_bytes p 0"
  using harmless_page(9-11) [of p q] by (simp add: line_bytes_def)

lemma set_field:
  assumes inv: "page_inv (csr_cpage c)" and h: "holds_fields (line_bytes (csr_cpage c) 0) s a" and lg: "log_harmless env"
    and rf: "rf \<noteq> noderfWhole" "length d = g_rgcbExternalHeaderSize rf" and room: "25 \<le> Cb (csr_cpage c) 0 + cbFree (pghdr (csr_cpage c))"
  shows "\<exists>c' err. ErrNDISetExternalHeader env c d dirflag rf = Some (c', err) \<and> page_inv (csr_cpage c')
    \<and> records (csr_cpage c') = records (csr_cpage c)
    \<and> (let sa = (if is_error err then (s, a) else field_set rf d (s, a)) in holds_fields (line_bytes (csr_cpage c') 0) (fst sa) (snd sa))"
proof -
  define p1 where "p1 = (if \<not> fLogging env dirflag \<and> fDirty dirflag then Dirty env (csr_cpage c) else csr_cpage c)"
  have h1: "harmless (csr_cpage c) p1" by (simp add: p1_def)
  obtain p2 err where l: "(if fLogging env dirflag then ErrLG env p1 else (p1, JET_errSuccess)) = (p2, err)" by (metis surj_pair)
  then have "harmless p1 p2" using lg by (auto simp: log_harmless_def split: if_splits) (metis fst_conv)
  with h1 have h2: "harmless (csr_cpage c) p2" by (rule harmless_trans)
  have hf: "page_inv p1" "holds_fields (line_bytes p1 0) s a" using inv h harmless_page(1) [OF h1] harmless_line [OF h1] by simp_all
  obtain nd where nd: "(if rf = noderfSpaceHeader \<and> (unat (cb (GetPtrExternalHeader p1)) = sizeof_SPACE_HEADER \<or> unat (cb (GetPtrExternalHeader p1)) = 0)
       then Some (Inr d) else build_header p1 d rf) = Some (Inr nd)" "length nd \<le> 25"
    "holds_fields nd (fst (field_set rf d (s, a))) (snd (field_set rf d (s, a)))"
    using new_header [OF hf rf] by metis
  note p2 = harmless_page [OF h2] harmless_line [OF h2]
  obtain q where q: "SetExternalHeader p2 [nd] 0 = Some q" "page_inv q" "records q = records p2" "line_bytes q 0 = nd"
    using SetExternalHeader_ok [of p2 0 "[nd]"] p2 inv room nd(2) by auto
  define c1 where "c1 = c\<lparr>csr_cpage := p1\<rparr>"
  have e: "ErrNDISetExternalHeader env c d dirflag rf
      = (if is_error err then Some (c\<lparr>csr_cpage := p2\<rparr>, err) else Some (c\<lparr>csr_cpage := q\<rparr>, JET_errSuccess))"
  proof -
    have pc: "(if \<not> fLogging env dirflag \<and> fDirty dirflag then on_page c (Dirty env) else c) = c1" "csr_cpage c1 = p1"
      by (simp_all add: on_page_def p1_def c1_def)
    have "c1\<lparr>csr_cpage := r\<rparr> = c\<lparr>csr_cpage := r\<rparr>" for r by (simp add: c1_def)
    with nd(1) q(1) rf show ?thesis
      unfolding ErrNDISetExternalHeader_def Let_def pc l by (cases rf) (auto split: if_splits)
  qed
  show ?thesis
    using e q nd(3) p2 inv h by (simp add: Let_def is_error_def)
qed

end
