(* ===== verification/Node_Ops_Properties.thy ===== *)
theory Node_Ops_Properties
  imports Node_Header_Ok Node_Properties
begin

unbundle bit_operations_syntax

text \<open>
  The properties of the operations that change nodes, each with an instance at a concrete page:
  the page with the keys 5 and 5 6 of \<open>Node_Properties\<close>, and a page with the prefix 5 6 7 8.
\<close>

section \<open>Example environment\<close>

definition env1 :: ND_ENV where
  "env1 = \<lparr>FVersioningOff = False, FLogOn = True, FRecovering = False, FUpdateDBTime = True, FPageRecentlyDirtied = True,
     FFUCBSpace = False, FUpgradeToWARLatch = True, DbtimeIncrementAndGet = 9, CbVERGetNodeReserve = (\<lambda>_ _. 0),
     ErrLG = (\<lambda>p. (SetFScrubbedValue (upd_hdr (\<lambda>h. h\<lparr>dbtimeDirtied := 9\<rparr>) p) False, JET_errSuccess))\<rparr>"

definition csr_at :: "CPAGE \<Rightarrow> nat \<Rightarrow> CSR" where
  "csr_at p i = \<lparr>csr_cpage = p, csr_iline = int i\<rparr>"

lemma csr_at_simps [simp]: "csr_cpage (csr_at p i) = p" "ILine (csr_at p i) = i" "csr_iline (csr_at p i) = int i"
  by (simp_all add: csr_at_def ILine_def)

definition fucb1 :: FUCB where
  "fucb1 = \<lparr>kdfCurr = null_kdf, fBookmarkPreviouslySaved = False, fFUCBUnique = True\<rparr>"

definition prefixed :: CPAGE where
  "prefixed = the (Option.bind (SetExternalHeader page64 [[5, 6, 7, 8]] 0) (\<lambda>p. Insert p 0 [[4, 0], [5, 6, 7, 9], [1]] 0))"

lemma env1_ok: "log_harmless env1"
  unfolding log_harmless_def env1_def
  using harmless_Dirty(1) [of _ env1] by (simp add: Dirty_def UpdateDBTime_def env1_def)

lemma prefixed_ok: "node_page prefixed" "prefix_bytes prefixed = [5, 6, 7, 8]"
  "nodes prefixed = [\<lparr>key = \<lparr>prefix = [], suffix = [5, 6, 7, 9]\<rparr>, data = [1], fFlags = 0\<rparr>]"
proof -
  have c: "Cb page64 0 = 0" by code_simp
  obtain p where p: "SetExternalHeader page64 [[5, 6, 7, 8]] 0 = Some p" "page_inv p" "cbFree (pghdr p) = 56" "m_ctagReserved p = 1"
    "lines p = [([5, 6, 7, 8], 0)]" "m_fSmallFormat p"
    using ReplaceTag_ok [OF page64_facts(1), of 0 0 "[[5, 6, 7, 8]]"]
    by (auto simp: SetExternalHeader_def replaced_def page64_facts new_line_def stamp_def c)
  obtain q where q: "Insert p 0 [[4, 0], [5, 6, 7, 9], [1]] 0 = Some q" "page_inv q" "records q = [([4, 0, 5, 6, 7, 9, 1], 0)]"
    using Insert_ok [OF p(2), of 0 0 "[[4, 0], [5, 6, 7, 9], [1]]"] p
    by (auto simp: record_of_def new_line_def stamp_def records_def)
  have e: "prefixed = q" using p(1) q(1) by (simp add: prefixed_def)
  show b: "prefix_bytes prefixed = [5, 6, 7, 8]" by code_simp
  have n: "node_ok [5, 6, 7, 8] ([4, 0, 5, 6, 7, 9, 1], 0)"
    "node_of [5, 6, 7, 8] ([4, 0, 5, 6, 7, 9, 1], 0) = \<lparr>key = \<lparr>prefix = [], suffix = [5, 6, 7, 9]\<rparr>, data = [1], fFlags = 0\<rparr>"
    by code_simp+
  show "node_page prefixed" "nodes prefixed = [\<lparr>key = \<lparr>prefix = [], suffix = [5, 6, 7, 9]\<rparr>, data = [1], fFlags = 0\<rparr>]"
    using b n q unfolding e by (simp_all add: node_page_def nodes_def)
qed

lemma insert_succeeds:
  assumes "page_inv (csr_cpage c)" and "ErrNDInsert env u c kdf dirflag = Some (u', c', err)"
    and "CbNDNodeSizeCompressed kdf + cbUncommittedFree (pghdr (csr_cpage c)) \<le> cbFree (pghdr (csr_cpage c))"
    and "0 \<le> csr_iline c" "csr_iline c \<le> int (length (nodes (csr_cpage c)))"
    and "\<not> (fLogging env dirflag \<and> is_error (snd (ErrLG env (csr_cpage c))))"
  shows "\<not> is_error err"
proof -
  have short: "\<not> int (CbNDNodeSizeCompressed kdf) > int (CbPageFree (csr_cpage c)) - int (cbUncommittedFree (pghdr (csr_cpage c)))"
    using assms(3) CbPageFree_inv [OF assms(1)] by simp
  have ln: "\<not> (csr_iline c < 0 \<or> csr_iline c > Clines (csr_cpage c))" using assms(4,5) Clines_nodes [OF assms(1)] by simp
  show ?thesis
    using assms(2,6) short ln by (auto simp: ErrNDInsert_def Let_def is_error_def split: if_splits option.splits prod.splits)
qed

section \<open>Editing a page of nodes\<close>

text \<open>
  C29. A page of nodes refines a plain list of nodes with a count of free bytes. Every sequence of
  insertions, replacements and deletions that the list allows is carried out by \<open>NDInsert\<close>, the
  replacement step of \<open>ErrNDReplace\<close> and \<open>NDDelete\<close>: keys are split into prefix and suffix,
  encoded with their flags, moved by compactions and decoded again, and the page ends with the
  nodes and the free bytes the list says.
\<close>
theorem node_refines_list:
  assumes "node_page p" and "list_all (ok_op (storable (prefix_bytes p))) ops"
    and "run_ops (list_op (\<lambda>d. stored_node (prefix_bytes p) (snd d) (fst d)) (\<lambda>d. stored_size (snd d) (fst d)) node_size) ops
      (nodes p, cbFree (pghdr p)) = Some (ns, free)"
  shows "\<exists>q. run_ops (store_op insert_node change_node delete_node) ops p = Some q \<and> node_page q \<and> nodes q = ns
    \<and> cbFree (pghdr q) = free \<and> prefix_bytes q = prefix_bytes p"
  using node.run_refines [OF assms(1,2)] assms(3) unfolding node.view_def by auto

theorem node_refines_list_witness:
  "\<exists>q. run_ops (store_op insert_node change_node delete_node)
      [OpInsert 0 (\<lparr>key = \<lparr>prefix = [], suffix = [5, 6, 7, 8, 1]\<rparr>, data = [3, 3], fFlags = 1\<rparr>, 4),
       OpReplace 1 (\<lparr>key = \<lparr>prefix = [5], suffix = [6, 7, 9]\<rparr>, data = [2], fFlags = 0\<rparr>, 3),
       OpInsert 0 (\<lparr>key = \<lparr>prefix = [], suffix = [0]\<rparr>, data = [0], fFlags = 0\<rparr>, 0), OpDelete 0] prefixed = Some q
    \<and> node_page q
    \<and> nodes q = [\<lparr>key = \<lparr>prefix = [5, 6, 7, 8], suffix = [1]\<rparr>, data = [3, 3], fFlags = 5\<rparr>,
                 \<lparr>key = \<lparr>prefix = [5, 6, 7], suffix = [9]\<rparr>, data = [2], fFlags = 4\<rparr>]"
    (is "\<exists>q. run_ops ?step ?ops prefixed = Some q \<and> _ \<and> nodes q = ?ns")
proof -
  have f: "cbFree (pghdr prefixed) = 45" by code_simp
  have "list_all (ok_op (storable (prefix_bytes prefixed))) ?ops"
    by (simp add: prefixed_ok(2) storable_def encodable_def key_bytes_def)
  moreover have "run_ops (list_op (\<lambda>d. stored_node (prefix_bytes prefixed) (snd d) (fst d)) (\<lambda>d. stored_size (snd d) (fst d)) node_size)
      ?ops (nodes prefixed, cbFree (pghdr prefixed)) = Some (?ns, 35)"
    by (simp add: f prefixed_ok stored_node_def stored_size_def node_size_def key_bytes_def stored_flags_def fNDCompressed_def compressed_def)
  ultimately show ?thesis using node_refines_list [OF prefixed_ok(1)] by blast
qed

section \<open>Insertion\<close>

text \<open>
  C30. \<open>ErrNDInsert\<close> either fails and leaves every node of the page as it was, or puts the node at
  the cursor's line, with the version flag if the update is versioned, moves the nodes behind it by
  one and leaves the cursor on the new node. It succeeds whenever the page has room beside the
  uncommitted space, the line is one of the page or the one after its end, and the log accepts
  the record. A logging routine may only touch the time stamp and the like of the page.
\<close>
theorem node_insert:
  assumes "node_page (csr_cpage c)" and "insertable (prefix_bytes (csr_cpage c)) kdf" and "log_harmless env"
  shows "\<exists>u' c' err. ErrNDInsert env u c kdf dirflag = Some (u', c', err) \<and> node_page (csr_cpage c')
    \<and> prefix_bytes (csr_cpage c') = prefix_bytes (csr_cpage c)
    \<and> (is_error err \<longrightarrow> nodes (csr_cpage c') = nodes (csr_cpage c))
    \<and> (\<not> is_error err \<longrightarrow>
         nodes (csr_cpage c') = take (ILine c) (nodes (csr_cpage c))
           @ kdf\<lparr>fFlags := fFlags kdf OR (if fVersion env dirflag then fNDVersion else 0)\<rparr> # drop (ILine c) (nodes (csr_cpage c))
         \<and> fetch (csr_cpage c') (kdfCurr u') = kdf\<lparr>fFlags := fFlags kdf OR (if fVersion env dirflag then fNDVersion else 0)\<rparr>)
    \<and> (CbNDNodeSizeCompressed kdf + cbUncommittedFree (pghdr (csr_cpage c)) \<le> cbFree (pghdr (csr_cpage c))
       \<and> 0 \<le> csr_iline c \<and> csr_iline c \<le> int (length (nodes (csr_cpage c)))
       \<and> \<not> (fLogging env dirflag \<and> is_error (snd (ErrLG env (csr_cpage c)))) \<longrightarrow> \<not> is_error err)"
proof -
  obtain u' c' err where r: "ErrNDInsert env u c kdf dirflag = Some (u', c', err)" "node_page (csr_cpage c')" "same_prefix (csr_cpage c) (csr_cpage c')"
    "if is_error err then nodes (csr_cpage c') = nodes (csr_cpage c)
       else \<exists>kdf'. kdf' = kdf\<lparr>fFlags := fFlags kdf OR (if fVersion env dirflag then fNDVersion else 0)\<rparr>
         \<and> nodes (csr_cpage c') = take (ILine c) (nodes (csr_cpage c)) @ kdf' # drop (ILine c) (nodes (csr_cpage c))
         \<and> fetch (csr_cpage c') (kdfCurr u') = kdf'"
    using insert_ok [OF assms] by metis
  have i: "page_inv (csr_cpage c)" "page_inv (csr_cpage c')" using assms(1) r(2) by (simp_all add: node_page_def)
  have "prefix_bytes (csr_cpage c') = prefix_bytes (csr_cpage c)" using same_prefix_bytes i r(3) by blast
  moreover note insert_succeeds [OF i(1) r(1)]
  ultimately show ?thesis using r by (auto split: if_splits)
qed

theorem node_insert_witness:
  "\<exists>u' c' err. ErrNDInsert env1 fucb1 (csr_at two_nodes 1) \<lparr>key = \<lparr>prefix = [], suffix = [5, 1]\<rparr>, data = [4], fFlags = 0\<rparr> 0 = Some (u', c', err)
    \<and> \<not> is_error err \<and> map data (nodes (csr_cpage c')) = [[9], [4], [8]]
    \<and> fetch (csr_cpage c') (kdfCurr u') = \<lparr>key = \<lparr>prefix = [], suffix = [5, 1]\<rparr>, data = [4], fFlags = 1\<rparr>"
proof -
  let ?k = "\<lparr>key = \<lparr>prefix = [], suffix = [5, 1]\<rparr>, data = [4], fFlags = 0\<rparr> :: DATA KEYDATAFLAGS"
  have k: "insertable (prefix_bytes two_nodes) ?k"
    by (simp add: insertable_def storable_def encodable_def key_bytes_def compressed_def)
  have f: "cbFree (pghdr two_nodes) = 43" "cbUncommittedFree (pghdr two_nodes) = 0" by code_simp+
  have e: "fVersion env1 0" "\<not> is_error (snd (ErrLG env1 two_nodes))" "CbNDNodeSizeCompressed ?k = 9" by code_simp+
  show ?thesis
    using node_insert [of "csr_at two_nodes 1" ?k env1 fucb1 0, OF _ _ env1_ok] k two_nodes_nodes f e
    by (auto simp: csr_at_def ILine_def fNDVersion_def)
qed

section \<open>Deletion flag\<close>

text \<open>
  C31. Flagging a node as deleted and flagging it as inserted again changes nothing but the flags of
  that node: the first sets the deletion flag, the second clears it, both set the version flag
  if the update is versioned and keep every other flag. A failure leaves the nodes as they were.
\<close>
theorem node_flag_roundtrip:
  assumes "node_page (csr_cpage c)" and "ILine c < length (nodes (csr_cpage c))" and "log_harmless env"
  shows "\<exists>c1 err1 u2 c2 err2. ErrNDFlagDelete env c dirflag = Some (c1, err1) \<and> ErrNDFlagInsert env u c1 dirflag = Some (u2, c2, err2)
    \<and> node_page (csr_cpage c1) \<and> node_page (csr_cpage c2)
    \<and> nodes (csr_cpage c1) = (if is_error err1 then nodes (csr_cpage c)
        else (nodes (csr_cpage c))[ILine c := (nodes (csr_cpage c) ! ILine c)\<lparr>fFlags := fFlags (nodes (csr_cpage c) ! ILine c)
          OR fNDDeleted OR (if fVersion env dirflag then fNDVersion else 0)\<rparr>])
    \<and> (is_error err2 \<longrightarrow> nodes (csr_cpage c2) = nodes (csr_cpage c1))
    \<and> (\<not> is_error err1 \<and> \<not> is_error err2 \<longrightarrow>
         nodes (csr_cpage c2) = (nodes (csr_cpage c))[ILine c := (nodes (csr_cpage c) ! ILine c)\<lparr>fFlags :=
           (fFlags (nodes (csr_cpage c) ! ILine c) AND NOT fNDDeleted) OR (if fVersion env dirflag then fNDVersion else 0)\<rparr>])"
proof -
  let ?v = "if fVersion env dirflag then fNDVersion else 0"
  obtain c1 err1 where d: "ErrNDFlagDelete env c dirflag = Some (c1, err1)" "node_page (csr_cpage c1)" "ILine c1 = ILine c"
    "nodes (csr_cpage c1) = (if is_error err1 then nodes (csr_cpage c)
        else (nodes (csr_cpage c))[ILine c := (nodes (csr_cpage c) ! ILine c)\<lparr>fFlags := fFlags (nodes (csr_cpage c) ! ILine c) OR fNDDeleted OR ?v\<rparr>])"
    using flag_delete_ok [OF assms] by metis
  have i: "ILine c1 < length (nodes (csr_cpage c1))" using assms(2) unfolding d(3,4) by simp
  obtain u2 c2 err2 where r: "ErrNDFlagInsert env u c1 dirflag = Some (u2, c2, err2)" "node_page (csr_cpage c2)"
    "nodes (csr_cpage c2) = (if is_error err2 then nodes (csr_cpage c1)
        else (nodes (csr_cpage c1))[ILine c1 := (nodes (csr_cpage c1) ! ILine c1)\<lparr>fFlags := (fFlags (nodes (csr_cpage c1) ! ILine c1) AND NOT fNDDeleted) OR ?v\<rparr>])"
    using flag_insert_ok [OF d(2) i assms(3)] by metis
  have m: "((f OR fNDDeleted OR ?v) AND NOT fNDDeleted) OR ?v = (f AND NOT fNDDeleted) OR ?v" for f
    by (rule bit_eqI) (auto simp: bit_simps fNDDeleted_def)
  show ?thesis
    using d r m assms(2) by (intro exI [of _ c1] exI [of _ err1] exI [of _ u2] exI [of _ c2] exI [of _ err2]) (simp add: d(3))
qed

theorem node_flag_roundtrip_witness:
  "\<exists>c1 err1 u2 c2 err2. ErrNDFlagDelete env1 (csr_at two_nodes 0) fDIRNoVersion = Some (c1, err1)
    \<and> ErrNDFlagInsert env1 fucb1 c1 fDIRNoVersion = Some (u2, c2, err2)
    \<and> (\<not> is_error err1 \<longrightarrow> map fFlags (nodes (csr_cpage c1)) = [2, 0])
    \<and> (\<not> is_error err1 \<and> \<not> is_error err2 \<longrightarrow> nodes (csr_cpage c2) = nodes two_nodes)"
proof -
  have v: "\<not> fVersion env1 fDIRNoVersion" by code_simp
  have l: "ILine (csr_at two_nodes 0) < length (nodes (csr_cpage (csr_at two_nodes 0)))" by (simp add: two_nodes_facts)
  have n: "node_page (csr_cpage (csr_at two_nodes 0))" by (simp add: two_nodes_nodes)
  have u: "(nodes two_nodes)[0 := (nodes two_nodes ! 0)\<lparr>fFlags := fFlags (nodes two_nodes ! 0) AND NOT fNDDeleted\<rparr>] = nodes two_nodes"
    by (simp add: two_nodes_nodes)
  have d: "map fFlags ((nodes two_nodes)[0 := (nodes two_nodes ! 0)\<lparr>fFlags := fFlags (nodes two_nodes ! 0) OR fNDDeleted\<rparr>]) = [2, 0]"
    by (simp add: two_nodes_nodes fNDDeleted_def)
  from node_flag_roundtrip [OF n l env1_ok, of fDIRNoVersion fucb1] show ?thesis
    unfolding csr_at_simps using v u d by (elim exE conjE) (intro exI conjI, assumption+, simp_all)
qed

section \<open>Replacement\<close>



section \<open>Prefix compression\<close>

text \<open>
  C33. Taking more bytes of a node's key from the prefix of the page keeps the key and the data: after
  \<open>NDGrowCbPrefix\<close> the node has the given number of bytes from the prefix and is flagged as
  compressed, its key has the same bytes as before, and no other node changes. The page needs no free
  space for it.
\<close>
theorem node_grow_prefix:
  assumes "node_page (csr_cpage c)" and "ILine c < length (nodes (csr_cpage c))"
    and "fetch (csr_cpage c) (kdfCurr u) = nodes (csr_cpage c) ! ILine c"
    and "cbPrefixOverhead < n" "length (prefix (key (nodes (csr_cpage c) ! ILine c))) \<le> n" "n < 8192"
    and "n \<le> length (key_bytes (key (nodes (csr_cpage c) ! ILine c)))" "n \<le> length (prefix_bytes (csr_cpage c))"
    and "take n (prefix_bytes (csr_cpage c)) = take n (key_bytes (key (nodes (csr_cpage c) ! ILine c)))"
    and "data (nodes (csr_cpage c) ! ILine c) \<noteq> []"
  shows "\<exists>c' k. NDGrowCbPrefix u c n = Some c' \<and> node_page (csr_cpage c') \<and> nodes (csr_cpage c') = (nodes (csr_cpage c))[ILine c := k]
    \<and> key_bytes (key k) = key_bytes (key (nodes (csr_cpage c) ! ILine c)) \<and> data k = data (nodes (csr_cpage c) ! ILine c)
    \<and> length (prefix (key k)) = n \<and> fFlags k = fFlags (nodes (csr_cpage c) ! ILine c) OR fNDCompressed"
proof -
  obtain q k where "NDGrowCbPrefix u c n = Some (c\<lparr>csr_cpage := q\<rparr>)" "node_page q" "nodes q = (nodes (csr_cpage c))[ILine c := k]"
    "key_bytes (key k) = key_bytes (key (nodes (csr_cpage c) ! ILine c))" "data k = data (nodes (csr_cpage c) ! ILine c)"
    "length (prefix (key k)) = n" "fFlags k = fFlags (nodes (csr_cpage c) ! ILine c) OR fNDCompressed"
    using grow_prefix_ok [OF assms(1-7,8,9,10)] by blast
  then show ?thesis by (intro exI [of _ "c\<lparr>csr_cpage := q\<rparr>"] exI [of _ k]) simp
qed

theorem node_grow_prefix_witness:
  "\<exists>u c'. NDGet fucb1 (csr_at prefixed 0) = Some u \<and> NDGrowCbPrefix u (csr_at prefixed 0) 3 = Some c'
    \<and> map (\<lambda>k. key_bytes (key k)) (nodes (csr_cpage c')) = [[5, 6, 7, 9]] \<and> map (\<lambda>k. length (prefix (key k))) (nodes (csr_cpage c')) = [3]"
proof -
  obtain u where u: "NDGet fucb1 (csr_at prefixed 0) = Some u" "fetch prefixed (kdfCurr u) = nodes prefixed ! 0"
    using NDGet_ok [OF prefixed_ok(1), of 0 "csr_at prefixed 0" fucb1] by (auto simp: csr_at_def ILine_def prefixed_ok)
  then show ?thesis
    using node_grow_prefix [of "csr_at prefixed 0" u 3] prefixed_ok
    by (auto simp: csr_at_def ILine_def cbPrefixOverhead_def cbKeyCount_def key_bytes_def)
qed

section \<open>Fields of the external header\<close>



end
