(* ===== verification/Fldnorm.thy ===== *)
theory Fldnorm
  imports Keys
begin

unbundle bit_operations_syntax

text \<open>
  The normalisation of column values into the bytes of a key, from \<open>ese/fldnorm.cxx\<close> and
  \<open>ese/_osu/normu.cxx\<close>, and the way back. A routine that fills a buffer returns the bytes it
  filled. The host is little-endian, so data from the user and data from a record are read the same
  way. The mapping of Unicode text, \<open>ErrNORMMapString\<close>, is done by the operating system and an
  argument.
\<close>

section \<open>Columns and indices\<close>

datatype JET_COLTYP = JET_coltypNil | JET_coltypBit | JET_coltypUnsignedByte | JET_coltypShort | JET_coltypLong
  | JET_coltypCurrency | JET_coltypIEEESingle | JET_coltypIEEEDouble | JET_coltypDateTime | JET_coltypBinary
  | JET_coltypText | JET_coltypLongBinary | JET_coltypLongText | JET_coltypUnsignedLong | JET_coltypLongLong
  | JET_coltypGUID | JET_coltypUnsignedShort | JET_coltypUnsignedLongLong

definition FRECTextColumn :: "JET_COLTYP \<Rightarrow> bool" where
  "FRECTextColumn coltyp \<longleftrightarrow> coltyp = JET_coltypText \<or> coltyp = JET_coltypLongText"

definition FRECBinaryColumn :: "JET_COLTYP \<Rightarrow> bool" where
  "FRECBinaryColumn coltyp \<longleftrightarrow> coltyp = JET_coltypBinary \<or> coltyp = JET_coltypLongBinary"

definition usUniCodePage :: "16 word" where "usUniCodePage = 1200"

record FIELD =
  fld_coltyp :: JET_COLTYP
  fld_cbMaxLen :: nat
  fld_cp :: "16 word"

text \<open>A column of an index: its field, whether it is stored in the fixed part of a record, and its direction.\<close>

record IDXSEG =
  pfield :: FIELD
  FFixed :: bool
  FDescending :: bool

record IDB =
  CbKeyMost :: nat
  CbVarSegMac :: nat
  FSortNullsHigh :: bool
  FDotNetGuid :: bool
  FDisallowTruncation :: bool
  FTuples :: bool
  CchTuplesLengthMin :: nat
  CchTuplesLengthMax :: nat
  FHasPlaceholderColumn :: bool
  rgidxseg :: "IDXSEG list"

datatype FLD_ERR = errSuccess | wrnFLDKeyTooBig | wrnFLDNullKey | wrnFLDNullFirstSeg | wrnFLDNullSeg | JET_wrnColumnNull
  | JET_errKeyTruncated | JET_errInvalidGrbit | JET_errInvalidParameter | JET_errInvalidBufferSize | JET_errIndexTuplesKeyTooSmall
  | JET_errKeyIsMade | JET_errKeyNotMade | errNormalization

definition fld_error :: "FLD_ERR \<Rightarrow> bool" where
  "fld_error err \<longleftrightarrow> err \<notin> {errSuccess, wrnFLDKeyTooBig, wrnFLDNullKey, wrnFLDNullFirstSeg, wrnFLDNullSeg, JET_wrnColumnNull}"

definition JET_cbKeyMost_OLD :: nat where "JET_cbKeyMost_OLD = 255"
definition JET_cbColumnMost :: nat where "JET_cbColumnMost = 255"

text \<open>The limit on a segment: no limit is coded as one more than the longest key.\<close>

definition segment_mac :: "IDB \<Rightarrow> nat" where
  "segment_mac pidb = (if CbKeyMost pidb = CbVarSegMac pidb then CbKeyMost pidb + 1 else CbVarSegMac pidb)"

section \<open>Bytes of a segment\<close>

definition bPrefixNull :: BYTE where "bPrefixNull = 0x00"
definition bPrefixZeroLength :: BYTE where "bPrefixZeroLength = 0x40"
definition bPrefixNullHigh :: BYTE where "bPrefixNullHigh = 0xc0"
definition bPrefixData :: BYTE where "bPrefixData = 0x7f"
definition bSentinel :: BYTE where "bSentinel = 0xff"
definition bUnicodeSortKeySentinel :: BYTE where "bUnicodeSortKeySentinel = 0x01"
definition bUnicodeSortKeyTerminator :: BYTE where "bUnicodeSortKeyTerminator = 0x00"
definition bASCIISortKeyTerminator :: BYTE where "bASCIISortKeyTerminator = 0x00"
definition cbFLDBinaryChunk :: nat where "cbFLDBinaryChunk = 8"
definition cbFLDBinaryChunkNormalized :: nat where "cbFLDBinaryChunkNormalized = cbFLDBinaryChunk + 1"

text \<open>Big-endian numbers, and the macros that flip the highest bit, for every width.\<close>

definition store_be :: "nat \<Rightarrow> 'a::len word \<Rightarrow> DATA" where
  "store_be n w = rev (store_le n w)"

definition load_be :: "DATA \<Rightarrow> 'a::len word" where
  "load_be bs = load_le (rev bs)"

definition maskHighBit :: "'a::len word" where
  "maskHighBit = push_bit (LENGTH('a) - 1) 1"

definition FlipHighBit :: "'a::len word \<Rightarrow> 'a word" where
  "FlipHighBit w = w XOR maskHighBit"

text \<open>An IEEE number: a negative one is complemented, of a positive one the sign is flipped.\<close>

definition norm_real :: "'a::len word \<Rightarrow> 'a word" where
  "norm_real src = (if src AND maskHighBit \<noteq> 0 then NOT src else FlipHighBit src)"

definition denorm_real :: "'a::len word \<Rightarrow> 'a word" where
  "denorm_real t = (if t AND maskHighBit \<noteq> 0 then FlipHighBit t else NOT t)"

section \<open>Numbers, identifiers and nulls\<close>

definition guid_order :: "bool \<Rightarrow> nat list" where
  "guid_order fDotNetGuid =
     (if fDotNetGuid then [3, 2, 1, 0, 5, 4, 7, 6, 8, 9, 10, 11, 12, 13, 14, 15]
      else [10, 11, 12, 13, 14, 15, 8, 9, 6, 7, 4, 5, 0, 1, 2, 3])"

definition FLDNormalizeFixedSegment :: "DATA \<Rightarrow> JET_COLTYP \<Rightarrow> bool \<Rightarrow> DATA option" where
  "FLDNormalizeFixedSegment pbField coltyp fDotNetGuid =
     map_option (\<lambda>bs. bPrefixData # bs)
       (case coltyp of
          JET_coltypBit \<Rightarrow> Some [if pbField ! 0 = 0 then 0x00 else 0xff]
        | JET_coltypUnsignedByte \<Rightarrow> Some [pbField ! 0]
        | JET_coltypShort \<Rightarrow> Some (store_be 2 (FlipHighBit (load_le (take 2 pbField) :: 16 word)))
        | JET_coltypUnsignedShort \<Rightarrow> Some (store_be 2 (load_le (take 2 pbField) :: 16 word))
        | JET_coltypLong \<Rightarrow> Some (store_be 4 (FlipHighBit (load_le (take 4 pbField) :: 32 word)))
        | JET_coltypUnsignedLong \<Rightarrow> Some (store_be 4 (load_le (take 4 pbField) :: 32 word))
        | JET_coltypLongLong \<Rightarrow> Some (store_be 8 (FlipHighBit (load_le (take 8 pbField) :: 64 word)))
        | JET_coltypCurrency \<Rightarrow> Some (store_be 8 (FlipHighBit (load_le (take 8 pbField) :: 64 word)))
        | JET_coltypUnsignedLongLong \<Rightarrow> Some (store_be 8 (load_le (take 8 pbField) :: 64 word))
        | JET_coltypIEEESingle \<Rightarrow> Some (store_be 4 (norm_real (load_le (take 4 pbField) :: 32 word)))
        | JET_coltypIEEEDouble \<Rightarrow> Some (store_be 8 (norm_real (load_le (take 8 pbField) :: 64 word)))
        | JET_coltypDateTime \<Rightarrow> Some (store_be 8 (norm_real (load_le (take 8 pbField) :: 64 word)))
        | JET_coltypGUID \<Rightarrow> Some (map (\<lambda>i. pbField ! i) (guid_order fDotNetGuid))
        | _ \<Rightarrow> None)"

definition FLDNormalizeNullSegment :: "JET_COLTYP \<Rightarrow> bool \<Rightarrow> bool \<Rightarrow> DATA" where
  "FLDNormalizeNullSegment coltyp fZeroLength fSortNullsHigh =
     (let bPrefixNullT = (if fSortNullsHigh then bPrefixNullHigh else bPrefixNull)
      in [if \<not> FRECTextColumn coltyp \<and> \<not> FRECBinaryColumn coltyp then bPrefixNullT
          else if fZeroLength then bPrefixZeroLength else bPrefixNullT])"

section \<open>Binary columns\<close>

text \<open>
  The loop over the chunks of a binary column. \<open>pbSeg\<close> holds the bytes written so far with the
  header byte in front, \<open>ib\<close> is the place of the delimiter, 0 as long as there is none.
\<close>

function chunk_loop :: "bool \<Rightarrow> nat \<Rightarrow> DATA \<Rightarrow> DATA \<Rightarrow> nat \<Rightarrow> DATA \<times> DATA \<times> nat \<times> nat" where
  "chunk_loop fNormalisedEntireColumn cbSegRemaining pbNextChunk pbSeg ib =
     (if cbSegRemaining \<ge> cbFLDBinaryChunkNormalized then
        if length pbNextChunk \<le> cbFLDBinaryChunk then
          chunk_loop fNormalisedEntireColumn (cbSegRemaining - cbFLDBinaryChunkNormalized) pbNextChunk
            (pbSeg @ pbNextChunk @
               (if length pbNextChunk = cbFLDBinaryChunk
                then [word_of_nat (if fNormalisedEntireColumn then cbFLDBinaryChunkNormalized - 1 else cbFLDBinaryChunkNormalized)]
                else replicate (cbFLDBinaryChunk - length pbNextChunk) 0 @ [word_of_nat (length pbNextChunk)]))
            (length pbSeg + length pbNextChunk)
        else
          chunk_loop fNormalisedEntireColumn (cbSegRemaining - cbFLDBinaryChunkNormalized) (drop cbFLDBinaryChunk pbNextChunk)
            (pbSeg @ take cbFLDBinaryChunk pbNextChunk @ [word_of_nat cbFLDBinaryChunkNormalized]) ib
      else (pbSeg, pbNextChunk, cbSegRemaining, ib))"
  by pat_completeness auto
termination
  by (relation "measure (\<lambda>(_, n, _). n)") (auto simp: cbFLDBinaryChunkNormalized_def)

declare chunk_loop.simps [simp del]

text \<open>The results are the segment, whether the key was too short for the column, and the place of the delimiter.\<close>

definition FLDNormalizeBinarySegment :: "DATA \<Rightarrow> nat \<Rightarrow> nat \<Rightarrow> nat \<Rightarrow> bool \<Rightarrow> DATA \<times> bool \<times> nat" where
  "FLDNormalizeBinarySegment pbField cbKeyAvail cbKeyMost cbVarSegMac fFixedField =
     (let cbFull = (if fFixedField then length pbField
                    else (length pbField + (cbFLDBinaryChunk - 1)) div cbFLDBinaryChunk * cbFLDBinaryChunkNormalized) + 1;
          fOverMac = (cbVarSegMac < cbKeyMost \<and> cbFull > cbVarSegMac);
          cbSeg = (if fOverMac then cbVarSegMac else cbFull);
          fColumnTruncated = (cbSeg > cbKeyAvail);
          cbSeg = (if fColumnTruncated then cbKeyAvail else cbSeg)
      in if fFixedField then (bPrefixData # take (cbSeg - 1) pbField, fColumnTruncated, 0)
         else
           case chunk_loop (\<not> fOverMac \<and> \<not> fColumnTruncated) (cbSeg - 1) pbField [bPrefixData] 0 of
             (pbSeg, pbNextChunk, cbSegRemaining, ib) \<Rightarrow>
               if cbSegRemaining > 0 then
                 if length pbNextChunk \<ge> cbSegRemaining then (pbSeg @ take cbSegRemaining pbNextChunk, fColumnTruncated, ib)
                 else (pbSeg @ pbNextChunk @ replicate (cbSegRemaining - length pbNextChunk) 0, fColumnTruncated,
                       length pbSeg + length pbNextChunk)
               else (pbSeg, fColumnTruncated, ib))"

section \<open>Text columns\<close>

definition crt_clocale_strupr :: "DATA \<Rightarrow> DATA" where
  "crt_clocale_strupr string = map (\<lambda>c. if 0x61 \<le> c \<and> c \<le> 0x7a then c - 0x20 else c) string"

definition crt_clocale_toupper_broken :: "BYTE \<Rightarrow> BYTE" where
  "crt_clocale_toupper_broken c = c - 0x61 + 0x41"

text \<open>The part of a buffer before its first null byte.\<close>

definition c_string :: "DATA \<Rightarrow> DATA" where
  "c_string bs = takeWhile (\<lambda>c. c \<noteq> 0) bs"

definition ErrUtilNormText :: "DATA \<Rightarrow> nat \<Rightarrow> DATA \<times> FLD_ERR" where
  "ErrUtilNormText pbText cbKeyBufLeft =
     (if cbKeyBufLeft > length pbText then (crt_clocale_strupr (c_string pbText) @ [0], errSuccess)
      else if cbKeyBufLeft > 0 then
        let s = c_string (take (cbKeyBufLeft - 1) pbText)
        in if cbKeyBufLeft = length s + 1 \<and> pbText ! length s \<noteq> 0
           then (crt_clocale_strupr s @ [crt_clocale_toupper_broken (pbText ! length s)], wrnFLDKeyTooBig)
           else (crt_clocale_strupr s @ [0], errSuccess)
      else ([], errSuccess))"

type_synonym MAPSTRING = "DATA \<Rightarrow> nat \<Rightarrow> DATA \<times> FLD_ERR"

definition ErrFLDNormalizeTextSegment :: "MAPSTRING \<Rightarrow> DATA \<Rightarrow> nat \<Rightarrow> nat \<Rightarrow> nat \<Rightarrow> 16 word \<Rightarrow> FLD_ERR + DATA \<times> FLD_ERR" where
  "ErrFLDNormalizeTextSegment ErrNORMMapString pbField cbKeyAvail cbKeyMost cbVarSegMac cp =
     (let cbT = min cbKeyAvail cbVarSegMac - 1;
          cbChar = (if cp = usUniCodePage then 2 else 1);
          cbFieldT = length pbField div cbChar * cbChar;
          cbFieldT = (if cbKeyMost = JET_cbKeyMost_OLD then min cbFieldT ((cbKeyMost + cbChar - 1) div cbChar * cbChar) else cbFieldT)
      in case (if cp = usUniCodePage then ErrNORMMapString else ErrUtilNormText) (take cbFieldT pbField) cbT of (norm, err) \<Rightarrow>
           if fld_error err then Inl err
           else Inr (bPrefixData # norm,
                     if err = wrnFLDKeyTooBig \<and> \<not> (cbVarSegMac > cbKeyMost \<or> length norm < cbVarSegMac - 1) then errSuccess else err))"

definition ErrFLDNormalizeTaggedData :: "MAPSTRING \<Rightarrow> FIELD \<Rightarrow> DATA \<Rightarrow> bool \<Rightarrow> (FLD_ERR + DATA \<times> bool) option" where
  "ErrFLDNormalizeTaggedData ErrNORMMapString field dataRaw fDotNetGuid =
     (if dataRaw = [] then Some (Inr (FLDNormalizeNullSegment (fld_coltyp field) True False, False))
      else if FRECTextColumn (fld_coltyp field) then
        Some (case ErrFLDNormalizeTextSegment ErrNORMMapString dataRaw JET_cbKeyMost_OLD JET_cbKeyMost_OLD (JET_cbKeyMost_OLD + 1) (fld_cp field) of
                Inl err \<Rightarrow> Inl err
              | Inr (dataNorm, err) \<Rightarrow> Inr (dataNorm, err = wrnFLDKeyTooBig))
      else if FRECBinaryColumn (fld_coltyp field) then
        Some (case FLDNormalizeBinarySegment dataRaw JET_cbKeyMost_OLD JET_cbKeyMost_OLD (JET_cbKeyMost_OLD + 1) False of
                (dataNorm, fDataTruncated, _) \<Rightarrow> Inr (dataNorm, fDataTruncated))
      else map_option (\<lambda>dataNorm. Inr (dataNorm, False)) (FLDNormalizeFixedSegment dataRaw (fld_coltyp field) fDotNetGuid))"

end
