(* ===== verification/Fldkey.thy ===== *)
theory Fldkey
  imports Fldnorm
begin

unbundle bit_operations_syntax

text \<open>
  Keys of several columns, from \<open>ese/fldnorm.cxx\<close>: the key of a record, the search key that is made
  column by column, and the columns read back from a key. The values of the columns are given: their
  retrieval from the record and from long values is not part of the model, nor are tuple offsets.
\<close>

section \<open>Limits\<close>

type_synonym JET_GRBIT = "32 word"

definition JET_bitNewKey :: JET_GRBIT where "JET_bitNewKey = 0x00000001"
definition JET_bitStrLimit :: JET_GRBIT where "JET_bitStrLimit = 0x00000002"
definition JET_bitSubStrLimit :: JET_GRBIT where "JET_bitSubStrLimit = 0x00000004"
definition JET_bitNormalizedKey :: JET_GRBIT where "JET_bitNormalizedKey = 0x00000008"
definition JET_bitKeyDataZeroLength :: JET_GRBIT where "JET_bitKeyDataZeroLength = 0x00000010"
definition JET_bitKeyOverridePrimaryIndexPlaceholder :: JET_GRBIT where "JET_bitKeyOverridePrimaryIndexPlaceholder = 0x00000020"
definition JET_maskLimitOptions :: JET_GRBIT where "JET_maskLimitOptions = 0x00000f00"
definition JET_bitFullColumnStartLimit :: JET_GRBIT where "JET_bitFullColumnStartLimit = 0x00000100"
definition JET_bitFullColumnEndLimit :: JET_GRBIT where "JET_bitFullColumnEndLimit = 0x00000200"
definition JET_bitPartialColumnStartLimit :: JET_GRBIT where "JET_bitPartialColumnStartLimit = 0x00000400"
definition JET_bitPartialColumnEndLimit :: JET_GRBIT where "JET_bitPartialColumnEndLimit = 0x00000800"

definition has_bit :: "JET_GRBIT \<Rightarrow> JET_GRBIT \<Rightarrow> bool" where
  "has_bit grbit b \<longleftrightarrow> grbit AND b \<noteq> 0"

definition FLDISetFullColumnLimit :: "DATA \<Rightarrow> nat \<Rightarrow> bool \<Rightarrow> DATA" where
  "FLDISetFullColumnLimit lineNorm cbAvailWithSuffix fNeedSentinel =
     (if fNeedSentinel then lineNorm @ replicate (cbAvailWithSuffix - length lineNorm) bSentinel else lineNorm)"

text \<open>\<open>pbRest\<close> is what the buffer holds behind the segment: the loop for the Unicode delimiter runs into it.\<close>

definition FLDISetPartialColumnLimitOnTextColumn :: "DATA \<Rightarrow> DATA \<Rightarrow> nat \<Rightarrow> bool \<Rightarrow> bool \<Rightarrow> 16 word \<Rightarrow> DATA" where
  "FLDISetPartialColumnLimitOnTextColumn lineNorm pbRest cbAvailWithSuffix fDescending fNeedSentinel cp =
     (let ibSuffix = cbAvailWithSuffix - 1; pbNorm = lineNorm @ pbRest; bMask = (if fDescending then 0xff else 0x00) in
      if length lineNorm < 2 then FLDISetFullColumnLimit lineNorm cbAvailWithSuffix fNeedSentinel
      else
        let ibT = (if cp = usUniCodePage
                   then 1 + length (takeWhile (\<lambda>b. b \<noteq> bUnicodeSortKeySentinel XOR bMask) (drop 1 (take ibSuffix pbNorm)))
                   else if last lineNorm = bASCIISortKeyTerminator XOR bMask then length lineNorm - 1 else length lineNorm);
            ibT = min ibT ibSuffix
        in if fNeedSentinel then take ibT pbNorm @ replicate (ibSuffix - ibT + 1) bSentinel else take ibT pbNorm)"

definition FLDITrySetPartialColumnLimitOnBinaryColumn :: "DATA \<Rightarrow> nat \<Rightarrow> nat \<Rightarrow> bool \<Rightarrow> DATA" where
  "FLDITrySetPartialColumnLimitOnBinaryColumn lineNorm cbAvailWithSuffix ibBinaryColumnDelimiter fNeedSentinel =
     (if ibBinaryColumnDelimiter = 0 then FLDISetFullColumnLimit lineNorm cbAvailWithSuffix fNeedSentinel
      else if fNeedSentinel then take ibBinaryColumnDelimiter lineNorm @ replicate (length lineNorm + 1 - ibBinaryColumnDelimiter) bSentinel
      else take ibBinaryColumnDelimiter lineNorm)"

section \<open>One segment of a search key\<close>

text \<open>The segment of a value, before the direction of the column and the limits. The results are the
  bytes, whether the key is too short, and the place of the binary delimiter.\<close>

definition segment_of_value ::
    "MAPSTRING \<Rightarrow> IDB \<Rightarrow> DATA \<Rightarrow> JET_COLTYP \<Rightarrow> 16 word \<Rightarrow> nat \<Rightarrow> bool \<Rightarrow> bool \<Rightarrow> (FLD_ERR + DATA \<times> bool \<times> nat) option" where
  "segment_of_value ErrNORMMapString pidb column coltyp cp cbAvail fFixedField fTupleField =
     (if FRECTextColumn coltyp then
        let chColumn = (if cp = usUniCodePage then length column div 2 else length column);
            cbColumnMax = (if cp = usUniCodePage then CchTuplesLengthMax pidb * 2 else CchTuplesLengthMax pidb)
        in if fTupleField \<and> chColumn < CchTuplesLengthMin pidb then Some (Inl JET_errIndexTuplesKeyTooSmall)
           else
             case ErrFLDNormalizeTextSegment ErrNORMMapString (if fTupleField then take cbColumnMax column else column)
                    cbAvail (CbKeyMost pidb) (segment_mac pidb) cp of
               Inl err \<Rightarrow> Some (Inl err)
             | Inr (seg, err) \<Rightarrow> Some (Inr (seg, err = wrnFLDKeyTooBig, 0))
      else if FRECBinaryColumn coltyp then
        Some (Inr (FLDNormalizeBinarySegment column cbAvail (CbKeyMost pidb) (segment_mac pidb) fFixedField))
      else
        map_option (\<lambda>seg. Inr (if length seg > cbAvail then (take cbAvail seg, True, 0) else (seg, False, 0)))
          (FLDNormalizeFixedSegment column coltyp (FDotNetGuid pidb)))"

text \<open>The segment with its limit; the second result says whether the limit is set.\<close>

definition set_limits :: "DATA \<Rightarrow> DATA \<Rightarrow> JET_COLTYP \<Rightarrow> 16 word \<Rightarrow> nat \<Rightarrow> nat \<Rightarrow> bool \<Rightarrow> JET_GRBIT \<Rightarrow> DATA \<times> bool" where
  "set_limits lineNorm pbRest coltyp cp cbAvail ibDelimiter fDescending grbit =
     (let opt = grbit AND JET_maskLimitOptions in
      if opt = JET_bitFullColumnStartLimit \<or> opt = JET_bitFullColumnEndLimit
      then (FLDISetFullColumnLimit lineNorm (cbAvail + 1) (has_bit grbit JET_bitFullColumnEndLimit), True)
      else if opt = JET_bitPartialColumnStartLimit \<or> opt = JET_bitPartialColumnEndLimit then
        (if FRECTextColumn coltyp
         then FLDISetPartialColumnLimitOnTextColumn lineNorm pbRest (cbAvail + 1) fDescending (has_bit grbit JET_bitPartialColumnEndLimit) cp
         else FLDITrySetPartialColumnLimitOnBinaryColumn lineNorm (cbAvail + 1) ibDelimiter (has_bit grbit JET_bitPartialColumnEndLimit), True)
      else if has_bit grbit JET_bitSubStrLimit \<and> FRECTextColumn coltyp
      then (FLDISetPartialColumnLimitOnTextColumn lineNorm pbRest (cbAvail + 1) fDescending True cp, True)
      else if has_bit grbit JET_bitStrLimit
      then (FLDITrySetPartialColumnLimitOnBinaryColumn lineNorm (cbAvail + 1) ibDelimiter True, True)
      else (lineNorm, False))"

definition flip :: "bool \<Rightarrow> DATA \<Rightarrow> DATA" where
  "flip fDescending bs = (if fDescending then map (\<lambda>b. b XOR 0xff) bs else bs)"

text \<open>The results are the segment, whether the key is too short for it, and whether it is a limit.\<close>

definition ErrFLDNormalizeSegment ::
    "MAPSTRING \<Rightarrow> IDB \<Rightarrow> DATA \<Rightarrow> DATA option \<Rightarrow> JET_COLTYP \<Rightarrow> 16 word \<Rightarrow> nat \<Rightarrow> bool \<Rightarrow> bool \<Rightarrow> bool \<Rightarrow> JET_GRBIT
      \<Rightarrow> (FLD_ERR + DATA \<times> bool \<times> bool) option" where
  "ErrFLDNormalizeSegment ErrNORMMapString pidb pbRest lineColumn coltyp cp cbAvail fDescending fFixedField fTupleField grbit =
     (let finish = (\<lambda>(seg, fTooBig, ib).
            case set_limits (flip fDescending seg) pbRest coltyp cp cbAvail ib fDescending grbit of (line, fLimit) \<Rightarrow> Inr (line, fTooBig, fLimit))
      in if lineColumn = None \<or> lineColumn = Some [] then
           if fTupleField then Some (Inl JET_errIndexTuplesKeyTooSmall)
           else if has_bit grbit JET_bitKeyDataZeroLength \<and> (fFixedField \<or> \<not> FRECTextColumn coltyp \<and> \<not> FRECBinaryColumn coltyp)
           then Some (Inl JET_errInvalidBufferSize)
           else Some (finish (FLDNormalizeNullSegment coltyp (has_bit grbit JET_bitKeyDataZeroLength) (FSortNullsHigh pidb), False, 0))
         else
           map_option (\<lambda>r. case r of Inl err \<Rightarrow> Inl err | Inr x \<Rightarrow> finish x)
             (segment_of_value ErrNORMMapString pidb (the lineColumn) coltyp cp cbAvail fFixedField fTupleField))"

section \<open>The search key\<close>

record SEARCHKEY =
  dataSearchKey :: DATA
  cColumnsInSearchKey :: nat
  FKSPrepared :: bool
  FKSTooBig :: bool
  FKSLimit :: bool

definition KSReset :: "SEARCHKEY \<Rightarrow> SEARCHKEY" where
  "KSReset s = s\<lparr>FKSPrepared := False, FKSTooBig := False, FKSLimit := False\<rparr>"

definition RECINormalisePlaceholder :: "IDB \<Rightarrow> SEARCHKEY \<Rightarrow> SEARCHKEY" where
  "RECINormalisePlaceholder pidb s =
     (let fDescending = FDescending (rgidxseg pidb ! 0)
      in s\<lparr>dataSearchKey := [if fDescending then NOT bPrefixData else bPrefixData, if fDescending then 0xff else 0x00], cColumnsInSearchKey := 1\<rparr>)"

definition RECTextColumnPadding :: "DATA \<Rightarrow> nat \<Rightarrow> 16 word \<Rightarrow> DATA" where
  "RECTextColumnPadding pbData cbData cp =
     pbData @ map (\<lambda>ib. if cp = usUniCodePage \<and> odd ib then 0x00 else 0x20) [length pbData..<cbData]"

text \<open>A call with a key that is already normalised. Without an index the longest key has 255 bytes.\<close>

definition normalized_key :: "nat \<Rightarrow> DATA \<Rightarrow> SEARCHKEY \<Rightarrow> SEARCHKEY \<times> FLD_ERR" where
  "normalized_key cbKeyMost keySeg s =
     (let cbLimitKeyMost = cbKeyMost + 1 in
      if length keySeg > cbLimitKeyMost \<and> length keySeg > JET_cbKeyMost_OLD then (s, JET_errInvalidParameter)
      else
        let keySeg = take cbLimitKeyMost keySeg
        in ((KSReset s)\<lparr>cColumnsInSearchKey := 1, dataSearchKey := keySeg, FKSPrepared := True, FKSLimit := length keySeg > cbKeyMost\<rparr>, errSuccess))"

text \<open>The value of the next column as it is normalised: fixed text is padded to the length of the column.\<close>

definition key_column :: "nat \<Rightarrow> IDXSEG \<Rightarrow> DATA \<Rightarrow> FLD_ERR + DATA" where
  "key_column cbKeyMost idxseg keySeg =
     (let lineKeySeg = (if cbKeyMost = JET_cbKeyMost_OLD then take JET_cbKeyMost_OLD keySeg else keySeg); field = pfield idxseg
      in if FFixed idxseg \<and> length keySeg > 0 \<and> length keySeg \<noteq> fld_cbMaxLen field then
           if fld_coltyp field = JET_coltypText \<and> length keySeg < fld_cbMaxLen field \<and> length keySeg < JET_cbColumnMost
           then Inr (RECTextColumnPadding lineKeySeg (fld_cbMaxLen field) (fld_cp field))
           else Inl JET_errInvalidBufferSize
         else Inr lineKeySeg)"

definition limit_grbit_ok :: "IDXSEG \<Rightarrow> JET_GRBIT \<Rightarrow> bool" where
  "limit_grbit_ok idxseg grbit \<longleftrightarrow>
     (let opt = grbit AND JET_maskLimitOptions; coltyp = fld_coltyp (pfield idxseg) in
      if opt = JET_bitPartialColumnStartLimit \<or> opt = JET_bitPartialColumnEndLimit
      then FRECTextColumn coltyp \<or> \<not> FFixed idxseg \<and> FRECBinaryColumn coltyp
      else opt = 0 \<or> opt = JET_bitFullColumnStartLimit \<or> opt = JET_bitFullColumnEndLimit)"

text \<open>The next column of the search key. None: the type of the column is not one that can be indexed.\<close>

definition make_column :: "MAPSTRING \<Rightarrow> IDB \<Rightarrow> DATA \<Rightarrow> DATA \<Rightarrow> JET_GRBIT \<Rightarrow> SEARCHKEY \<Rightarrow> (SEARCHKEY \<times> FLD_ERR) option" where
  "make_column ErrNORMMapString pidb pbRest keySeg grbit s =
     (if cColumnsInSearchKey s \<ge> length (rgidxseg pidb) then Some (s, JET_errKeyIsMade)
      else
        let idxseg = rgidxseg pidb ! cColumnsInSearchKey s; cbKeyMost = CbKeyMost pidb in
        case key_column cbKeyMost idxseg keySeg of
          Inl err \<Rightarrow> Some (s, err)
        | Inr lineKeySeg \<Rightarrow>
            if \<not> limit_grbit_ok idxseg grbit then Some (s, JET_errInvalidGrbit)
            else
              case (if \<not> FKSTooBig s \<and> length (dataSearchKey s) < cbKeyMost then
                      ErrFLDNormalizeSegment ErrNORMMapString pidb pbRest
                        (if keySeg \<noteq> [] \<or> has_bit grbit JET_bitKeyDataZeroLength then Some lineKeySeg else None)
                        (fld_coltyp (pfield idxseg)) (fld_cp (pfield idxseg)) (cbKeyMost - length (dataSearchKey s))
                        (FDescending idxseg) (FFixed idxseg) (cColumnsInSearchKey s = 0 \<and> FTuples pidb) grbit
                    else Some (Inr ([], False, False))) of
                None \<Rightarrow> None
              | Some (Inl err) \<Rightarrow> Some (s, err)
              | Some (Inr (lineNormSeg, fTooBig, fLimit)) \<Rightarrow>
                  Some (s\<lparr>cColumnsInSearchKey := Suc (cColumnsInSearchKey s),
                          dataSearchKey := dataSearchKey s @ take (cbKeyMost + 1 - length (dataSearchKey s)) lineNormSeg,
                          FKSTooBig := FKSTooBig s \<or> fTooBig, FKSLimit := FKSLimit s \<or> fLimit, FKSPrepared := True\<rparr>, errSuccess))"

definition ErrIsamMakeKey :: "MAPSTRING \<Rightarrow> IDB option \<Rightarrow> DATA \<Rightarrow> DATA \<Rightarrow> JET_GRBIT \<Rightarrow> SEARCHKEY \<Rightarrow> (SEARCHKEY \<times> FLD_ERR) option" where
  "ErrIsamMakeKey ErrNORMMapString pidb pbRest keySeg grbit s =
     (if has_bit grbit JET_bitNormalizedKey
      then Some (normalized_key (case pidb of None \<Rightarrow> JET_cbKeyMost_OLD | Some idb \<Rightarrow> CbKeyMost idb) keySeg s)
      else
        case pidb of
          None \<Rightarrow> None
        | Some idb \<Rightarrow>
            if \<not> has_bit grbit JET_bitNewKey \<and> FKSLimit s then Some (s, JET_errKeyIsMade)
            else if \<not> has_bit grbit JET_bitNewKey \<and> \<not> FKSPrepared s then Some (s, JET_errKeyNotMade)
            else
              let s = (if has_bit grbit JET_bitNewKey then (KSReset s)\<lparr>dataSearchKey := [], cColumnsInSearchKey := 0\<rparr> else s);
                  s = (if \<not> FKSPrepared s \<and> FHasPlaceholderColumn idb \<and> \<not> has_bit grbit JET_bitKeyOverridePrimaryIndexPlaceholder
                       then RECINormalisePlaceholder idb s else s)
              in make_column ErrNORMMapString idb pbRest keySeg grbit s)"

end
