(* ===== verification/Fldread.thy ===== *)
theory Fldread
  imports Fldkey
begin

unbundle bit_operations_syntax

text \<open>
  The key of a record (\<open>ErrRECIRetrieveKey\<close>) and the columns read back from a key
  (\<open>RECIRetrieveColumnFromKey\<close>), from \<open>ese/fldnorm.cxx\<close>.
\<close>

section \<open>The key of a record\<close>

text \<open>The loop over the columns of an index. A value is None for a null column.\<close>

record KEYSTATE =
  ks_key :: DATA
  cbKeyAvail :: nat
  fColumnTruncated :: bool
  fKeyTruncated :: bool
  fAllNulls :: bool
  fNullFirstSeg :: bool
  fNullSeg :: bool
  fNeedMoreData :: bool

text \<open>The segment of a column with the bytes of its value that are looked at; the second result says whether it was cut.\<close>

definition column_segment :: "MAPSTRING \<Rightarrow> IDB \<Rightarrow> IDXSEG \<Rightarrow> DATA option \<Rightarrow> nat \<Rightarrow> (FLD_ERR + DATA \<times> bool) option" where
  "column_segment ErrNORMMapString pidb idxseg v avail =
     (let coltyp = fld_coltyp (pfield idxseg) in
      if v = None \<or> v = Some [] then Some (Inr (FLDNormalizeNullSegment coltyp (v \<noteq> None) (FSortNullsHigh pidb), False))
      else if FRECTextColumn coltyp then
        Some (case ErrFLDNormalizeTextSegment ErrNORMMapString (the v) avail (CbKeyMost pidb) (segment_mac pidb) (fld_cp (pfield idxseg)) of
                Inl err \<Rightarrow> Inl err
              | Inr (seg, err) \<Rightarrow> Inr (seg, err = wrnFLDKeyTooBig))
      else if FRECBinaryColumn coltyp then
        Some (case FLDNormalizeBinarySegment (the v) avail (CbKeyMost pidb) (segment_mac pidb) (FFixed idxseg) of
                (seg, fTrunc, _) \<Rightarrow> Inr (seg, fTrunc))
      else map_option (\<lambda>seg. Inr (seg, False)) (FLDNormalizeFixedSegment (the v) coltyp (FDotNetGuid pidb)))"

definition mark_null :: "bool \<Rightarrow> DATA option \<Rightarrow> KEYSTATE \<Rightarrow> KEYSTATE" where
  "mark_null fFirst v s = (if v = None then s\<lparr>fNullFirstSeg := fNullFirstSeg s \<or> fFirst, fNullSeg := True\<rparr> else s)"

text \<open>A column when there is no space left in the key.\<close>

definition no_space :: "IDB \<Rightarrow> bool \<Rightarrow> DATA option \<Rightarrow> KEYSTATE \<Rightarrow> FLD_ERR + KEYSTATE" where
  "no_space pidb fFirst v s =
     (if FDisallowTruncation pidb then Inl JET_errKeyTruncated else Inr (mark_null fFirst v (s\<lparr>fKeyTruncated := True\<rparr>)))"

text \<open>A segment is appended as far as it fits, unless the key is cut already.\<close>

definition append_segment :: "IDB \<Rightarrow> IDXSEG \<Rightarrow> DATA \<Rightarrow> KEYSTATE \<Rightarrow> FLD_ERR + KEYSTATE" where
  "append_segment pidb idxseg seg s =
     (let fCut = (fColumnTruncated s \<or> length seg > cbKeyAvail s);
          seg = (if \<not> fColumnTruncated s then take (cbKeyAvail s) seg else seg)
      in if fKeyTruncated s then Inr s
         else if fCut \<and> FDisallowTruncation pidb then Inl JET_errKeyTruncated
         else Inr (s\<lparr>fKeyTruncated := fCut, ks_key := ks_key s @ flip (FDescending idxseg) seg, cbKeyAvail := cbKeyAvail s - length seg\<rparr>))"

definition retrieve_segment ::
    "MAPSTRING \<Rightarrow> IDB \<Rightarrow> nat \<Rightarrow> bool \<Rightarrow> IDXSEG \<times> DATA option \<Rightarrow> KEYSTATE \<Rightarrow> (FLD_ERR + KEYSTATE) option" where
  "retrieve_segment ErrNORMMapString pidb cbDataMost fFirst col s =
     (case col of (idxseg, v) \<Rightarrow>
        if cbKeyAvail s = 0 then Some (no_space pidb fFirst v s)
        else
          let dataField = map_option (take cbDataMost) v; cbField = (case dataField of None \<Rightarrow> 0 | Some d \<Rightarrow> length d) in
          case column_segment ErrNORMMapString pidb idxseg dataField (cbKeyAvail s) of
            None \<Rightarrow> None
          | Some (Inl err) \<Rightarrow> Some (Inl err)
          | Some (Inr (seg, fTrunc)) \<Rightarrow>
              Some (append_segment pidb idxseg seg
                ((mark_null fFirst v s)\<lparr>fAllNulls := fAllNulls s \<and> v = None, fColumnTruncated := fColumnTruncated s \<or> fTrunc,
                   fNeedMoreData := fNeedMoreData s \<or> cbField = cbDataMost \<and> length seg < CbKeyMost pidb \<and> length seg < cbKeyAvail s
                     \<and> length seg < CbVarSegMac pidb \<and> CbKeyMost pidb \<noteq> JET_cbKeyMost_OLD\<rparr>)))"

fun retrieve_segments ::
    "MAPSTRING \<Rightarrow> IDB \<Rightarrow> nat \<Rightarrow> bool \<Rightarrow> (IDXSEG \<times> DATA option) list \<Rightarrow> KEYSTATE \<Rightarrow> (FLD_ERR + KEYSTATE) option" where
  "retrieve_segments ms pidb cbDataMost fFirst [] s = Some (Inr s)"
| "retrieve_segments ms pidb cbDataMost fFirst (col # cols) s =
     (case retrieve_segment ms pidb cbDataMost fFirst col s of
        None \<Rightarrow> None
      | Some (Inl err) \<Rightarrow> Some (Inl err)
      | Some (Inr s) \<Rightarrow> retrieve_segments ms pidb cbDataMost False cols s)"

definition key_start :: "IDB \<Rightarrow> KEYSTATE" where
  "key_start pidb = \<lparr>ks_key = [], cbKeyAvail = CbKeyMost pidb, fColumnTruncated = False, fKeyTruncated = False, fAllNulls = True,
     fNullFirstSeg = False, fNullSeg = False, fNeedMoreData = False\<rparr>"

text \<open>The results are the key, the warning, and whether more of the values is needed.\<close>

definition ErrRECIIRetrieveKey :: "MAPSTRING \<Rightarrow> IDB \<Rightarrow> DATA option list \<Rightarrow> ULONG \<Rightarrow> (FLD_ERR + DATA \<times> FLD_ERR \<times> bool) option" where
  "ErrRECIIRetrieveKey ErrNORMMapString pidb values cbDataMost =
     map_option
       (\<lambda>r. case r of
          Inl err \<Rightarrow> Inl err
        | Inr s \<Rightarrow> Inr (ks_key s, if fAllNulls s then wrnFLDNullKey else if fNullFirstSeg s then wrnFLDNullFirstSeg
                                 else if fNullSeg s then wrnFLDNullSeg else errSuccess, fNeedMoreData s))
       (retrieve_segments ErrNORMMapString pidb (unat cbDataMost) True (zip (rgidxseg pidb) values) (key_start pidb))"

partial_function (option) retrieve_key_loop :: "MAPSTRING \<Rightarrow> IDB \<Rightarrow> DATA option list \<Rightarrow> ULONG \<Rightarrow> (FLD_ERR + DATA \<times> FLD_ERR) option" where
  "retrieve_key_loop ErrNORMMapString pidb values cbDataMost =
     (case ErrRECIIRetrieveKey ErrNORMMapString pidb values cbDataMost of
        None \<Rightarrow> None
      | Some (Inl err) \<Rightarrow> Some (Inl err)
      | Some (Inr (bs, err, fNeed)) \<Rightarrow>
          if fNeed then retrieve_key_loop ErrNORMMapString pidb values (cbDataMost * 2) else Some (Inr (bs, err)))"

definition ErrRECIRetrieveKey :: "MAPSTRING \<Rightarrow> IDB \<Rightarrow> DATA option list \<Rightarrow> (FLD_ERR + DATA \<times> FLD_ERR) option" where
  "ErrRECIRetrieveKey ErrNORMMapString pidb values = retrieve_key_loop ErrNORMMapString pidb values (word_of_nat (CbKeyMost pidb))"

section \<open>Columns from a key\<close>

text \<open>
  Reading from a key gives the bytes of the column, whether it is null, and the rest of the key.
  None: the bytes that are read are not all there.
\<close>

type_synonym COLUMN = "(DATA \<times> bool \<times> DATA) option"

definition bMask :: "bool \<Rightarrow> 'a::len word" where
  "bMask fDescending = (if fDescending then NOT 0 else 0)"

definition null_prefix :: "IDB \<Rightarrow> BYTE" where
  "null_prefix pidb = (if FSortNullsHigh pidb then bPrefixNullHigh else bPrefixNull)"

definition retrieve_fixed :: "IDB \<Rightarrow> bool \<Rightarrow> nat \<Rightarrow> (DATA \<Rightarrow> DATA) \<Rightarrow> DATA \<Rightarrow> COLUMN" where
  "retrieve_fixed pidb fDescending n f pbKey =
     (case pbKey of
        [] \<Rightarrow> None
      | b # pbKey \<Rightarrow>
          if b = bMask fDescending XOR null_prefix pidb then Some ([], True, pbKey)
          else if length pbKey < n then None else Some (f (take n pbKey), False, drop n pbKey))"

definition guid_source :: "bool \<Rightarrow> nat list" where
  "guid_source fDotNetGuid =
     (if fDotNetGuid then [3, 2, 1, 0, 5, 4, 7, 6, 8, 9, 10, 11, 12, 13, 14, 15]
      else [12, 13, 14, 15, 10, 11, 8, 9, 6, 7, 0, 1, 2, 3, 4, 5])"

definition retrieve_guid :: "bool \<Rightarrow> DATA \<Rightarrow> COLUMN" where
  "retrieve_guid fDotNetGuid pbKey =
     (case pbKey of
        [] \<Rightarrow> None
      | b # pbKey \<Rightarrow>
          if b = bPrefixData then
            if length pbKey < 16 then None else Some (map (\<lambda>i. pbKey ! i) (guid_source fDotNetGuid), False, drop 16 pbKey)
          else Some ([], True, pbKey))"

function retrieve_chunks :: "BYTE \<Rightarrow> DATA \<Rightarrow> DATA \<Rightarrow> (DATA \<times> DATA) option" where
  "retrieve_chunks m pbKey pbColumn =
     (if length pbKey < cbFLDBinaryChunkNormalized then None
      else
        let cbChunk = m XOR pbKey ! (cbFLDBinaryChunkNormalized - 1);
            n = (if cbChunk = word_of_nat cbFLDBinaryChunkNormalized then cbFLDBinaryChunkNormalized - 1 else unat cbChunk)
        in if length pbKey < n then None
           else
             let pbColumn = pbColumn @ map (\<lambda>b. m XOR b) (take n pbKey)
             in if pbKey ! (cbFLDBinaryChunkNormalized - 1) = m XOR word_of_nat cbFLDBinaryChunkNormalized
                then retrieve_chunks m (drop cbFLDBinaryChunkNormalized pbKey) pbColumn
                else Some (pbColumn, drop cbFLDBinaryChunkNormalized pbKey))"
  by pat_completeness auto
termination
  by (relation "measure (\<lambda>(_, k, _). length k)") (auto simp: cbFLDBinaryChunkNormalized_def)

declare retrieve_chunks.simps [simp del]

text \<open>The bytes before the first one that is the given byte, and the rest from that byte on.\<close>

definition scan :: "BYTE \<Rightarrow> DATA \<Rightarrow> (DATA \<times> DATA) option" where
  "scan t pbKey = (if t \<in> set pbKey then Some (takeWhile (\<lambda>b. b \<noteq> t) pbKey, dropWhile (\<lambda>b. b \<noteq> t) pbKey) else None)"

definition retrieve_text :: "BYTE \<Rightarrow> 16 word \<Rightarrow> DATA \<Rightarrow> (DATA \<times> DATA) option" where
  "retrieve_text m cp pbKey =
     (if cp = usUniCodePage then
        case scan (m XOR bUnicodeSortKeySentinel) pbKey of
          None \<Rightarrow> None
        | Some (bs1, pbKey) \<Rightarrow>
            map_option (\<lambda>(bs2, pbKey). (map (\<lambda>b. m XOR b) (bs1 @ bs2), tl pbKey)) (scan (m XOR bUnicodeSortKeyTerminator) pbKey)
      else map_option (\<lambda>(bs, pbKey). (map (\<lambda>b. m XOR b) bs, tl pbKey)) (scan (m XOR bASCIISortKeyTerminator) pbKey))"

definition retrieve_bytes :: "IDB \<Rightarrow> IDXSEG \<Rightarrow> DATA \<Rightarrow> COLUMN" where
  "retrieve_bytes pidb idxseg pbKey =
     (let m = bMask (FDescending idxseg); field = pfield idxseg in
      case pbKey of
        [] \<Rightarrow> None
      | b # pbKey \<Rightarrow>
          if FFixed idxseg then
            if b = m XOR bPrefixData then
              if length pbKey < fld_cbMaxLen field then None
              else Some (map (\<lambda>b. m XOR b) (take (fld_cbMaxLen field) pbKey), False, drop (fld_cbMaxLen field) pbKey)
            else Some ([], True, pbKey)
          else if b = m XOR bPrefixData then
            map_option (\<lambda>(bs, pbKey). (bs, False, pbKey))
              (if FRECBinaryColumn (fld_coltyp field) then retrieve_chunks m pbKey [] else retrieve_text m (fld_cp field) pbKey)
          else Some ([], b = m XOR null_prefix pidb, pbKey))"

definition RECIRetrieveColumnFromKey :: "IDB \<Rightarrow> IDXSEG \<Rightarrow> DATA \<Rightarrow> COLUMN" where
  "RECIRetrieveColumnFromKey pidb idxseg pbKey =
     (let fDescending = FDescending idxseg in
      case fld_coltyp (pfield idxseg) of
        JET_coltypUnsignedByte \<Rightarrow> retrieve_fixed pidb fDescending 1 (\<lambda>bs. [bMask fDescending XOR bs ! 0]) pbKey
      | JET_coltypShort \<Rightarrow> retrieve_fixed pidb fDescending 2 (\<lambda>bs. store_le 2 (bMask fDescending XOR FlipHighBit (load_be bs) :: 16 word)) pbKey
      | JET_coltypUnsignedShort \<Rightarrow> retrieve_fixed pidb fDescending 2 (\<lambda>bs. store_le 2 (bMask fDescending XOR load_be bs :: 16 word)) pbKey
      | JET_coltypLong \<Rightarrow> retrieve_fixed pidb fDescending 4 (\<lambda>bs. store_le 4 (bMask fDescending XOR FlipHighBit (load_be bs) :: 32 word)) pbKey
      | JET_coltypUnsignedLong \<Rightarrow> retrieve_fixed pidb fDescending 4 (\<lambda>bs. store_le 4 (bMask fDescending XOR load_be bs :: 32 word)) pbKey
      | JET_coltypLongLong \<Rightarrow> retrieve_fixed pidb fDescending 8 (\<lambda>bs. store_le 8 (bMask fDescending XOR FlipHighBit (load_be bs) :: 64 word)) pbKey
      | JET_coltypCurrency \<Rightarrow> retrieve_fixed pidb fDescending 8 (\<lambda>bs. store_le 8 (bMask fDescending XOR FlipHighBit (load_be bs) :: 64 word)) pbKey
      | JET_coltypUnsignedLongLong \<Rightarrow> retrieve_fixed pidb fDescending 8 (\<lambda>bs. store_le 8 (bMask fDescending XOR load_be bs :: 64 word)) pbKey
      | JET_coltypIEEESingle \<Rightarrow> retrieve_fixed pidb fDescending 4 (\<lambda>bs. store_le 4 (denorm_real (bMask fDescending XOR load_be bs) :: 32 word)) pbKey
      | JET_coltypIEEEDouble \<Rightarrow> retrieve_fixed pidb fDescending 8 (\<lambda>bs. store_le 8 (denorm_real (bMask fDescending XOR load_be bs) :: 64 word)) pbKey
      | JET_coltypDateTime \<Rightarrow> retrieve_fixed pidb fDescending 8 (\<lambda>bs. store_le 8 (denorm_real (bMask fDescending XOR load_be bs) :: 64 word)) pbKey
      | JET_coltypGUID \<Rightarrow> retrieve_guid (FDotNetGuid pidb) pbKey
      | JET_coltypText \<Rightarrow> retrieve_bytes pidb idxseg pbKey
      | JET_coltypLongText \<Rightarrow> retrieve_bytes pidb idxseg pbKey
      | JET_coltypBinary \<Rightarrow> retrieve_bytes pidb idxseg pbKey
      | JET_coltypLongBinary \<Rightarrow> retrieve_bytes pidb idxseg pbKey
      | _ \<Rightarrow> retrieve_fixed pidb fDescending 1 (\<lambda>bs. [if bMask fDescending XOR bs ! 0 = 0 then 0x00 else 0xff]) pbKey)"

text \<open>
  The column with the given position in the index, read from a copy of the key in a buffer of
  \<open>cbKeyMost\<close> bytes; \<open>pbRest\<close> is what the buffer holds behind the key. When the key ends before the
  column, the bytes of the last column that was read are left in the result.
\<close>

fun retrieve_column :: "IDB \<Rightarrow> IDXSEG list \<Rightarrow> nat \<Rightarrow> DATA \<Rightarrow> DATA \<Rightarrow> (DATA \<times> FLD_ERR) option" where
  "retrieve_column pidb [] icol pbKey lineColumn = Some (lineColumn, errSuccess)"
| "retrieve_column pidb (idxseg # idxsegs) icol pbKey lineColumn =
     (if pbKey = [] then Some (lineColumn, errSuccess)
      else
        case RECIRetrieveColumnFromKey pidb idxseg pbKey of
          None \<Rightarrow> None
        | Some (bs, fNull, pbKey) \<Rightarrow>
            (case icol of
               0 \<Rightarrow> Some (bs, if fNull then JET_wrnColumnNull else errSuccess)
             | Suc icol \<Rightarrow> retrieve_column pidb idxsegs icol pbKey bs))"

definition ErrRECIRetrieveColumnFromKey :: "IDB \<Rightarrow> DATA KEY \<Rightarrow> DATA \<Rightarrow> nat \<Rightarrow> (DATA \<times> FLD_ERR) option" where
  "ErrRECIRetrieveColumnFromKey pidb pkey pbRest icol =
     retrieve_column pidb (rgidxseg pidb) icol (take (CbKeyMost pidb) (key_bytes pkey @ pbRest)) []"

end
