(* ===== verification/Fldnorm_Order.thy ===== *)
theory Fldnorm_Order
  imports Fldread
begin

unbundle bit_operations_syntax

text \<open>
  Byte strings that differ within their common length: the order of such strings is not changed by
  what follows them, which is what lets segments be put one after the other. The locale
  \<open>segment_code\<close> has this as its law and gives the order of rows of columns.
\<close>

section \<open>Decided order\<close>

definition before :: "DATA \<Rightarrow> DATA \<Rightarrow> bool" where
  "before a b \<longleftrightarrow> (\<exists>i. i < length a \<and> i < length b \<and> take i a = take i b \<and> a ! i < b ! i)"

lemma before_Nil [simp]: "\<not> before [] b" "\<not> before a []"
  by (simp_all add: before_def)

lemma before_Cons [simp]: "before (x # xs) (y # ys) \<longleftrightarrow> x < y \<or> x = y \<and> before xs ys"
proof
  assume "before (x # xs) (y # ys)"
  then obtain i where "i < Suc (length xs)" "i < Suc (length ys)" "take i (x # xs) = take i (y # ys)" "(x # xs) ! i < (y # ys) ! i"
    by (auto simp: before_def)
  then show "x < y \<or> x = y \<and> before xs ys" by (cases i) (auto simp: before_def)
next
  assume "x < y \<or> x = y \<and> before xs ys"
  then show "before (x # xs) (y # ys)"
  proof
    assume "x = y \<and> before xs ys"
    then obtain i where "i < length xs" "i < length ys" "take i xs = take i ys" "xs ! i < ys ! i" "x = y" by (auto simp: before_def)
    then show ?thesis unfolding before_def by (intro exI [of _ "Suc i"]) simp
  qed (auto simp: before_def)
qed

lemma before_append: "before a b \<Longrightarrow> before (a @ s) (b @ t)"
  by (induction a arbitrary: b) (case_tac b; auto)+

lemma before_common [simp]: "before (c @ a) (c @ b) \<longleftrightarrow> before a b"
  by (induction c) auto

lemma before_less: "before a b \<Longrightarrow> a < b"
  by (induction a arbitrary: b) (case_tac b; auto)+

lemma less_cases: "(a :: DATA) < b \<Longrightarrow> before a b \<or> (\<exists>z zs. b = a @ z # zs)"
proof (induction a arbitrary: b)
  case Nil
  then show ?case by (cases b) auto
next
  case (Cons x xs)
  then show ?case by (cases b) auto
qed

lemma same_length_before: "length a = length b \<Longrightarrow> (a :: DATA) < b \<Longrightarrow> before a b"
  using less_cases by fastforce

lemma xor_ff: "z XOR 0xff = NOT z" for z :: BYTE
proof -
  have "(0xff :: BYTE) = - 1" by simp
  then show ?thesis by (simp only: bit.xor_one_right)
qed

lemma uint_not: "uint (NOT z) = 2 ^ LENGTH('a) - 1 - uint z" for z :: "'a::len word"
proof -
  have "NOT z = - 1 - z" by (simp add: not_eq_complement)
  then have "uint (NOT z) = (2 ^ LENGTH('a) - 1 - uint z) mod 2 ^ LENGTH('a)"
    by (simp only: uint_word_ariths(2) unsigned_minus_1_eq_mask mask_eq_exp_minus_1)
  moreover have "0 \<le> 2 ^ LENGTH('a) - 1 - uint z" "2 ^ LENGTH('a) - 1 - uint z < 2 ^ LENGTH('a)"
    using uint_lt2p [of z] uint_nonnegative [of z] by linarith+
  ultimately show ?thesis by simp
qed

lemma complement_less: "(NOT x < NOT y) \<longleftrightarrow> y < x" for x y :: "'a::len word"
  by (simp add: word_less_def uint_not)

lemma before_flip: "before a b \<Longrightarrow> before (flip True b) (flip True a)"
  unfolding flip_def by (induction a arbitrary: b) (case_tac b; auto simp: complement_less xor_ff)+

section \<open>Rows of columns\<close>

text \<open>
  A segment code: values of a column that are in order have segments whose order is decided. Rows
  are compared by their first column that differs.
\<close>

fun row_less :: "('s \<Rightarrow> 'v \<Rightarrow> 'v \<Rightarrow> bool) \<Rightarrow> ('s \<times> 'v) list \<Rightarrow> 'v list \<Rightarrow> bool" where
  "row_less lt ((c, v) # row) (w # ws) \<longleftrightarrow> lt c v w \<or> v = w \<and> row_less lt row ws"
| "row_less lt _ _ \<longleftrightarrow> False"

locale segment_code =
  fixes seg :: "'s \<Rightarrow> 'v \<Rightarrow> DATA" and lt :: "'s \<Rightarrow> 'v \<Rightarrow> 'v \<Rightarrow> bool" and ok :: "'s \<Rightarrow> 'v \<Rightarrow> bool"
  assumes decided: "ok c v \<Longrightarrow> ok c w \<Longrightarrow> lt c v w \<Longrightarrow> before (seg c v) (seg c w)"
begin

lemma row_decided:
  assumes "list_all2 ok cs vs" and "list_all2 ok cs ws" and "row_less lt (zip cs vs) ws"
  shows "before (concat (map2 seg cs vs)) (concat (map2 seg cs ws))"
  using assms
proof (induction cs arbitrary: vs ws)
  case (Cons c cs)
  then obtain v vs' w ws' where "vs = v # vs'" "ws = w # ws'" "ok c v" "ok c w" "list_all2 ok cs vs'" "list_all2 ok cs ws'"
    by (auto simp: list_all2_Cons1)
  with Cons show ?case by (auto intro: before_append decided)
qed auto

lemma row_order:
  assumes "list_all2 ok cs vs" and "list_all2 ok cs ws" and "row_less lt (zip cs vs) ws"
  shows "concat (map2 seg cs vs) @ s < concat (map2 seg cs ws) @ t"
  using row_decided [OF assms] by (intro before_less before_append)

end

text \<open>Complementing the bytes of a segment turns its order around.\<close>

locale directed_code = segment_code seg lt ok
  for seg :: "'s \<Rightarrow> 'v \<Rightarrow> DATA" and lt :: "'s \<Rightarrow> 'v \<Rightarrow> 'v \<Rightarrow> bool" and ok :: "'s \<Rightarrow> 'v \<Rightarrow> bool" +
  fixes down :: "'s \<Rightarrow> bool"
begin

lemma directed_decided:
  "ok c v \<Longrightarrow> ok c w \<Longrightarrow> (if down c then lt c w v else lt c v w) \<Longrightarrow> before (flip (down c) (seg c v)) (flip (down c) (seg c w))"
  using decided [of c v w] decided [of c w v] before_flip by (auto simp: flip_def split: if_splits)

end

sublocale directed_code \<subseteq> directed: segment_code "\<lambda>c v. flip (down c) (seg c v)" "\<lambda>c v w. if down c then lt c w v else lt c v w" ok
  by unfold_locales (rule directed_decided)

end
