(* ===== verification/Fldnorm_Codes.thy ===== *)
theory Fldnorm_Codes
  imports Fldnorm_Order
begin

unbundle bit_operations_syntax

text \<open>
  The normal form of every type of column is a segment code: the order of the values decides the
  order of the bytes.
\<close>

section \<open>Numbers\<close>

definition be_value :: "DATA \<Rightarrow> int" where
  "be_value bs = horner_sum uint (2 ^ 8) (rev bs)"

lemma be_value_Cons: "be_value (x # xs) = be_value xs + 256 ^ length xs * uint x"
  by (simp add: be_value_def horner_sum_append)

lemma be_value_bounds: "0 \<le> be_value bs \<and> be_value bs < 256 ^ length bs"
proof (induction bs)
  case (Cons x xs)
  have "uint x \<le> 255" using uint_lt2p [of x] by simp
  then have "256 ^ length xs * uint x \<le> 256 ^ length xs * 255" by (intro mult_left_mono) auto
  then have "be_value xs + 256 ^ length xs * uint x < 256 ^ length xs + 256 ^ length xs * 255" using Cons by linarith
  then show ?case using Cons uint_nonnegative [of x] by (simp add: be_value_Cons)
qed (simp add: be_value_def)

lemma be_value_before: "length a = length b \<Longrightarrow> be_value a < be_value b \<Longrightarrow> before a b"
proof (induction a b rule: list_induct2)
  case (Cons x xs y ys)
  show ?case
  proof (cases "uint x = uint y")
    case True
    then have "x = y" by (simp add: word_uint_eq_iff)
    then show ?thesis using Cons by (simp add: be_value_Cons)
  next
    case False
    have "uint x < uint y"
    proof (rule ccontr)
      assume "\<not> uint x < uint y"
      with False have "uint y + 1 \<le> uint x" by simp
      then have "256 ^ length xs * (uint y + 1) \<le> 256 ^ length xs * uint x" by (intro mult_left_mono) auto
      then show False using Cons be_value_bounds [of xs] be_value_bounds [of ys] by (simp add: be_value_Cons algebra_simps)
    qed
    then show ?thesis by (simp add: word_less_def)
  qed
qed (simp add: be_value_def)

lemma be_value_store:
  fixes w :: "'a::len word"
  assumes "LENGTH('a) = 8 * n"
  shows "be_value (store_be n w) = uint w"
proof -
  have "w = word_of_int (be_value (store_be n w))"
    using load_store_le [OF assms, of w] by (simp add: be_value_def store_be_def load_le_def)
  moreover have "be_value (store_be n w) < 2 ^ LENGTH('a)" "0 \<le> be_value (store_be n w)"
    using be_value_bounds [of "store_be n w"] assms by (simp_all add: store_be_def power_mult)
  ultimately show ?thesis by (metis mod_pos_pos_trivial uint_word_of_int)
qed

lemma store_be_before:
  fixes v w :: "'a::len word"
  assumes "LENGTH('a) = 8 * n" and "v < w"
  shows "before (store_be n v) (store_be n w)"
  using assms be_value_store [OF assms(1)] by (intro be_value_before) (auto simp: store_be_def word_less_def)

section \<open>Signs\<close>

text \<open>A word is its highest bit and the bits below it.\<close>

definition low_bits :: "'a::len word \<Rightarrow> int" where
  "low_bits w = take_bit (LENGTH('a) - 1) (uint w)"

definition high_bit :: "'a::len word \<Rightarrow> bool" where
  "high_bit w \<longleftrightarrow> bit w (LENGTH('a) - 1)"

lemma low_bits_range: "0 \<le> low_bits w" "low_bits w < 2 ^ (LENGTH('a) - 1)" for w :: "'a::len word"
  by (simp_all add: low_bits_def)

lemma take_uint [simp]: "take_bit LENGTH('a) (uint w) = uint w" for w :: "'a::len word"
  by (rule take_bit_int_eq_self) simp_all

lemma uint_split: "uint w = low_bits w + 2 ^ (LENGTH('a) - 1) * of_bool (high_bit w)" for w :: "'a::len word"
proof -
  have "uint w = take_bit (Suc (LENGTH('a) - 1)) (uint w)" by simp
  also have "\<dots> = low_bits w + 2 ^ (LENGTH('a) - 1) * of_bool (bit (uint w) (LENGTH('a) - 1))"
    by (simp only: take_bit_Suc_from_most low_bits_def add.commute)
  finally show ?thesis by (simp add: high_bit_def bit_uint_iff)
qed

lemma sint_split: "sint w = low_bits w - 2 ^ (LENGTH('a) - 1) * of_bool (high_bit w)" for w :: "'a::len word"
proof -
  have "(2 :: int) ^ LENGTH('a) = 2 * 2 ^ (LENGTH('a) - 1)" by (metis Suc_diff_1 len_gt_0 power_Suc)
  moreover have "sint w = uint w - 2 ^ LENGTH('a) * of_bool (high_bit w)"
    by (simp add: sint_uint signed_take_bit_eq_take_bit_minus high_bit_def bit_uint_iff)
  ultimately show ?thesis using uint_split [of w] by (simp add: of_bool_def)
qed

lemma maskHighBit_bit: "bit (maskHighBit :: 'a word) k \<longleftrightarrow> k = LENGTH('a::len) - 1"
proof -
  have "LENGTH('a) - 1 < LENGTH('a)" by simp
  then show ?thesis unfolding maskHighBit_def push_bit_of_1 by (auto simp: bit_exp_iff simp del: One_nat_def)
qed

lemma flip_split: "low_bits (FlipHighBit w) = low_bits w" "high_bit (FlipHighBit w) \<longleftrightarrow> \<not> high_bit w"
  for w :: "'a::len word"
proof -
  show "low_bits (FlipHighBit w) = low_bits w"
    unfolding low_bits_def FlipHighBit_def
    by (rule bit_eqI) (auto simp: bit_take_bit_iff bit_uint_iff bit_xor_iff maskHighBit_bit)
  show "high_bit (FlipHighBit w) \<longleftrightarrow> \<not> high_bit w"
    by (simp add: high_bit_def FlipHighBit_def bit_xor_iff maskHighBit_bit)
qed

lemma signed_order: "sint v < sint w \<Longrightarrow> FlipHighBit v < FlipHighBit w" for v w :: "'a::len word"
  using low_bits_range [of v] low_bits_range [of w]
  by (simp add: word_less_def uint_split [of "FlipHighBit _"] flip_split sint_split of_bool_def split: if_splits)

lemma test_high: "w AND maskHighBit \<noteq> 0 \<longleftrightarrow> high_bit w" for w :: "'a::len word"
proof -
  have "bit (w AND maskHighBit) k \<longleftrightarrow> k = LENGTH('a) - 1 \<and> high_bit w" for k
    by (auto simp: bit_and_iff maskHighBit_bit high_bit_def)
  then show ?thesis by (metis bit_0_eq bit_eqI bot_apply bot_bool_def)
qed

text \<open>
  The value of an IEEE number with \<open>m\<close> bits of mantissa, in units of the smallest positive number:
  with exponent 0 the mantissa, otherwise the mantissa with the hidden bit, shifted by the exponent.
  An infinity has a value above all finite ones.
\<close>

definition ieee_magnitude :: "nat \<Rightarrow> nat \<Rightarrow> nat" where
  "ieee_magnitude m u = (let e = u div 2 ^ m; f = u mod 2 ^ m in if e = 0 then f else (2 ^ m + f) * 2 ^ (e - 1))"

definition ieee_value :: "nat \<Rightarrow> 'a::len word \<Rightarrow> int" where
  "ieee_value m w = (if high_bit w then - int (ieee_magnitude m (nat (low_bits w))) else int (ieee_magnitude m (nat (low_bits w))))"

lemma ieee_magnitude_less:
  assumes "u < v"
  shows "ieee_magnitude m u < ieee_magnitude m v"
proof -
  let ?e = "u div 2 ^ m" and ?f = "u mod 2 ^ m" and ?e' = "v div 2 ^ m" and ?f' = "v mod 2 ^ m"
  have f: "?f < 2 ^ m" "?f' < 2 ^ m" by simp_all
  have uv: "u = 2 ^ m * ?e + ?f" "v = 2 ^ m * ?e' + ?f'" by simp_all
  have le: "?e \<le> ?e'" using assms by (simp add: div_le_mono)
  show ?thesis
  proof (cases "?e = ?e'")
    case True
    then have "?f < ?f'" using assms uv by (metis nat_add_left_cancel_less)
    then show ?thesis using True by (simp add: ieee_magnitude_def Let_def)
  next
    case False
    then have lt: "?e < ?e'" using le by simp
    have "ieee_magnitude m u < 2 ^ m * 2 ^ ?e"
    proof (cases "?e = 0")
      case False
      have "(2 ^ m + ?f) * 2 ^ (?e - 1) < (2 ^ m * 2) * 2 ^ (?e - 1)" using f(1) by (intro mult_strict_right_mono) auto
      also have "\<dots> = 2 ^ m * 2 ^ ?e" using False by (cases ?e) auto
      finally show ?thesis using False by (simp add: ieee_magnitude_def Let_def)
    qed (simp add: ieee_magnitude_def Let_def)
    also have "\<dots> \<le> 2 ^ m * 2 ^ (?e' - 1)" using lt by simp
    also have "\<dots> \<le> ieee_magnitude m v" using lt by (simp add: ieee_magnitude_def Let_def)
    finally show ?thesis .
  qed
qed

lemma ieee_magnitude_iff: "ieee_magnitude m u < ieee_magnitude m v \<longleftrightarrow> u < v"
  using ieee_magnitude_less [of u v m] ieee_magnitude_less [of v u m] by (metis less_irrefl less_trans linorder_cases)

lemma real_order:
  fixes v w :: "'a::len word"
  assumes "ieee_value m v < ieee_value m w"
  shows "norm_real v < norm_real w"
proof -
  have r: "uint (norm_real x) = (if high_bit x then 2 ^ (LENGTH('a) - 1) - 1 - low_bits x else 2 ^ (LENGTH('a) - 1) + low_bits x)" for x :: "'a word"
  proof -
    have "(2 :: int) ^ LENGTH('a) = 2 * 2 ^ (LENGTH('a) - 1)" by (metis Suc_diff_1 len_gt_0 power_Suc)
    then show ?thesis
      using uint_split [of x] uint_split [of "FlipHighBit x"] flip_split [of x] by (simp add: norm_real_def test_high uint_not)
  qed
  have iff: "int (ieee_magnitude m (nat (low_bits x))) < int (ieee_magnitude m (nat (low_bits y))) \<longleftrightarrow> low_bits x < low_bits y" for x y :: "'a word"
    using low_bits_range [of x] low_bits_range [of y] by (auto simp: ieee_magnitude_iff)
  show ?thesis
    using assms low_bits_range [of v] low_bits_range [of w] iff [of v w] iff [of w v]
    by (simp add: word_less_def r ieee_value_def split: if_splits)
qed

end
