(* ===== verification/Fldnorm_Bytes.thy ===== *)
theory Fldnorm_Bytes
  imports Fldnorm_Codes
begin

unbundle bit_operations_syntax

text \<open>
  Binary columns as chunks of eight bytes with a count, and text with a terminator: what the
  routines of \<open>Fldnorm\<close> compute when the key has room, and that the order is decided.
\<close>

section \<open>Chunks\<close>

function chunks :: "DATA \<Rightarrow> DATA" where
  "chunks xs = (if length xs \<le> 8 then xs @ replicate (8 - length xs) 0 @ [word_of_nat (length xs)] else take 8 xs @ 9 # chunks (drop 8 xs))"
  by pat_completeness auto
termination
  by (relation "measure length") auto

declare chunks.simps [simp del]

definition cchunks :: "DATA \<Rightarrow> nat" where
  "cchunks xs = (length xs + 7) div 8"

lemma cchunks_last: "xs \<noteq> [] \<Longrightarrow> length xs \<le> 8 \<Longrightarrow> cchunks xs = 1"
  by (cases xs) (auto simp: cchunks_def)

lemma cchunks_more: "8 < length xs \<Longrightarrow> cchunks xs = Suc (cchunks (drop 8 xs))"
  by (simp add: cchunks_def)

lemma length_chunks: "xs \<noteq> [] \<Longrightarrow> length (chunks xs) = 9 * cchunks xs"
proof (induction xs rule: chunks.induct)
  case (1 xs)
  then show ?case
    by (cases "length xs \<le> 8") (simp_all add: chunks.simps [of xs] cchunks_last cchunks_more)
qed

lemma chunk_loop_whole:
  assumes "xs \<noteq> []"
  shows "\<exists>rest ib. chunk_loop True (9 * cchunks xs) xs seg ib0 = (seg @ chunks xs, rest, 0, ib)"
  using assms
proof (induction xs arbitrary: seg ib0 rule: chunks.induct)
  case (1 xs)
  show ?case
  proof (cases "length xs \<le> 8")
    case True
    have z: "chunk_loop True 0 ys t i = (t, ys, 0, i)" for ys t i
      by (subst chunk_loop.simps) (simp add: cbFLDBinaryChunkNormalized_def)
    have "chunk_loop True 9 xs seg ib0 = (seg @ chunks xs, xs, 0, length seg + length xs)"
      using True by (subst chunk_loop.simps) (simp add: z chunks.simps [of xs] cbFLDBinaryChunkNormalized_def cbFLDBinaryChunk_def)
    then show ?thesis using cchunks_last [OF 1(2) True] by simp
  next
    case False
    then obtain rest ib where "chunk_loop True (9 * cchunks (drop 8 xs)) (drop 8 xs) (seg @ take 8 xs @ [9]) ib0
        = ((seg @ take 8 xs @ [9]) @ chunks (drop 8 xs), rest, 0, ib)"
      using 1 by fastforce
    then have "chunk_loop True (9 * Suc (cchunks (drop 8 xs))) xs seg ib0 = (seg @ chunks xs, rest, 0, ib)"
      using False by (subst chunk_loop.simps) (simp add: chunks.simps [of xs] cbFLDBinaryChunkNormalized_def cbFLDBinaryChunk_def)
    then show ?thesis using False cchunks_more [of xs] by simp
  qed
qed

lemma binary_whole:
  assumes "xs \<noteq> []" and "9 * cchunks xs + 1 \<le> avail" and "most < mac"
  shows "\<exists>ib. FLDNormalizeBinarySegment xs avail most mac False = (bPrefixData # chunks xs, False, ib)"
proof -
  have "(length xs + (cbFLDBinaryChunk - 1)) div cbFLDBinaryChunk * cbFLDBinaryChunkNormalized = 9 * cchunks xs"
    by (simp add: cchunks_def cbFLDBinaryChunk_def cbFLDBinaryChunkNormalized_def)
  moreover obtain rest ib where "chunk_loop True (9 * cchunks xs) xs [bPrefixData] 0 = ([bPrefixData] @ chunks xs, rest, 0, ib)"
    using chunk_loop_whole [OF assms(1)] by blast
  ultimately show ?thesis using assms by (simp add: FLDNormalizeBinarySegment_def Let_def)
qed

lemma before_8:
  assumes "before xs ys"
  shows "before (take 8 xs) (take 8 ys) \<or> 8 < length xs \<and> 8 < length ys \<and> take 8 xs = take 8 ys \<and> before (drop 8 xs) (drop 8 ys)"
proof -
  obtain i where i: "i < length xs" "i < length ys" "take i xs = take i ys" "xs ! i < ys ! i" using assms by (auto simp: before_def)
  show ?thesis
  proof (cases "i < 8")
    case True
    then have "before (take 8 xs) (take 8 ys)" using i unfolding before_def by (intro exI [of _ i]) (auto simp: min_def)
    then show ?thesis ..
  next
    case False
    then have t: "take 8 xs = take 8 ys" using i(3) by (metis linorder_not_less min.absorb1 take_take)
    have "take (i - 8) (drop 8 xs) = take (i - 8) (drop 8 ys)" using i(3) False by (metis drop_take)
    then have "before (drop 8 xs) (drop 8 ys)" using i False unfolding before_def by (intro exI [of _ "i - 8"]) auto
    then show ?thesis using t i False by simp
  qed
qed

lemma pad_before: "length zs = n \<Longrightarrow> n < 256 \<Longrightarrow> m < 256 \<Longrightarrow> c < m \<Longrightarrow>
    before (replicate n 0 @ word_of_nat c # s) (zs @ (word_of_nat m :: BYTE) # t)"
proof (induction n arbitrary: zs)
  case 0
  then show ?case by (simp add: word_of_nat_less_iff take_bit_nat_eq_self)
next
  case (Suc n)
  then obtain z zs' where "zs = z # zs'" "length zs' = n" by (cases zs) auto
  then show ?case using Suc by (cases "z = 0") (auto simp: word_neq_0_conv)
qed

lemma less_append: "(a :: DATA) < a @ z # zs"
  by (induction a) auto

lemma chunks_before: "xs < ys \<Longrightarrow> before (chunks xs) (chunks ys)"
proof (induction xs arbitrary: ys rule: chunks.induct)
  case (1 xs)
  have head: "chunks zs = take 8 zs @ replicate (8 - length zs) 0 @ [word_of_nat (length zs)] \<or> 8 < length zs \<and> chunks zs = take 8 zs @ 9 # chunks (drop 8 zs)" for zs
    by (subst (1 2) chunks.simps) auto
  from less_cases [OF 1(2)] show ?case
  proof
    assume "before xs ys"
    from before_8 [OF this] show ?thesis
    proof
      assume "before (take 8 xs) (take 8 ys)"
      then have "before (take 8 xs @ s) (take 8 ys @ t)" for s t by (rule before_append)
      then show ?thesis using head [of xs] head [of ys] by metis
    next
      assume a: "8 < length xs \<and> 8 < length ys \<and> take 8 xs = take 8 ys \<and> before (drop 8 xs) (drop 8 ys)"
      then have "before (chunks (drop 8 xs)) (chunks (drop 8 ys))" using 1(1) before_less by simp
      then show ?thesis using a by (simp add: chunks.simps [of xs] chunks.simps [of ys])
    qed
  next
    assume "\<exists>z zs. ys = xs @ z # zs"
    then obtain z zs where ys: "ys = xs @ z # zs" by blast
    show ?thesis
    proof (cases "length xs \<le> 8")
      case True
      let ?us = "z # zs" and ?m = "if length ys \<le> 8 then length ys else 9"
      obtain t where t: "chunks ys = xs @ take (8 - length xs) (?us @ replicate 8 0) @ word_of_nat ?m # t"
      proof (cases "length ys \<le> 8")
        case short: True
        have t: "take (8 - length xs) (?us @ replicate 8 0) = ?us @ replicate (8 - length ys) 0"
          using short ys by (subst take_append) (simp add: take_replicate min_def)
        have c: "chunks ys = ys @ replicate (8 - length ys) 0 @ [word_of_nat (length ys)]" using short by (simp add: chunks.simps [of ys])
        show ?thesis by (rule that [of "[]"], simp only: t c) (use short ys in simp)
      next
        case long: False
        have t: "take (8 - length xs) (?us @ replicate 8 0) = take (8 - length xs) ?us" using long ys by (subst take_append) simp
        have c: "chunks ys = take 8 ys @ 9 # chunks (drop 8 ys)" using long by (simp add: chunks.simps [of ys])
        show ?thesis by (rule that [of "chunks (drop 8 ys)"], simp only: t c) (use long ys True in simp)
      qed
      have "before (replicate (8 - length xs) 0 @ word_of_nat (length xs) # [])
          (take (8 - length xs) (?us @ replicate 8 0) @ (word_of_nat ?m :: BYTE) # t)"
        by (rule pad_before) (use True ys in auto)
      then show ?thesis unfolding t using True by (simp add: chunks.simps [of xs])
    next
      case False
      have "drop 8 xs < drop 8 ys" using False ys less_append [of "drop 8 xs"] by simp
      then have "before (chunks (drop 8 xs)) (chunks (drop 8 ys))" using 1(1) False by simp
      moreover have "chunks ys = take 8 xs @ 9 # chunks (drop 8 ys)" using False ys by (subst chunks.simps) simp
      ultimately show ?thesis using False by (simp add: chunks.simps [of xs])
    qed
  qed
qed

section \<open>Text\<close>

definition ascii_text :: "DATA \<Rightarrow> DATA" where
  "ascii_text bs = crt_clocale_strupr (c_string bs)"

lemma ascii_text_nonzero: "0 \<notin> set (ascii_text bs)"
proof -
  have "(if 0x61 \<le> c \<and> c \<le> 0x7a then c - 0x20 else c) \<noteq> 0" if "c \<noteq> 0" for c :: BYTE
  proof
    assume "(if 0x61 \<le> c \<and> c \<le> 0x7a then c - 0x20 else c) = 0"
    with that have "c = 0x20" "0x61 \<le> c" by (auto split: if_splits)
    then show False by simp
  qed
  moreover have "0 \<notin> set (c_string bs)" by (auto simp: c_string_def dest: set_takeWhileD)
  ultimately show ?thesis by (auto simp: ascii_text_def crt_clocale_strupr_def image_iff)
qed

lemma terminated_before:
  assumes "0 \<notin> set a" "0 \<notin> set b" and "a < b"
  shows "before (a @ [0]) (b @ [0 :: BYTE])"
  using less_cases [OF assms(3)]
proof
  assume "\<exists>z zs. b = a @ z # zs"
  then show ?thesis using assms(2) by (auto simp: word_neq_0_conv)
qed (rule before_append)

lemma text_whole:
  assumes "xs \<noteq> []" and "length xs + 2 \<le> avail" and "avail \<le> most" "most < mac" and "most = 255 \<longrightarrow> length xs \<le> 255" and "cp \<noteq> usUniCodePage"
  shows "ErrFLDNormalizeTextSegment ms xs avail most mac cp = Inr (bPrefixData # ascii_text xs @ [0], errSuccess)"
  using assms
  by (auto simp: ErrFLDNormalizeTextSegment_def Let_def ErrUtilNormText_def ascii_text_def fld_error_def JET_cbKeyMost_OLD_def)

section \<open>Columns\<close>

text \<open>The segment of a value when the key has room for it, and the room it needs.\<close>

definition full_segment :: "IDB \<Rightarrow> IDXSEG \<Rightarrow> DATA option \<Rightarrow> DATA" where
  "full_segment pidb c v =
     (let t = fld_coltyp (pfield c) in
      if v = None \<or> v = Some [] then FLDNormalizeNullSegment t (v \<noteq> None) (FSortNullsHigh pidb)
      else bPrefixData #
        (if FRECTextColumn t then ascii_text (the v) @ [0]
         else if FRECBinaryColumn t then (if FFixed c then the v else chunks (the v))
         else tl (the (FLDNormalizeFixedSegment (the v) t (FDotNetGuid pidb)))))"

definition room :: "IDXSEG \<Rightarrow> DATA option \<Rightarrow> nat" where
  "room c v =
     (let t = fld_coltyp (pfield c) in
      case v of
        None \<Rightarrow> 1
      | Some x \<Rightarrow> if x = [] then 1
                   else if FRECTextColumn t then length x + 2
                   else if FRECBinaryColumn t \<and> \<not> FFixed c then 9 * cchunks x + 1 else length x + 1)"

fun type_size :: "JET_COLTYP \<Rightarrow> nat option" where
  "type_size JET_coltypBit = Some 1"
| "type_size JET_coltypUnsignedByte = Some 1"
| "type_size JET_coltypShort = Some 2"
| "type_size JET_coltypUnsignedShort = Some 2"
| "type_size JET_coltypLong = Some 4"
| "type_size JET_coltypUnsignedLong = Some 4"
| "type_size JET_coltypIEEESingle = Some 4"
| "type_size JET_coltypLongLong = Some 8"
| "type_size JET_coltypCurrency = Some 8"
| "type_size JET_coltypUnsignedLongLong = Some 8"
| "type_size JET_coltypIEEEDouble = Some 8"
| "type_size JET_coltypDateTime = Some 8"
| "type_size JET_coltypGUID = Some 16"
| "type_size _ = None"

text \<open>A value that fits its column: a number has the size of its type, text is not Unicode, and only text
  and variable binary columns can be empty.\<close>

definition column_ok :: "IDXSEG \<Rightarrow> DATA option \<Rightarrow> bool" where
  "column_ok c v \<longleftrightarrow>
     (let t = fld_coltyp (pfield c) in
      (FRECTextColumn t \<longrightarrow> fld_cp (pfield c) \<noteq> usUniCodePage)
      \<and> (case v of
           None \<Rightarrow> True
         | Some x \<Rightarrow> if FRECTextColumn t then True
                      else if FRECBinaryColumn t then (FFixed c \<longrightarrow> x \<noteq> [] \<and> length x = fld_cbMaxLen (pfield c))
                      else type_size t = Some (length x))
      \<and> (FRECTextColumn t \<or> FRECBinaryColumn t \<or> type_size t \<noteq> None))"

lemma type_size_pos: "type_size t = Some n \<Longrightarrow> 0 < n"
  by (cases t) auto

lemma fixed_some:
  assumes "type_size t = Some (length x)"
  shows "\<exists>bs. FLDNormalizeFixedSegment x t g = Some (bPrefixData # bs) \<and> length bs = length x"
  using assms by (cases t) (auto simp: FLDNormalizeFixedSegment_def store_be_def guid_order_def)

lemma column_whole:
  assumes "column_ok c v" and "room c v \<le> avail" and "avail \<le> CbKeyMost pidb" and "CbVarSegMac pidb = CbKeyMost pidb"
    and "CbKeyMost pidb = 255 \<longrightarrow> (\<forall>x. v = Some x \<longrightarrow> length x \<le> 255)"
  shows "column_segment ms pidb c v avail = Some (Inr (full_segment pidb c v, False))"
proof (cases "v = None \<or> v = Some []")
  case True
  then show ?thesis by (auto simp: column_segment_def full_segment_def Let_def)
next
  case False
  then obtain x where v: "v = Some x" "x \<noteq> []" by auto
  let ?t = "fld_coltyp (pfield c)"
  have mac: "CbKeyMost pidb < segment_mac pidb" using assms(4) by (simp add: segment_mac_def)
  consider (chars) "FRECTextColumn ?t" | (bin) "\<not> FRECTextColumn ?t" "FRECBinaryColumn ?t" | (fixed) "\<not> FRECTextColumn ?t" "\<not> FRECBinaryColumn ?t" by blast
  then show ?thesis
  proof cases
    case chars
    then show ?thesis
      using text_whole [OF v(2), of avail "CbKeyMost pidb" "segment_mac pidb" "fld_cp (pfield c)" ms] assms mac v
      by (auto simp: column_segment_def full_segment_def Let_def room_def column_ok_def)
  next
    case bin
    show ?thesis
    proof (cases "FFixed c")
      case True
      then show ?thesis
        using bin assms mac v by (auto simp: column_segment_def full_segment_def Let_def room_def FLDNormalizeBinarySegment_def)
    next
      case False
      then show ?thesis
        using bin binary_whole [OF v(2), of avail "CbKeyMost pidb" "segment_mac pidb"] assms mac v
        by (auto simp: column_segment_def full_segment_def Let_def room_def)
    qed
  next
    case fixed
    then have "type_size ?t = Some (length x)" using assms(1) v by (simp add: column_ok_def Let_def)
    then show ?thesis using fixed_some [of ?t x "FDotNetGuid pidb"] fixed v by (auto simp: column_segment_def full_segment_def Let_def)
  qed
qed

lemma length_full: "column_ok c v \<Longrightarrow> length (full_segment pidb c v) \<le> room c v"
proof -
  assume ok: "column_ok c v"
  have t: "length (ascii_text x) \<le> length x" for x by (simp add: ascii_text_def crt_clocale_strupr_def c_string_def length_takeWhile_le)
  show ?thesis
  proof (cases "v = None \<or> v = Some []")
    case True
    then show ?thesis by (auto simp: full_segment_def room_def FLDNormalizeNullSegment_def Let_def)
  next
    case False
    then obtain x where v: "v = Some x" "x \<noteq> []" by auto
    then show ?thesis
      using ok fixed_some [of "fld_coltyp (pfield c)" x "FDotNetGuid pidb"] length_chunks [OF v(2)] t [of x]
      by (auto simp: full_segment_def room_def Let_def column_ok_def)
  qed
qed

end
