(* ===== verification/Fldnorm_Keys.thy ===== *)
theory Fldnorm_Keys
  imports Fldnorm_Bytes
begin

unbundle bit_operations_syntax

text \<open>
  The order of column values, the interpretation of the segment code on the model's columns, and
  the key of a record when it has room: the segments of its columns one after the other.
\<close>

section \<open>Order of values\<close>

definition value_less :: "IDB \<Rightarrow> IDXSEG \<Rightarrow> DATA \<Rightarrow> DATA \<Rightarrow> bool" where
  "value_less pidb c x y \<longleftrightarrow>
     (case fld_coltyp (pfield c) of
        JET_coltypBit \<Rightarrow> x ! 0 = 0 \<and> y ! 0 \<noteq> 0
      | JET_coltypUnsignedByte \<Rightarrow> x ! 0 < y ! 0
      | JET_coltypShort \<Rightarrow> sint (load_le x :: 16 word) < sint (load_le y :: 16 word)
      | JET_coltypUnsignedShort \<Rightarrow> uint (load_le x :: 16 word) < uint (load_le y :: 16 word)
      | JET_coltypLong \<Rightarrow> sint (load_le x :: 32 word) < sint (load_le y :: 32 word)
      | JET_coltypUnsignedLong \<Rightarrow> uint (load_le x :: 32 word) < uint (load_le y :: 32 word)
      | JET_coltypLongLong \<Rightarrow> sint (load_le x :: 64 word) < sint (load_le y :: 64 word)
      | JET_coltypCurrency \<Rightarrow> sint (load_le x :: 64 word) < sint (load_le y :: 64 word)
      | JET_coltypUnsignedLongLong \<Rightarrow> uint (load_le x :: 64 word) < uint (load_le y :: 64 word)
      | JET_coltypIEEESingle \<Rightarrow> ieee_value 23 (load_le x :: 32 word) < ieee_value 23 (load_le y :: 32 word)
      | JET_coltypIEEEDouble \<Rightarrow> ieee_value 52 (load_le x :: 64 word) < ieee_value 52 (load_le y :: 64 word)
      | JET_coltypDateTime \<Rightarrow> ieee_value 52 (load_le x :: 64 word) < ieee_value 52 (load_le y :: 64 word)
      | JET_coltypGUID \<Rightarrow> map (\<lambda>i. x ! i) (guid_order (FDotNetGuid pidb)) < map (\<lambda>i. y ! i) (guid_order (FDotNetGuid pidb))
      | JET_coltypText \<Rightarrow> ascii_text x < ascii_text y
      | JET_coltypLongText \<Rightarrow> ascii_text x < ascii_text y
      | JET_coltypBinary \<Rightarrow> x < y
      | JET_coltypLongBinary \<Rightarrow> x < y
      | JET_coltypNil \<Rightarrow> False)"

text \<open>Nulls come first or last, empty values before all others.\<close>

definition value_rank :: "IDB \<Rightarrow> DATA option \<Rightarrow> nat" where
  "value_rank pidb v = (case v of None \<Rightarrow> if FSortNullsHigh pidb then 3 else 0 | Some x \<Rightarrow> if x = [] then 1 else 2)"

definition column_less :: "IDB \<Rightarrow> IDXSEG \<Rightarrow> DATA option \<Rightarrow> DATA option \<Rightarrow> bool" where
  "column_less pidb c v w \<longleftrightarrow> value_rank pidb v < value_rank pidb w
     \<or> value_rank pidb v = 2 \<and> value_rank pidb w = 2 \<and> value_less pidb c (the v) (the w)"

lemma fixed_decided:
  assumes x: "type_size (fld_coltyp (pfield c)) = Some (length x)" and y: "type_size (fld_coltyp (pfield c)) = Some (length y)"
    and l: "value_less pidb c x y"
  shows "before (tl (the (FLDNormalizeFixedSegment x (fld_coltyp (pfield c)) (FDotNetGuid pidb))))
    (tl (the (FLDNormalizeFixedSegment y (fld_coltyp (pfield c)) (FDotNetGuid pidb))))"
proof -
  have uns: "uint v < uint w \<Longrightarrow> before (store_be n v) (store_be n w)" if "LENGTH('a) = 8 * n" for v w :: "'a::len word" and n
    using store_be_before [OF that, of v w] by (simp add: word_less_def)
  note sgn = store_be_before [OF _ signed_order] and flt = store_be_before [OF _ real_order]
  have len: "length (map (\<lambda>i. x ! i) is) = length (map (\<lambda>i. y ! i) is)" for "is" by simp
  have bit: "before [0] [0xff]" and byte: "a < b \<Longrightarrow> before [a] [b]" for a b by simp_all
  show ?thesis
    using x y l same_length_before [OF len]
    by (cases "fld_coltyp (pfield c)")
      (auto simp: FLDNormalizeFixedSegment_def value_less_def simp del: before_Cons intro!: uns sgn flt bit byte)
qed

lemma column_decided:
  assumes "column_ok c v" and "column_ok c w" and "column_less pidb c v w"
  shows "before (full_segment pidb c v) (full_segment pidb c w)"
proof (cases "value_rank pidb v = 2 \<and> value_rank pidb w = 2")
  case False
  let ?t = "fld_coltyp (pfield c)"
  have null: "FRECTextColumn ?t \<or> FRECBinaryColumn ?t" if "column_ok c (Some [])"
    using that type_size_pos [of ?t 0] by (auto simp: column_ok_def Let_def split: if_splits)
  show ?thesis
    using False assms null
    by (auto simp: column_less_def value_rank_def full_segment_def FLDNormalizeNullSegment_def Let_def
        bPrefixNull_def bPrefixZeroLength_def bPrefixNullHigh_def bPrefixData_def split: option.splits if_splits)
next
  case True
  then obtain x y where v: "v = Some x" "x \<noteq> []" "w = Some y" "y \<noteq> []" and l: "value_less pidb c x y"
    using assms(3) by (auto simp: column_less_def value_rank_def split: option.splits if_splits)
  let ?t = "fld_coltyp (pfield c)"
  consider (chars) "FRECTextColumn ?t" | (bin) "\<not> FRECTextColumn ?t" "FRECBinaryColumn ?t" | (fixed) "\<not> FRECTextColumn ?t" "\<not> FRECBinaryColumn ?t" by blast
  then show ?thesis
  proof cases
    case chars
    then have "ascii_text x < ascii_text y" using l by (auto simp: value_less_def FRECTextColumn_def)
    then show ?thesis using chars v terminated_before [OF ascii_text_nonzero ascii_text_nonzero] by (simp add: full_segment_def Let_def)
  next
    case bin
    then have "x < y" using l by (auto simp: value_less_def FRECBinaryColumn_def)
    then show ?thesis
      using bin v assms(1,2) chunks_before [of x y] same_length_before [of x y] by (auto simp: full_segment_def Let_def column_ok_def)
  next
    case fixed
    then have "type_size ?t = Some (length x)" "type_size ?t = Some (length y)" using assms(1,2) v by (simp_all add: column_ok_def Let_def)
    then show ?thesis using fixed v fixed_decided [OF _ _ l] by (simp add: full_segment_def Let_def)
  qed
qed

interpretation columns: directed_code "full_segment pidb" "column_less pidb" column_ok FDescending for pidb
  by unfold_locales (rule column_decided)

section \<open>The key of a record\<close>

definition row_key :: "IDB \<Rightarrow> DATA option list \<Rightarrow> DATA" where
  "row_key pidb vs = concat (map2 (\<lambda>c v. flip (FDescending c) (full_segment pidb c v)) (rgidxseg pidb) vs)"

definition row_room :: "IDXSEG list \<Rightarrow> DATA option list \<Rightarrow> nat" where
  "row_room cs vs = sum_list (map2 room cs vs)"

lemma room_length: "room c (Some x) > length x"
proof -
  have "length x \<le> 8 * cchunks x" by (simp add: cchunks_def)
  then show ?thesis by (auto simp: room_def Let_def)
qed

lemma length_flip [simp]: "length (flip d bs) = length bs"
  by (simp add: flip_def)

lemma mark_null_sel [simp]: "cbKeyAvail (mark_null b v s) = cbKeyAvail s" "ks_key (mark_null b v s) = ks_key s"
  "fKeyTruncated (mark_null b v s) = fKeyTruncated s" "fNeedMoreData (mark_null b v s) = fNeedMoreData s"
  by (simp_all add: mark_null_def)

lemma segments_whole:
  assumes "list_all2 column_ok cs vs" and "row_room cs vs \<le> cbKeyAvail s" and "cbKeyAvail s \<le> CbKeyMost pidb" and "CbKeyMost pidb \<le> n"
    and "CbVarSegMac pidb = CbKeyMost pidb" and "\<not> fColumnTruncated s" "\<not> fKeyTruncated s" "\<not> fNeedMoreData s"
  shows "\<exists>s'. retrieve_segments ms pidb n b (zip cs vs) s = Some (Inr s') \<and> \<not> fNeedMoreData s'
    \<and> ks_key s' = ks_key s @ concat (map2 (\<lambda>c v. flip (FDescending c) (full_segment pidb c v)) cs vs)"
  using assms
proof (induction cs arbitrary: vs s b)
  case (Cons c cs)
  then obtain v vs' where v: "vs = v # vs'" "column_ok c v" "list_all2 column_ok cs vs'" by (auto simp: list_all2_Cons1)
  have r: "room c v + row_room cs vs' \<le> cbKeyAvail s" using Cons.prems(2) v(1) by (simp add: row_room_def)
  have short: "length x < n" "length x < CbKeyMost pidb" if "v = Some x" for x using room_length [of x c] that r Cons.prems(3,4) by auto
  have "0 < room c v" by (auto simp: room_def Let_def split: option.splits)
  then have av: "cbKeyAvail s \<noteq> 0" using r by simp
  have tk: "map_option (take n) v = v" using short by (cases v) auto
  have w: "column_segment ms pidb c v (cbKeyAvail s) = Some (Inr (full_segment pidb c v, False))"
    using column_whole [OF v(2) _ Cons.prems(3,5), of ms] r short by fastforce
  have len: "length (full_segment pidb c v) \<le> cbKeyAvail s - row_room cs vs'" "length (full_segment pidb c v) \<le> cbKeyAvail s"
    using length_full [OF v(2), of pidb] r by simp_all
  have nd: "(case v of None \<Rightarrow> 0 | Some d \<Rightarrow> length d) \<noteq> n" using short Cons.prems(3,4) av by (cases v) auto
  obtain s1 where s1: "retrieve_segment ms pidb n b (c, v) s = Some (Inr s1)" "cbKeyAvail s1 = cbKeyAvail s - length (full_segment pidb c v)"
    "ks_key s1 = ks_key s @ flip (FDescending c) (full_segment pidb c v)" "\<not> fColumnTruncated s1" "\<not> fKeyTruncated s1" "\<not> fNeedMoreData s1"
    using av w len nd Cons.prems(6-8) by (simp add: retrieve_segment_def append_segment_def Let_def tk)
  have "row_room cs vs' \<le> cbKeyAvail s1" "cbKeyAvail s1 \<le> CbKeyMost pidb"
    using s1(2) length_full [OF v(2), of pidb] r Cons.prems(3) by simp_all
  then show ?case using Cons.IH [of vs' s1 False] s1 v Cons.prems(4,5) by auto
qed auto

lemma retrieve_key_whole:
  assumes "list_all2 column_ok (rgidxseg pidb) vs" and "row_room (rgidxseg pidb) vs \<le> CbKeyMost pidb"
    and "CbVarSegMac pidb = CbKeyMost pidb" and "CbKeyMost pidb < 65536"
  shows "\<exists>err. ErrRECIRetrieveKey ms pidb vs = Some (Inr (row_key pidb vs, err))"
proof -
  have u: "unat (word_of_nat (CbKeyMost pidb) :: ULONG) = CbKeyMost pidb" using assms(4) by (simp add: unsigned_of_nat take_bit_nat_eq_self)
  obtain s' where s': "retrieve_segments ms pidb (CbKeyMost pidb) True (zip (rgidxseg pidb) vs) (key_start pidb) = Some (Inr s')"
    "\<not> fNeedMoreData s'" "ks_key s' = row_key pidb vs"
    using segments_whole [OF assms(1), of "key_start pidb" pidb "CbKeyMost pidb" ms True] assms(2,3) by (auto simp: key_start_def row_key_def)
  then show ?thesis
    unfolding ErrRECIRetrieveKey_def by (subst retrieve_key_loop.simps) (simp add: ErrRECIIRetrieveKey_def u)
qed

section \<open>The loop for more data ends\<close>

definition indexable :: "IDXSEG \<Rightarrow> bool" where
  "indexable c \<longleftrightarrow> FRECTextColumn (fld_coltyp (pfield c)) \<or> FRECBinaryColumn (fld_coltyp (pfield c)) \<or> type_size (fld_coltyp (pfield c)) \<noteq> None"

lemma column_defined: "indexable c \<Longrightarrow> \<exists>r. column_segment ms pidb c v avail = Some r"
  by (cases "fld_coltyp (pfield c)") (auto simp: column_segment_def Let_def indexable_def FLDNormalizeFixedSegment_def)

lemma append_need: "append_segment pidb c seg s = Inr s' \<Longrightarrow> fNeedMoreData s' = fNeedMoreData s"
  by (auto simp: append_segment_def Let_def split: if_splits)

lemma segment_defined:
  assumes "indexable c"
  shows "(\<exists>err. retrieve_segment ms pidb n b (c, v) s = Some (Inl err))
    \<or> (\<exists>s'. retrieve_segment ms pidb n b (c, v) s = Some (Inr s')
        \<and> (fNeedMoreData s' \<longrightarrow> fNeedMoreData s \<or> n = 0 \<or> (\<exists>x. v = Some x \<and> n \<le> length x)))"
proof (cases "cbKeyAvail s = 0")
  case True
  then show ?thesis by (simp add: retrieve_segment_def no_space_def)
next
  case False
  let ?v = "map_option (take n) v"
  obtain r where r: "column_segment ms pidb c ?v (cbKeyAvail s) = Some r" using column_defined [OF assms] by blast
  show ?thesis
  proof (cases r)
    case (Inr a)
    obtain seg tr where a: "a = (seg, tr)" by (cases a)
    define s1 where "s1 = (mark_null b v s)\<lparr>fAllNulls := fAllNulls s \<and> v = None, fColumnTruncated := fColumnTruncated s \<or> tr,
      fNeedMoreData := fNeedMoreData s \<or> (case ?v of None \<Rightarrow> 0 | Some d \<Rightarrow> length d) = n \<and> length seg < CbKeyMost pidb
        \<and> length seg < cbKeyAvail s \<and> length seg < CbVarSegMac pidb \<and> CbKeyMost pidb \<noteq> JET_cbKeyMost_OLD\<rparr>"
    have e: "retrieve_segment ms pidb n b (c, v) s = Some (append_segment pidb c seg s1)"
      using False r Inr a by (simp add: retrieve_segment_def Let_def s1_def)
    have "fNeedMoreData s1 \<longrightarrow> fNeedMoreData s \<or> n = 0 \<or> (\<exists>x. v = Some x \<and> n \<le> length x)"
      by (cases v) (auto simp: s1_def)
    then show ?thesis using e append_need [of pidb c seg s1] by (cases "append_segment pidb c seg s1") auto
  qed (use False r in \<open>simp add: retrieve_segment_def Let_def\<close>)
qed

lemma segments_defined:
  assumes "list_all indexable cs"
  shows "(\<exists>err. retrieve_segments ms pidb n b (zip cs vs) s = Some (Inl err))
    \<or> (\<exists>s'. retrieve_segments ms pidb n b (zip cs vs) s = Some (Inr s')
        \<and> (fNeedMoreData s' \<longrightarrow> fNeedMoreData s \<or> n = 0 \<or> (\<exists>x. Some x \<in> set vs \<and> n \<le> length x)))"
  using assms
proof (induction cs arbitrary: vs s b)
  case (Cons c cs)
  show ?case
  proof (cases vs)
    case (Cons v vs')
    have c: "indexable c" "list_all indexable cs" using Cons.prems by simp_all
    from segment_defined [OF c(1), of ms pidb n b v s] show ?thesis
    proof
      assume "\<exists>s1. retrieve_segment ms pidb n b (c, v) s = Some (Inr s1)
        \<and> (fNeedMoreData s1 \<longrightarrow> fNeedMoreData s \<or> n = 0 \<or> (\<exists>x. v = Some x \<and> n \<le> length x))"
      then obtain s1 where s1: "retrieve_segment ms pidb n b (c, v) s = Some (Inr s1)"
        "fNeedMoreData s1 \<longrightarrow> fNeedMoreData s \<or> n = 0 \<or> (\<exists>x. v = Some x \<and> n \<le> length x)" by blast
      show ?thesis using Cons.IH [OF c(2), of False vs' s1] s1 by (auto simp: \<open>vs = v # vs'\<close>)
    qed (auto simp: \<open>vs = v # vs'\<close>)
  qed simp
qed simp

lemma loop_ends:
  assumes cs: "list_all indexable (rgidxseg pidb)" and len: "\<forall>x. Some x \<in> set vs \<longrightarrow> length x < 2 ^ 31" and "0 < n"
  shows "\<exists>r. retrieve_key_loop ms pidb vs n = Some r"
  using assms(3)
proof (induction "2 ^ 32 - unat n" arbitrary: n rule: less_induct)
  case less
  have n0: "0 < unat n" using less.prems by (simp add: word_less_nat_alt)
  from segments_defined [OF cs, of ms pidb "unat n" True vs "key_start pidb"] show ?case
  proof
    assume "\<exists>err. retrieve_segments ms pidb (unat n) True (zip (rgidxseg pidb) vs) (key_start pidb) = Some (Inl err)"
    then show ?thesis by (subst retrieve_key_loop.simps) (auto simp: ErrRECIIRetrieveKey_def)
  next
    assume "\<exists>s'. retrieve_segments ms pidb (unat n) True (zip (rgidxseg pidb) vs) (key_start pidb) = Some (Inr s')
        \<and> (fNeedMoreData s' \<longrightarrow> fNeedMoreData (key_start pidb) \<or> unat n = 0 \<or> (\<exists>x. Some x \<in> set vs \<and> unat n \<le> length x))"
    then obtain s' where s': "retrieve_segments ms pidb (unat n) True (zip (rgidxseg pidb) vs) (key_start pidb) = Some (Inr s')"
      "fNeedMoreData s' \<longrightarrow> (\<exists>x. Some x \<in> set vs \<and> unat n \<le> length x)" using n0 by (auto simp: key_start_def)
    show ?thesis
    proof (cases "fNeedMoreData s'")
      case False
      then show ?thesis using s'(1) by (subst retrieve_key_loop.simps) (simp add: ErrRECIIRetrieveKey_def)
    next
      case True
      then have "unat n < 2 ^ 31" using s'(2) len by fastforce
      then have dbl: "unat (n * 2) = 2 * unat n" by (simp add: unat_word_ariths)
      have "\<exists>r. retrieve_key_loop ms pidb vs (n * 2) = Some r"
        using less.hyps [of "n * 2"] dbl n0 \<open>unat n < 2 ^ 31\<close> by (simp add: word_less_nat_alt)
      then show ?thesis using s'(1) True by (subst retrieve_key_loop.simps) (simp add: ErrRECIIRetrieveKey_def)
    qed
  qed
qed

end
