(* ===== verification/Fldnorm_Read.thy ===== *)
theory Fldnorm_Read
  imports Fldnorm_Keys
begin

unbundle bit_operations_syntax

text \<open>Columns read back from the segments they were normalised to.\<close>

section \<open>Complemented bytes\<close>

lemma flip_mask: "flip d bs = map (\<lambda>b. bMask d XOR b) bs"
  by (auto simp: flip_def bMask_def xor_ff)

lemma mask_twice [simp]: "bMask d XOR (bMask d XOR b) = b"
  by (simp flip: xor.assoc)

lemma mask_eq_iff [simp]: "bMask d XOR a = bMask d XOR b \<longleftrightarrow> a = b"
  by (metis mask_twice)

lemma map_mask_twice [simp]: "map (\<lambda>b. bMask d XOR b) (map (\<lambda>b. bMask d XOR b) bs) = bs"
  by (simp add: comp_def)

lemma load_be_flip:
  assumes "LENGTH('a) = 8 * length bs"
  shows "bMask d XOR load_be (flip d bs) = (load_be bs :: 'a::len word)"
proof (rule bit_word_eqI)
  fix n assume n: "n < LENGTH('a)"
  then have i: "n div 8 < length bs" "n mod 8 < 8" using assms by auto
  then have "bit (rev (flip d bs) ! (n div 8)) (n mod 8) = (bit (rev bs ! (n div 8)) (n mod 8) \<noteq> d)"
    by (simp add: flip_def rev_map xor_ff bit_not_iff)
  then show "bit (bMask d XOR load_be (flip d bs) :: 'a word) n = bit (load_be bs :: 'a word) n"
    using n i by (auto simp: load_be_def bit_xor_iff bit_load_le bMask_def)
qed

lemma load_store_be: "LENGTH('a) = 8 * n \<Longrightarrow> load_be (store_be n w) = (w :: 'a::len word)"
  by (simp add: load_be_def store_be_def)

lemma load_flip_store: "LENGTH('a) = 8 * n \<Longrightarrow> bMask d XOR load_be (flip d (store_be n w)) = (w :: 'a::len word)"
  using load_be_flip [of "store_be n w" d, where 'a = 'a] load_store_be [of n w] by (simp add: store_be_def)

lemma flip_high_twice [simp]: "FlipHighBit (FlipHighBit w) = w"
  by (simp add: FlipHighBit_def xor.assoc)

lemma load_flip_signed: "LENGTH('a) = 8 * n \<Longrightarrow> bMask d XOR FlipHighBit (load_be (flip d (store_be n (FlipHighBit w)))) = (w :: 'a::len word)"
proof -
  assume n: "LENGTH('a) = 8 * n"
  have "bMask d XOR FlipHighBit x = FlipHighBit (bMask d XOR x)" for x :: "'a word" by (simp add: FlipHighBit_def xor.assoc)
  then show ?thesis using load_flip_store [OF n] by simp
qed

lemma denorm_norm: "denorm_real (norm_real w) = w" for w :: "'a::len word"
proof -
  have "high_bit (NOT w) \<longleftrightarrow> \<not> high_bit w" by (simp add: high_bit_def bit_not_iff)
  then show ?thesis by (auto simp: norm_real_def denorm_real_def test_high flip_split)
qed

section \<open>Segments of one column\<close>

lemma retrieve_fixed_data: "length bs = n \<Longrightarrow> retrieve_fixed pidb d n f (flip d (bPrefixData # bs) @ rest) = Some (f (flip d bs), False, rest)"
  by (auto simp: retrieve_fixed_def flip_mask null_prefix_def bPrefixData_def bPrefixNull_def bPrefixNullHigh_def)

lemma retrieve_fixed_null: "retrieve_fixed pidb d n f (flip d [null_prefix pidb] @ rest) = Some ([], True, rest)"
  by (simp add: retrieve_fixed_def flip_mask)

lemma retrieve_chunks_back: "xs \<noteq> [] \<Longrightarrow> retrieve_chunks (bMask d) (flip d (chunks xs) @ rest) acc = Some (acc @ xs, rest)"
proof (induction xs arbitrary: acc rule: chunks.induct)
  case (1 xs)
  let ?m = "bMask d :: BYTE"
  show ?case
  proof (cases "length xs \<le> 8")
    case True
    let ?n = "length xs"
    have f: "flip d (chunks xs) @ rest = map (\<lambda>b. ?m XOR b) xs @ replicate (8 - ?n) ?m @ (?m XOR word_of_nat ?n) # rest"
      using True by (simp add: flip_mask chunks.simps [of xs])
    have n: "unat (word_of_nat ?n :: BYTE) = ?n" using True by (simp add: unsigned_of_nat take_bit_nat_eq_self)
    then have "(word_of_nat ?n :: BYTE) \<noteq> 9" using True by auto
    note n = n this
    show ?thesis unfolding f using True n
      by (subst retrieve_chunks.simps) (simp add: nth_append comp_def cbFLDBinaryChunkNormalized_def cbFLDBinaryChunk_def)
  next
    case False
    have f: "flip d (chunks xs) @ rest = map (\<lambda>b. ?m XOR b) (take 8 xs) @ (?m XOR 9) # (flip d (chunks (drop 8 xs)) @ rest)"
      using False by (simp add: flip_mask chunks.simps [of xs])
    show ?thesis unfolding f using False 1(1) [of "acc @ take 8 xs"]
      by (subst retrieve_chunks.simps) (simp add: nth_append comp_def cbFLDBinaryChunkNormalized_def cbFLDBinaryChunk_def)
  qed
qed

lemma retrieve_text_back:
  assumes "0 \<notin> set xs" and "cp \<noteq> usUniCodePage"
  shows "retrieve_text (bMask d) cp (flip d (xs @ [0]) @ rest) = Some (xs, rest)"
proof -
  have t: "takeWhile (\<lambda>b. b \<noteq> bMask d) (map (\<lambda>b. bMask d XOR b) xs @ bMask d # rest) = map (\<lambda>b. bMask d XOR b) xs"
    "dropWhile (\<lambda>b. b \<noteq> bMask d) (map (\<lambda>b. bMask d XOR b) xs @ bMask d # rest) = bMask d # rest"
    using assms(1) mask_eq_iff [of d _ 0] by (induction xs) auto
  show ?thesis using assms(2) t by (simp add: retrieve_text_def flip_mask scan_def bASCIISortKeyTerminator_def comp_def)
qed

text \<open>What a column reads back as: a bit as 0x00 or 0xff, text in upper case up to its first null.\<close>

definition key_value :: "IDXSEG \<Rightarrow> DATA option \<Rightarrow> DATA" where
  "key_value c v =
     (case v of
        None \<Rightarrow> []
      | Some x \<Rightarrow> if x = [] then []
                   else if fld_coltyp (pfield c) = JET_coltypBit then [if x ! 0 = 0 then 0x00 else 0xff]
                   else if FRECTextColumn (fld_coltyp (pfield c)) then ascii_text x else x)"

definition readable :: "IDXSEG \<Rightarrow> bool" where
  "readable c \<longleftrightarrow> \<not> (fld_coltyp (pfield c) = JET_coltypGUID \<and> FDescending c) \<and> \<not> (FRECTextColumn (fld_coltyp (pfield c)) \<and> FFixed c)"

lemma guid_back:
  assumes "length x = 16"
  shows "map (\<lambda>i. (map (\<lambda>i. x ! i) (guid_order g) @ rest) ! i) (guid_source g) = x"
proof -
  have "x = map (\<lambda>i. x ! i) [0..<16]" using assms by (metis map_nth)
  then show ?thesis by (simp add: guid_order_def guid_source_def numeral_eq_Suc)
qed

lemma retrieve_null:
  assumes "column_ok c None" and "readable c"
  shows "RECIRetrieveColumnFromKey pidb c (flip (FDescending c) (full_segment pidb c None) @ rest) = Some ([], True, rest)"
proof -
  have "full_segment pidb c None = [null_prefix pidb]"
    by (simp add: full_segment_def FLDNormalizeNullSegment_def null_prefix_def Let_def)
  then show ?thesis
    using assms retrieve_fixed_null [of pidb "FDescending c" _ _ rest]
    by (cases "fld_coltyp (pfield c)")
      (simp_all add: RECIRetrieveColumnFromKey_def Let_def retrieve_bytes_def retrieve_guid_def flip_mask readable_def
        null_prefix_def bPrefixData_def bPrefixNull_def bPrefixNullHigh_def bMask_def)
qed

lemma length_store_be [simp]: "length (store_be n w) = n"
  by (simp add: store_be_def)

lemma one_byte: "length x = Suc 0 \<Longrightarrow> [x ! 0] = x" "Suc 0 = length x \<Longrightarrow> [bMask d XOR flip d x ! 0] = x"
  by (cases x; auto simp: flip_mask)+

lemma fixed_back:
  assumes sz: "type_size (fld_coltyp (pfield c)) = Some (length x)" and g: "\<not> (fld_coltyp (pfield c) = JET_coltypGUID \<and> FDescending c)"
    and bs: "FLDNormalizeFixedSegment x (fld_coltyp (pfield c)) (FDotNetGuid pidb) = Some (bPrefixData # bs)"
  shows "RECIRetrieveColumnFromKey pidb c (flip (FDescending c) (bPrefixData # bs) @ rest)
    = Some (if fld_coltyp (pfield c) = JET_coltypBit then [if x ! 0 = 0 then 0x00 else 0xff] else x, False, rest)"
proof (cases "fld_coltyp (pfield c) = JET_coltypGUID")
  case True
  then have "length x = 16" "\<not> FDescending c" "bs = map (\<lambda>i. x ! i) (guid_order (FDotNetGuid pidb))"
    using sz g bs by (auto simp: FLDNormalizeFixedSegment_def)
  then show ?thesis
    using True guid_back [of x "FDotNetGuid pidb" rest]
    by (simp add: RECIRetrieveColumnFromKey_def retrieve_guid_def flip_def Let_def) (simp add: guid_order_def)
next
  case False
  note l = load_flip_store load_flip_signed denorm_norm
  show ?thesis
    using sz bs False
    by (cases "fld_coltyp (pfield c)")
      (auto simp: RECIRetrieveColumnFromKey_def FLDNormalizeFixedSegment_def Let_def retrieve_fixed_data l flip_mask [of _ "[_]"] one_byte)
qed

text \<open>Every segment with room reads back, whatever follows it in the key.\<close>

lemma retrieve_back:
  assumes "column_ok c v" and "readable c"
  shows "RECIRetrieveColumnFromKey pidb c (flip (FDescending c) (full_segment pidb c v) @ rest) = Some (key_value c v, v = None, rest)"
proof (cases v)
  case None
  then show ?thesis using retrieve_null assms by (simp add: key_value_def)
next
  case (Some x)
  let ?t = "fld_coltyp (pfield c)" and ?d = "FDescending c"
  consider (bytes) "FRECTextColumn ?t \<or> FRECBinaryColumn ?t" | (fixed) "\<not> FRECTextColumn ?t" "\<not> FRECBinaryColumn ?t" by blast
  then show ?thesis
  proof cases
    case bytes
    have R: "RECIRetrieveColumnFromKey pidb c k = retrieve_bytes pidb c k" for k
      using bytes by (auto simp: RECIRetrieveColumnFromKey_def FRECTextColumn_def FRECBinaryColumn_def)
    have tb: "\<not> (FRECTextColumn ?t \<and> FRECBinaryColumn ?t)" by (auto simp: FRECTextColumn_def FRECBinaryColumn_def)
    have bit: "?t \<noteq> JET_coltypBit" using bytes by (auto simp: FRECTextColumn_def FRECBinaryColumn_def)
    show ?thesis
    proof (cases "x = []")
      case True
      then have "\<not> FFixed c" using assms bytes Some by (auto simp: column_ok_def readable_def Let_def)
      then show ?thesis
        using True Some bytes
        by (auto simp: R retrieve_bytes_def full_segment_def FLDNormalizeNullSegment_def flip_mask key_value_def Let_def null_prefix_def
            bPrefixData_def bPrefixNull_def bPrefixNullHigh_def bPrefixZeroLength_def)
    next
      case False
      have seg: "flip ?d (full_segment pidb c v) @ rest = (bMask ?d XOR bPrefixData) # flip ?d (if FRECTextColumn ?t then ascii_text x @ [0]
          else if FFixed c then x else chunks x) @ rest"
        using False Some bytes by (auto simp: full_segment_def flip_mask Let_def)
      show ?thesis
        unfolding seg R using False Some bytes tb bit assms retrieve_chunks_back [OF False, of ?d rest "[]"]
          retrieve_text_back [OF ascii_text_nonzero, of "fld_cp (pfield c)" ?d x rest]
        by (auto simp: retrieve_bytes_def key_value_def column_ok_def readable_def Let_def flip_mask comp_def)
    qed
  next
    case fixed
    have sz: "type_size ?t = Some (length x)" using assms(1) fixed Some by (simp add: column_ok_def Let_def)
    then have x: "x \<noteq> []" using type_size_pos by fastforce
    obtain bs where bs: "FLDNormalizeFixedSegment x ?t (FDotNetGuid pidb) = Some (bPrefixData # bs)"
      using fixed_some [OF sz] by blast
    then have "full_segment pidb c v = bPrefixData # bs" using fixed Some x by (simp add: full_segment_def Let_def)
    then show ?thesis using fixed_back [OF sz _ bs] assms(2) Some x fixed by (simp add: key_value_def readable_def)
  qed
qed

end
