(* ===== verification/Fldnorm_Make.thy ===== *)
theory Fldnorm_Make
  imports Fldnorm_Read
begin

unbundle bit_operations_syntax

text \<open>
  Whole keys: their columns read back one by one, and the search key made column by column is the
  key of the record.
\<close>

section \<open>Columns of a key\<close>

lemma full_segment_nonempty: "full_segment pidb c v \<noteq> []"
  by (simp add: full_segment_def FLDNormalizeNullSegment_def Let_def)

lemma length_row: "list_all2 column_ok cs vs \<Longrightarrow> length (concat (map2 (\<lambda>c v. flip (FDescending c) (full_segment pidb c v)) cs vs)) \<le> row_room cs vs"
proof (induction cs vs rule: list_all2_induct)
  case (Cons c cs v vs)
  then show ?case using length_full [of c v pidb] by (simp add: row_room_def)
qed simp

lemma retrieve_column_back:
  assumes "list_all2 column_ok cs vs" and "icol < length cs" and "\<forall>i\<le>icol. readable (cs ! i)"
  shows "retrieve_column pidb cs icol (concat (map2 (\<lambda>c v. flip (FDescending c) (full_segment pidb c v)) cs vs) @ rest) acc
    = Some (key_value (cs ! icol) (vs ! icol), if vs ! icol = None then JET_wrnColumnNull else errSuccess)"
  using assms
proof (induction cs arbitrary: vs icol acc)
  case (Cons c cs)
  then obtain v vs' where v: "vs = v # vs'" "column_ok c v" "list_all2 column_ok cs vs'" by (auto simp: list_all2_Cons1)
  have r: "readable c" using Cons.prems(3) by (metis nth_Cons_0 zero_le)
  have ne: "flip (FDescending c) (full_segment pidb c v) \<noteq> []"
    using full_segment_nonempty [of pidb c v] length_flip [of "FDescending c" "full_segment pidb c v"] by (metis length_0_conv)
  note b = retrieve_back [OF v(2) r, of pidb "concat (map2 (\<lambda>c v. flip (FDescending c) (full_segment pidb c v)) cs vs') @ rest"]
  show ?case
  proof (cases icol)
    case 0
    then show ?thesis using b ne v(1) by simp
  next
    case (Suc j)
    have "\<forall>i\<le>j. readable (cs ! i)" using Cons.prems(3) Suc by (metis Suc_le_mono nth_Cons_Suc)
    then show ?thesis using Cons.IH [OF v(3), of j] Cons.prems(2) Suc b ne v(1) by simp
  qed
qed simp

lemma column_from_key:
  assumes "list_all2 column_ok (rgidxseg pidb) vs" and "row_room (rgidxseg pidb) vs \<le> CbKeyMost pidb"
    and "key_bytes k = row_key pidb vs" and "icol < length (rgidxseg pidb)" and "\<forall>i\<le>icol. readable (rgidxseg pidb ! i)"
  shows "ErrRECIRetrieveColumnFromKey pidb k rest icol
    = Some (key_value (rgidxseg pidb ! icol) (vs ! icol), if vs ! icol = None then JET_wrnColumnNull else errSuccess)"
proof -
  have "length (row_key pidb vs) \<le> CbKeyMost pidb" using length_row [OF assms(1), of pidb] assms(2) by (simp add: row_key_def)
  then have "take (CbKeyMost pidb) (key_bytes k @ rest) = row_key pidb vs @ take (CbKeyMost pidb - length (row_key pidb vs)) rest"
    using assms(3) by simp
  then show ?thesis
    using retrieve_column_back [OF assms(1,4,5)] by (simp add: ErrRECIRetrieveColumnFromKey_def row_key_def)
qed

section \<open>Columns that do not read back\<close>

lemma guid_misread:
  assumes "fld_coltyp (pfield c) = JET_coltypGUID" "FDescending c" and "length g = 16"
  shows "RECIRetrieveColumnFromKey pidb c (flip True (full_segment pidb c (Some g)) @ rest)
    = Some ([], True, flip True (tl (full_segment pidb c (Some g))) @ rest)"
proof -
  have "g \<noteq> []" using assms(3) by auto
  then obtain t where "full_segment pidb c (Some g) = bPrefixData # t" by (auto simp: full_segment_def Let_def)
  then show ?thesis using assms(1) by (simp add: RECIRetrieveColumnFromKey_def retrieve_guid_def flip_def bPrefixData_def)
qed

lemma fixed_text_misread:
  assumes "fld_coltyp (pfield c) = JET_coltypText" "FFixed c" "\<not> FDescending c" and "x \<noteq> []" "0 \<notin> set x" "length x = fld_cbMaxLen (pfield c)"
  shows "RECIRetrieveColumnFromKey pidb c (full_segment pidb c (Some x) @ rest) = Some (ascii_text x, False, 0 # rest)"
proof -
  have "length (takeWhile (\<lambda>c. c \<noteq> 0) x) = length x"
    using assms(5) by (intro arg_cong [where f = length] takeWhile_eq_all_conv [THEN iffD2]) auto
  then have l: "length (ascii_text x) = length x" by (simp add: ascii_text_def crt_clocale_strupr_def c_string_def)
  have "full_segment pidb c (Some x) = bPrefixData # ascii_text x @ [0]"
    using assms by (simp add: full_segment_def FRECTextColumn_def Let_def)
  then show ?thesis using assms l by (simp add: RECIRetrieveColumnFromKey_def retrieve_bytes_def Let_def bMask_def map_idI)
qed

lemma null_misread: "column_ok c None \<Longrightarrow> \<not> FDescending c \<Longrightarrow> \<not> FSortNullsHigh pidb \<Longrightarrow> RECIRetrieveColumnFromKey pidb c (0 # rest) = Some ([], True, rest)"
  by (cases "fld_coltyp (pfield c)")
    (simp_all add: RECIRetrieveColumnFromKey_def retrieve_fixed_def retrieve_guid_def retrieve_bytes_def null_prefix_def bMask_def bPrefixNull_def bPrefixData_def Let_def)

section \<open>The search key\<close>

text \<open>
  A client makes a key with one call per column: the first with \<open>JET_bitNewKey\<close>, one for an empty
  value with \<open>JET_bitKeyDataZeroLength\<close>, one for a null without data.
\<close>

definition column_grbit :: "bool \<Rightarrow> DATA option \<Rightarrow> JET_GRBIT" where
  "column_grbit fFirst v = (if fFirst then JET_bitNewKey else 0) OR (if v = Some [] then JET_bitKeyDataZeroLength else 0)"

fun make_keys :: "MAPSTRING \<Rightarrow> IDB \<Rightarrow> DATA \<Rightarrow> bool \<Rightarrow> DATA option list \<Rightarrow> SEARCHKEY \<Rightarrow> (SEARCHKEY \<times> FLD_ERR) option" where
  "make_keys ms pidb pbRest fFirst [] s = Some (s, errSuccess)"
| "make_keys ms pidb pbRest fFirst (v # vs) s =
     (case ErrIsamMakeKey ms (Some pidb) pbRest (case v of None \<Rightarrow> [] | Some x \<Rightarrow> x) (column_grbit fFirst v) s of
        None \<Rightarrow> None
      | Some (s, err) \<Rightarrow> if err = errSuccess then make_keys ms pidb pbRest False vs s else Some (s, err))"

text \<open>A value that a search key takes: one of a fixed column has the length of the column.\<close>

definition key_data :: "IDXSEG \<Rightarrow> DATA option \<Rightarrow> bool" where
  "key_data c v \<longleftrightarrow> (FFixed c \<longrightarrow> (\<forall>x. v = Some x \<longrightarrow> x \<noteq> [] \<and> length x = fld_cbMaxLen (pfield c)))"

lemma column_grbit_bits [simp]:
  "\<not> has_bit (column_grbit b v) JET_bitNormalizedKey" "has_bit (column_grbit b v) JET_bitNewKey \<longleftrightarrow> b"
  "has_bit (column_grbit b v) JET_bitKeyDataZeroLength \<longleftrightarrow> v = Some []" "\<not> has_bit (column_grbit b v) JET_bitSubStrLimit"
  "\<not> has_bit (column_grbit b v) JET_bitStrLimit" "column_grbit b v AND JET_maskLimitOptions = 0"
  by (simp_all add: column_grbit_def has_bit_def JET_bitNormalizedKey_def JET_bitNewKey_def JET_bitKeyDataZeroLength_def
      JET_bitSubStrLimit_def JET_bitStrLimit_def JET_maskLimitOptions_def)

lemma no_limits [simp]: "set_limits line r t cp avail ib d (column_grbit b v) = (line, False)" "limit_grbit_ok c (column_grbit b v)"
  by (simp_all add: set_limits_def limit_grbit_ok_def Let_def JET_bitFullColumnStartLimit_def JET_bitFullColumnEndLimit_def
      JET_bitPartialColumnStartLimit_def JET_bitPartialColumnEndLimit_def)

lemma value_whole:
  assumes "column_segment ms pidb c (Some x) avail = Some (Inr (seg, False))" and "length seg \<le> avail" and "x \<noteq> []"
  shows "\<exists>ib. segment_of_value ms pidb x (fld_coltyp (pfield c)) (fld_cp (pfield c)) avail (FFixed c) False = Some (Inr (seg, False, ib))"
  using assms
  by (auto simp: column_segment_def segment_of_value_def Let_def split: if_splits sum.splits prod.splits)
    (intro exI [of _ "0 :: nat"] exI [of _ seg], simp)

lemma segment_whole:
  assumes "column_ok c v" and "key_data c v" and "room c v \<le> avail" and "avail \<le> CbKeyMost pidb" and "CbVarSegMac pidb = CbKeyMost pidb"
  shows "ErrFLDNormalizeSegment ms pidb pbRest v (fld_coltyp (pfield c)) (fld_cp (pfield c)) avail (FDescending c) (FFixed c) False (column_grbit b v)
    = Some (Inr (flip (FDescending c) (full_segment pidb c v), False, False))"
proof (cases "v = None \<or> v = Some []")
  case True
  then have "v = Some [] \<Longrightarrow> \<not> FFixed c \<and> (FRECTextColumn (fld_coltyp (pfield c)) \<or> FRECBinaryColumn (fld_coltyp (pfield c)))"
    using assms(1,2) type_size_pos [of "fld_coltyp (pfield c)" 0] by (auto simp: column_ok_def key_data_def Let_def split: if_splits)
  then show ?thesis using True by (auto simp: ErrFLDNormalizeSegment_def Let_def full_segment_def)
next
  case False
  then obtain x where x: "v = Some x" "x \<noteq> []" by auto
  have "length x < CbKeyMost pidb" using room_length [of x c] assms(3,4) x by simp
  then have "column_segment ms pidb c (Some x) avail = Some (Inr (full_segment pidb c v, False))"
    using column_whole [OF assms(1,3,4,5), of ms] x by simp
  moreover have "length (full_segment pidb c v) \<le> avail" using length_full [OF assms(1), of pidb] assms(3) by simp
  ultimately show ?thesis using value_whole [of ms pidb c x avail] x by (fastforce simp: ErrFLDNormalizeSegment_def Let_def)
qed

text \<open>A call that makes the next column; the first call starts the key anew.\<close>

lemma make_column_whole:
  assumes i: "cColumnsInSearchKey s < length (rgidxseg pidb)" and c: "c = rgidxseg pidb ! cColumnsInSearchKey s"
    and ok: "column_ok c v" "key_data c v" and r: "length (dataSearchKey s) + room c v \<le> CbKeyMost pidb"
    and m: "CbVarSegMac pidb = CbKeyMost pidb" "\<not> FTuples pidb" "\<not> FKSTooBig s"
  shows "make_column ms pidb pbRest (case v of None \<Rightarrow> [] | Some x \<Rightarrow> x) (column_grbit b v) s
    = Some (s\<lparr>cColumnsInSearchKey := Suc (cColumnsInSearchKey s),
              dataSearchKey := dataSearchKey s @ flip (FDescending c) (full_segment pidb c v), FKSPrepared := True\<rparr>, errSuccess)"
proof -
  let ?d = "case v of None \<Rightarrow> [] | Some x \<Rightarrow> x" and ?avail = "CbKeyMost pidb - length (dataSearchKey s)"
  have "0 < room c v" by (auto simp: room_def Let_def split: option.splits)
  then have av: "length (dataSearchKey s) < CbKeyMost pidb" "room c v \<le> ?avail" using r by linarith+
  have "length ?d < CbKeyMost pidb" using room_length [of "the v" c] r av(1) by (cases v) auto
  then have k: "key_column (CbKeyMost pidb) c ?d = Inr ?d"
    using ok(2) by (auto simp: key_column_def key_data_def Let_def JET_cbKeyMost_OLD_def split: option.splits)
  have v: "(if ?d \<noteq> [] \<or> v = Some [] then Some ?d else None) = v" by (auto split: option.splits)
  have "length (full_segment pidb c v) \<le> Suc (CbKeyMost pidb) - length (dataSearchKey s)" using length_full [OF ok(1), of pidb] av(2) by simp
  then show ?thesis
    using i av(1) k m(2,3) segment_whole [OF ok av(2) _ m(1), of ms pbRest b] v by (simp add: make_column_def Let_def flip: c)
qed

lemma make_keys_whole:
  assumes "list_all2 column_ok (drop i (rgidxseg pidb)) vs" and "list_all2 key_data (drop i (rgidxseg pidb)) vs"
    and "length (dataSearchKey s) + row_room (drop i (rgidxseg pidb)) vs \<le> CbKeyMost pidb"
    and "CbVarSegMac pidb = CbKeyMost pidb" "\<not> FTuples pidb" "\<not> FHasPlaceholderColumn pidb"
    and "cColumnsInSearchKey s = i" "FKSPrepared s" "\<not> FKSTooBig s" "\<not> FKSLimit s"
  shows "\<exists>s'. make_keys ms pidb pbRest False vs s = Some (s', errSuccess)
    \<and> dataSearchKey s' = dataSearchKey s @ concat (map2 (\<lambda>c v. flip (FDescending c) (full_segment pidb c v)) (drop i (rgidxseg pidb)) vs)"
  using assms
proof (induction vs arbitrary: i s rule: list.induct)
  case (Cons v vs)
  then have i: "i < length (rgidxseg pidb)" by (metis drop_eq_Nil leI list_all2_Cons2 list.distinct(1))
  define c where "c = rgidxseg pidb ! i"
  have d: "drop i (rgidxseg pidb) = c # drop (Suc i) (rgidxseg pidb)" using i by (simp add: c_def Cons_nth_drop_Suc)
  have ok: "column_ok c v" "key_data c v" "list_all2 column_ok (drop (Suc i) (rgidxseg pidb)) vs" "list_all2 key_data (drop (Suc i) (rgidxseg pidb)) vs"
    and r: "length (dataSearchKey s) + (room c v + row_room (drop (Suc i) (rgidxseg pidb)) vs) \<le> CbKeyMost pidb"
    using Cons.prems(1-3) by (simp_all add: d row_room_def)
  let ?s = "s\<lparr>cColumnsInSearchKey := Suc i, dataSearchKey := dataSearchKey s @ flip (FDescending c) (full_segment pidb c v), FKSPrepared := True\<rparr>"
  have "ErrIsamMakeKey ms (Some pidb) pbRest (case v of None \<Rightarrow> [] | Some x \<Rightarrow> x) (column_grbit False v) s = Some (?s, errSuccess)"
    using make_column_whole [of s pidb c v ms pbRest False] i ok(1,2) r Cons.prems(4-) by (simp add: ErrIsamMakeKey_def c_def)
  moreover have "length (dataSearchKey ?s) + row_room (drop (Suc i) (rgidxseg pidb)) vs \<le> CbKeyMost pidb"
    using length_full [OF ok(1), of pidb] r by simp
  ultimately show ?case using Cons.IH [OF ok(3,4), of ?s] Cons.prems(4-) by (simp add: d)
qed simp

lemma make_key_whole:
  assumes "list_all2 column_ok (rgidxseg pidb) vs" and "list_all2 key_data (rgidxseg pidb) vs" and "vs \<noteq> []"
    and "row_room (rgidxseg pidb) vs \<le> CbKeyMost pidb" and "CbVarSegMac pidb = CbKeyMost pidb" "\<not> FTuples pidb" "\<not> FHasPlaceholderColumn pidb"
  shows "\<exists>s'. make_keys ms pidb pbRest True vs s = Some (s', errSuccess) \<and> dataSearchKey s' = row_key pidb vs"
proof -
  define s0 where "s0 = (KSReset s)\<lparr>dataSearchKey := [], cColumnsInSearchKey := 0\<rparr>"
  have s0: "dataSearchKey s0 = []" "cColumnsInSearchKey s0 = 0" "\<not> FKSTooBig s0" "\<not> FKSLimit s0" "\<not> FKSPrepared s0"
    by (simp_all add: s0_def KSReset_def)
  obtain v vs' where v: "vs = v # vs'" using assms(3) by (cases vs) auto
  then obtain c cs where c: "rgidxseg pidb = c # cs" using assms(1) by (auto simp: list_all2_Cons2)
  have ok: "column_ok c v" "key_data c v" and r: "room c v + row_room cs vs' \<le> CbKeyMost pidb"
    using assms(1,2,4) by (simp_all add: v c row_room_def)
  define s1 where "s1 = s0\<lparr>cColumnsInSearchKey := Suc (cColumnsInSearchKey s0),
    dataSearchKey := dataSearchKey s0 @ flip (FDescending c) (full_segment pidb c v), FKSPrepared := True\<rparr>"
  have s1: "dataSearchKey s1 = flip (FDescending c) (full_segment pidb c v)" "cColumnsInSearchKey s1 = 1" "\<not> FKSTooBig s1" "\<not> FKSLimit s1" "FKSPrepared s1"
    by (simp_all add: s1_def s0)
  have "make_column ms pidb pbRest (case v of None \<Rightarrow> [] | Some x \<Rightarrow> x) (column_grbit True v) s0 = Some (s1, errSuccess)"
    unfolding s1_def using ok r assms(5,6) s0 by (intro make_column_whole) (simp_all add: c)
  then have 1: "ErrIsamMakeKey ms (Some pidb) pbRest (case v of None \<Rightarrow> [] | Some x \<Rightarrow> x) (column_grbit True v) s = Some (s1, errSuccess)"
    using assms(7) by (simp add: ErrIsamMakeKey_def flip: s0_def)
  have "length (dataSearchKey s1) + row_room cs vs' \<le> CbKeyMost pidb" using length_full [OF ok(1), of pidb] r s1(1) by simp
  then obtain s' where "make_keys ms pidb pbRest False vs' s1 = Some (s', errSuccess)"
    "dataSearchKey s' = dataSearchKey s1 @ concat (map2 (\<lambda>c v. flip (FDescending c) (full_segment pidb c v)) cs vs')"
    using make_keys_whole [of 1 pidb vs' s1 ms pbRest] assms(1,2,5-7) s1(2-) by (auto simp: v c)
  then show ?thesis using 1 s1(1) by (simp add: v c row_key_def)
qed

end
