(* ===== verification/Fldnorm_Properties.thy ===== *)
theory Fldnorm_Properties
  imports Fldnorm_Make
begin

unbundle bit_operations_syntax

text \<open>
  Properties of key normalisation: the order of columns and of whole keys, the way back from a key
  to its columns, the columns that do not come back, the end of the loop for more data, and the
  search key that equals the key of a record.
\<close>

section \<open>An index\<close>

text \<open>An index on a signed number, a descending text and a binary column, for concrete keys.\<close>

definition index1 :: IDB where
  "index1 = \<lparr>CbKeyMost = 255, CbVarSegMac = 255, FSortNullsHigh = False, FDotNetGuid = False, FDisallowTruncation = False,
     FTuples = False, CchTuplesLengthMin = 0, CchTuplesLengthMax = 0, FHasPlaceholderColumn = False,
     rgidxseg = [\<lparr>pfield = \<lparr>fld_coltyp = JET_coltypShort, fld_cbMaxLen = 2, fld_cp = 0\<rparr>, FFixed = True, FDescending = False\<rparr>,
                 \<lparr>pfield = \<lparr>fld_coltyp = JET_coltypLongText, fld_cbMaxLen = 0, fld_cp = 1252\<rparr>, FFixed = False, FDescending = True\<rparr>,
                 \<lparr>pfield = \<lparr>fld_coltyp = JET_coltypBinary, fld_cbMaxLen = 255, fld_cp = 0\<rparr>, FFixed = False, FDescending = False\<rparr>]\<rparr>"

text \<open>An index on an identifier or a fixed text column, and a number.\<close>

definition index2 :: "JET_COLTYP \<Rightarrow> nat \<Rightarrow> bool \<Rightarrow> IDB" where
  "index2 t n d = index1\<lparr>rgidxseg := [\<lparr>pfield = \<lparr>fld_coltyp = t, fld_cbMaxLen = n, fld_cp = 1252\<rparr>, FFixed = True, FDescending = d\<rparr>,
     \<lparr>pfield = \<lparr>fld_coltyp = JET_coltypUnsignedByte, fld_cbMaxLen = 1, fld_cp = 0\<rparr>, FFixed = True, FDescending = False\<rparr>]\<rparr>"

definition row1 :: "DATA option list" where "row1 = [Some [0xff, 0xff], Some [0x62, 0x43], Some [1, 2, 3, 4, 5, 6, 7, 8, 9]]"
definition row2 :: "DATA option list" where "row2 = [Some [0xff, 0xff], Some [0x41], None]"

definition map_string1 :: MAPSTRING where "map_string1 s n = (take n s, errSuccess)"

lemma index1_simps: "CbKeyMost index1 = 255" "CbVarSegMac index1 = 255" "\<not> FTuples index1" "\<not> FHasPlaceholderColumn index1"
  by (simp_all add: index1_def)

lemma rows_ok: "list_all2 column_ok (rgidxseg index1) row1" "list_all2 column_ok (rgidxseg index1) row2"
  "row_room (rgidxseg index1) row1 \<le> 255" "row_room (rgidxseg index1) row2 \<le> 255"
  by code_simp+

section \<open>Order of columns\<close>

text \<open>
  C35. The normalised segments of a column sort like its values. For a column of any type (signed
  and unsigned numbers, IEEE numbers and dates, identifiers, binary data and ASCII text) and two
  values that fit the column and the key, the segments appended for them, complemented when the
  column is descending, compare bytewise as the values compare: numbers by their value, binary data
  and upper-cased text lexicographically, nulls before or after all values and empty values before
  the others, and all of it turned around for a descending column. What follows the segments in
  the keys has no influence.
\<close>
theorem column_order:
  assumes "column_ok c v" "column_ok c w" and "if FDescending c then column_less pidb c w v else column_less pidb c v w"
    and "room c v \<le> avail" "room c w \<le> avail" "avail \<le> CbKeyMost pidb" "CbVarSegMac pidb = CbKeyMost pidb"
  shows "\<exists>sv sw. column_segment ms pidb c v avail = Some (Inr (sv, False)) \<and> column_segment ms pidb c w avail = Some (Inr (sw, False))
    \<and> (\<forall>s t. flip (FDescending c) sv @ s < flip (FDescending c) sw @ t)"
proof -
  have short: "length x \<le> 255" if "CbKeyMost pidb = 255" "u = Some x" "room c u \<le> avail" for u x
    using room_length [of x c] that assms(6) by simp
  have "column_segment ms pidb c v avail = Some (Inr (full_segment pidb c v, False))"
    using short assms(4) by (intro column_whole [OF assms(1,4,6,7)]) auto
  moreover have "column_segment ms pidb c w avail = Some (Inr (full_segment pidb c w, False))"
    using short assms(5) by (intro column_whole [OF assms(2,5,6,7)]) auto
  moreover have "flip (FDescending c) (full_segment pidb c v) @ s < flip (FDescending c) (full_segment pidb c w) @ t" for s t
    using columns.directed_decided [OF assms(1,2,3)] by (intro before_less before_append)
  ultimately show ?thesis by blast
qed

theorem column_order_witness:
  "\<exists>sv sw. column_segment map_string1 index1 (rgidxseg index1 ! 0) (Some [0xff, 0xff]) 10 = Some (Inr (sv, False))
    \<and> column_segment map_string1 index1 (rgidxseg index1 ! 0) (Some [1, 0]) 10 = Some (Inr (sw, False)) \<and> sv < sw"
proof -
  let ?c = "rgidxseg index1 ! 0" and ?v = "Some [0xff, 0xff] :: DATA option" and ?w = "Some [1, 0] :: DATA option"
  have f: "column_ok ?c ?v" "column_ok ?c ?w" "\<not> FDescending ?c" "column_less index1 ?c ?v ?w" "room ?c ?v \<le> 10" "room ?c ?w \<le> 10"
    by code_simp+
  then obtain sv sw where "column_segment map_string1 index1 ?c ?v 10 = Some (Inr (sv, False))"
    "column_segment map_string1 index1 ?c ?w 10 = Some (Inr (sw, False))" "\<forall>s t. flip (FDescending ?c) sv @ s < flip (FDescending ?c) sw @ t"
    using column_order [of ?c ?v ?w index1 10 map_string1] by (auto simp: index1_simps)
  moreover from this(3) have "flip (FDescending ?c) sv @ [] < flip (FDescending ?c) sw @ []" by blast
  ultimately show ?thesis using f(3) by (auto simp: flip_def)
qed

section \<open>Order of keys\<close>

text \<open>
  C36. Keys of records sort like the rows of their columns. For two records whose values fit the
  columns of an index and whose segments fit in the longest key, \<open>ErrRECIRetrieveKey\<close> returns a key
  for each; when the rows differ and in the first column that differs the first row comes first (in
  the direction of that column), then \<open>CmpKey\<close>, the comparison of the B+ tree, puts the first key
  before the second, however the two keys are split into prefix and suffix.
\<close>
theorem record_key_order:
  assumes "list_all2 column_ok (rgidxseg pidb) vs" "list_all2 column_ok (rgidxseg pidb) ws"
    and "row_less (\<lambda>c v w. if FDescending c then column_less pidb c w v else column_less pidb c v w) (zip (rgidxseg pidb) vs) ws"
    and "row_room (rgidxseg pidb) vs \<le> CbKeyMost pidb" "row_room (rgidxseg pidb) ws \<le> CbKeyMost pidb"
    and "CbVarSegMac pidb = CbKeyMost pidb" "CbKeyMost pidb < 65536"
  shows "\<exists>bs1 err1 bs2 err2. ErrRECIRetrieveKey ms pidb vs = Some (Inr (bs1, err1)) \<and> ErrRECIRetrieveKey ms pidb ws = Some (Inr (bs2, err2))
    \<and> (\<forall>key1 key2. key_bytes key1 = bs1 \<longrightarrow> key_bytes key2 = bs2 \<longrightarrow> CmpKey key1 key2 < 0)"
proof -
  obtain err1 err2 where r: "ErrRECIRetrieveKey ms pidb vs = Some (Inr (row_key pidb vs, err1))" "ErrRECIRetrieveKey ms pidb ws = Some (Inr (row_key pidb ws, err2))"
    using retrieve_key_whole [OF assms(1,4,6,7)] retrieve_key_whole [OF assms(2,5,6,7)] by blast
  have "row_key pidb vs < row_key pidb ws"
    using columns.directed.row_order [OF assms(1,2,3), of "[]" "[]"] by (simp add: row_key_def)
  then have "CmpKey key1 key2 < 0" if "key_bytes key1 = row_key pidb vs" "key_bytes key2 = row_key pidb ws" for key1 key2
    using CmpKey_total [of key1 key2] that by (simp add: cmp_total_def)
  with r show ?thesis by blast
qed

theorem record_key_order_witness:
  "\<exists>bs1 err1 bs2 err2. ErrRECIRetrieveKey map_string1 index1 row1 = Some (Inr (bs1, err1)) \<and> ErrRECIRetrieveKey map_string1 index1 row2 = Some (Inr (bs2, err2))
    \<and> CmpKey \<lparr>prefix = [], suffix = bs1\<rparr> \<lparr>prefix = take 4 bs2, suffix = drop 4 bs2\<rparr> < 0"
proof -
  have "row_less (\<lambda>c v w. if FDescending c then column_less index1 c w v else column_less index1 c v w) (zip (rgidxseg index1) row1) row2"
    by code_simp
  from record_key_order [OF rows_ok(1,2) this, of map_string1] show ?thesis
    using rows_ok(3,4) by (fastforce simp: index1_simps key_bytes_def)
qed

section \<open>Columns from keys\<close>



text \<open>
  C38. Two kinds of columns do not read back. A descending identifier column is normalised with its
  bytes complemented, but \<open>RECIRetrieveColumnFromKey\<close> compares its first byte with the plain prefix:
  every identifier reads back as null. A fixed ASCII text column is skipped by the length of the
  column although the normalisation appends a null byte to all text: the column after it is read
  from that null byte, and an ascending column, of whatever type and value, reads back as null when
  nulls sort low.
\<close>
theorem column_misread:
  assumes "list_all2 column_ok (rgidxseg pidb) (Some x # vs)" and "row_room (rgidxseg pidb) (Some x # vs) \<le> CbKeyMost pidb"
    and "CbVarSegMac pidb = CbKeyMost pidb" "CbKeyMost pidb < 65536" and "rgidxseg pidb = c # c2 # cs"
  shows "\<exists>bs err. ErrRECIRetrieveKey ms pidb (Some x # vs) = Some (Inr (bs, err))
    \<and> (\<forall>pkey pbRest. key_bytes pkey = bs \<longrightarrow>
         (fld_coltyp (pfield c) = JET_coltypGUID \<and> FDescending c \<longrightarrow>
            ErrRECIRetrieveColumnFromKey pidb pkey pbRest 0 = Some ([], JET_wrnColumnNull))
         \<and> (fld_coltyp (pfield c) = JET_coltypText \<and> FFixed c \<and> \<not> FDescending c \<and> x \<noteq> [] \<and> 0 \<notin> set x
              \<and> length x = fld_cbMaxLen (pfield c) \<and> \<not> FDescending c2 \<and> \<not> FSortNullsHigh pidb \<longrightarrow>
            ErrRECIRetrieveColumnFromKey pidb pkey pbRest 1 = Some ([], JET_wrnColumnNull)))"
proof -
  obtain err where r: "ErrRECIRetrieveKey ms pidb (Some x # vs) = Some (Inr (row_key pidb (Some x # vs), err))"
    using retrieve_key_whole [OF assms(1-4)] by blast
  have len: "length (row_key pidb (Some x # vs)) \<le> CbKeyMost pidb" using length_row [OF assms(1), of pidb] assms(2) by (simp add: row_key_def)
  obtain tail where k: "row_key pidb (Some x # vs) = flip (FDescending c) (full_segment pidb c (Some x)) @ tail" by (simp add: row_key_def assms(5))
  have ne: "flip (FDescending c) (full_segment pidb c (Some x)) \<noteq> []"
    using full_segment_nonempty [of pidb c "Some x"] by (metis length_0_conv length_flip)
  have "(fld_coltyp (pfield c) = JET_coltypGUID \<and> FDescending c \<longrightarrow> ErrRECIRetrieveColumnFromKey pidb pkey pbRest 0 = Some ([], JET_wrnColumnNull))
    \<and> (fld_coltyp (pfield c) = JET_coltypText \<and> FFixed c \<and> \<not> FDescending c \<and> x \<noteq> [] \<and> 0 \<notin> set x
        \<and> length x = fld_cbMaxLen (pfield c) \<and> \<not> FDescending c2 \<and> \<not> FSortNullsHigh pidb
      \<longrightarrow> ErrRECIRetrieveColumnFromKey pidb pkey pbRest 1 = Some ([], JET_wrnColumnNull))"
    if "key_bytes pkey = row_key pidb (Some x # vs)" for pkey pbRest
  proof -
    let ?rest = "tail @ take (CbKeyMost pidb - length (row_key pidb (Some x # vs))) pbRest"
    have E: "ErrRECIRetrieveColumnFromKey pidb pkey pbRest icol
        = retrieve_column pidb (c # c2 # cs) icol (flip (FDescending c) (full_segment pidb c (Some x)) @ ?rest) []" for icol
      using that len k by (simp add: ErrRECIRetrieveColumnFromKey_def assms(5))
    have "length x = 16" if "fld_coltyp (pfield c) = JET_coltypGUID"
      using assms(1,5) that by (simp add: column_ok_def Let_def FRECTextColumn_def FRECBinaryColumn_def)
    moreover have "column_ok c2 None" using assms(1,5) by (auto simp: list_all2_Cons1 column_ok_def Let_def split: if_splits)
    ultimately show ?thesis
      unfolding E using ne guid_misread [of c x pidb ?rest] fixed_text_misread [of c x pidb ?rest] null_misread [of c2 pidb ?rest]
      by (auto simp: flip_def)
  qed
  with r show ?thesis by blast
qed

theorem column_misread_witness:
  "(\<exists>bs err. ErrRECIRetrieveKey map_string1 (index2 JET_coltypGUID 16 True) [Some (replicate 16 7), Some [9]] = Some (Inr (bs, err))
     \<and> ErrRECIRetrieveColumnFromKey (index2 JET_coltypGUID 16 True) \<lparr>prefix = [], suffix = bs\<rparr> [] 0 = Some ([], JET_wrnColumnNull))
   \<and> (\<exists>bs err. ErrRECIRetrieveKey map_string1 (index2 JET_coltypText 2 False) [Some [0x41, 0x42], Some [9]] = Some (Inr (bs, err))
     \<and> ErrRECIRetrieveColumnFromKey (index2 JET_coltypText 2 False) \<lparr>prefix = [], suffix = bs\<rparr> [] 1 = Some ([], JET_wrnColumnNull))"
proof -
  let ?g = "index2 JET_coltypGUID 16 True" and ?t = "index2 JET_coltypText 2 False"
  have f: "list_all2 column_ok (rgidxseg ?g) [Some (replicate 16 7), Some [9]]" "row_room (rgidxseg ?g) [Some (replicate 16 7), Some [9]] \<le> 255"
    "list_all2 column_ok (rgidxseg ?t) [Some [0x41, 0x42], Some [9]]" "row_room (rgidxseg ?t) [Some [0x41, 0x42], Some [9]] \<le> 255"
    by code_simp+
  have s: "CbKeyMost (index2 t n d) = 255" "CbVarSegMac (index2 t n d) = 255" "\<not> FSortNullsHigh (index2 t n d)" for t n d
    by (simp_all add: index2_def index1_def)
  obtain c c2 where c: "rgidxseg ?g = [c, c2]" "fld_coltyp (pfield c) = JET_coltypGUID" "FDescending c" by (simp add: index2_def)
  obtain d d2 where d: "rgidxseg ?t = [d, d2]" "fld_coltyp (pfield d) = JET_coltypText" "FFixed d" "\<not> FDescending d" "fld_cbMaxLen (pfield d) = 2" "\<not> FDescending d2"
    by (simp add: index2_def)
  have "\<exists>bs err. ErrRECIRetrieveKey map_string1 ?g [Some (replicate 16 7), Some [9]] = Some (Inr (bs, err))
     \<and> ErrRECIRetrieveColumnFromKey ?g \<lparr>prefix = [], suffix = bs\<rparr> [] 0 = Some ([], JET_wrnColumnNull)"
    using column_misread [OF f(1) _ _ _ c(1), of map_string1] f(2) c(2,3) by (auto simp: s key_bytes_def)
  moreover have "\<exists>bs err. ErrRECIRetrieveKey map_string1 ?t [Some [0x41, 0x42], Some [9]] = Some (Inr (bs, err))
     \<and> ErrRECIRetrieveColumnFromKey ?t \<lparr>prefix = [], suffix = bs\<rparr> [] 1 = Some ([], JET_wrnColumnNull)"
    using column_misread [OF f(3) _ _ _ d(1), of map_string1] f(4) d(2-) by (auto simp: s key_bytes_def)
  ultimately show ?thesis by blast
qed

section \<open>The loop for more data\<close>

text \<open>
  C39. \<open>ErrRECIRetrieveKey\<close> returns. It retrieves at first as many bytes of each column as the key
  can have and doubles the number, a 32-bit word, until no column asks for more. For an index whose
  columns have types that can be indexed, with a longest key of at least one byte, and values
  shorter than 2 GB, the loop ends with a key or an error before the number wraps around, whatever
  the mapping of Unicode text does.
\<close>
theorem retrieve_key_returns:
  assumes "list_all indexable (rgidxseg pidb)" and "\<forall>x. Some x \<in> set vs \<longrightarrow> length x < 2 ^ 31" and "0 < CbKeyMost pidb" "CbKeyMost pidb < 2 ^ 32"
  shows "\<exists>r. ErrRECIRetrieveKey ErrNORMMapString pidb vs = Some r"
proof -
  have "unat (word_of_nat (CbKeyMost pidb) :: ULONG) = CbKeyMost pidb" using assms(4) by (simp add: unsigned_of_nat take_bit_nat_eq_self)
  then have "0 < (word_of_nat (CbKeyMost pidb) :: ULONG)" using assms(3) by (simp add: word_less_nat_alt)
  then show ?thesis unfolding ErrRECIRetrieveKey_def by (rule loop_ends [OF assms(1,2)])
qed

theorem retrieve_key_returns_witness: "\<exists>r. ErrRECIRetrieveKey map_string1 (index1\<lparr>CbKeyMost := 3\<rparr>) row1 = Some r"
proof -
  have "list_all indexable (rgidxseg (index1\<lparr>CbKeyMost := 3\<rparr>))" by code_simp
  then show ?thesis by (rule retrieve_key_returns) (auto simp: row1_def)
qed

section \<open>The search key\<close>

text \<open>
  C40. A seek finds the record: the search key made by calls of \<open>ErrIsamMakeKey\<close>, one for each
  column of the index, the first with \<open>JET_bitNewKey\<close> and one for an empty value with
  \<open>JET_bitKeyDataZeroLength\<close>, from any earlier state of the search key, is the key that
  \<open>ErrRECIRetrieveKey\<close> computes from a record with these values, for values that fit the columns and
  the key, on an index without tuples and placeholder column and no limits asked for.
\<close>
theorem search_key_is_record_key:
  assumes "list_all2 column_ok (rgidxseg pidb) vs" and "list_all2 key_data (rgidxseg pidb) vs" and "vs \<noteq> []"
    and "row_room (rgidxseg pidb) vs \<le> CbKeyMost pidb" and "CbVarSegMac pidb = CbKeyMost pidb" "CbKeyMost pidb < 65536"
    and "\<not> FTuples pidb" "\<not> FHasPlaceholderColumn pidb"
  shows "\<exists>s' bs err. make_keys ms pidb pbRest True vs s = Some (s', errSuccess) \<and> ErrRECIRetrieveKey ms pidb vs = Some (Inr (bs, err)) \<and> dataSearchKey s' = bs"
  using make_key_whole [OF assms(1-5,7,8), of ms pbRest s] retrieve_key_whole [OF assms(1,4,5,6), of ms] by blast

theorem search_key_is_record_key_witness:
  "\<exists>s' bs err. make_keys map_string1 index1 [] True row1 \<lparr>dataSearchKey = [1], cColumnsInSearchKey = 1, FKSPrepared = True, FKSTooBig = True, FKSLimit = True\<rparr>
      = Some (s', errSuccess) \<and> ErrRECIRetrieveKey map_string1 index1 row1 = Some (Inr (bs, err)) \<and> dataSearchKey s' = bs"
proof -
  have "list_all2 key_data (rgidxseg index1) row1" by (simp add: index1_def row1_def key_data_def)
  then show ?thesis by (rule search_key_is_record_key [OF rows_ok(1)]) (use rows_ok(3) in \<open>simp_all add: index1_simps row1_def\<close>)
qed

end
