(* ===== verification/Spec2Isabelle.thy ===== *)
theory Spec2Isabelle
  imports Page_Repair Page_Check_Properties Node_Ops_Properties Fldnorm_Properties
begin

text \<open>
  The storage layers of the Extensible Storage Engine.

  \<^bold>\<open>The program.\<close> The engine keeps a database as an array of pages. From the bottom up the
  layers modelled here are the checksum routines (\<open>src/dev/ese/src/checksum\<close>), which compute an
  XOR and an error-correcting code of a block; the page checksum layer
  (\<open>ese/_osu/checksumu.cxx\<close>), which seals a page before it is written and verifies and repairs it
  after it is read; the slotted page (\<open>ese/cpage.cxx\<close>), which keeps lines of bytes with flags on
  a page; and the node layer (\<open>ese/node.cxx\<close>), which keeps keys with data in those lines and
  searches them. Beside them stands key normalisation (\<open>ese/fldnorm.cxx\<close>, \<open>ese/_osu/normu.cxx\<close>), which turns
  the columns of a record into the bytes of a key that the node layer compares. The B+ tree, the version
  store, the log and the buffer manager sit on top.

  \<^bold>\<open>Theories.\<close>
  \<^item> \<open>Ese_Prelude\<close>: machine integers, little-endian reads and writes, byte buffers.
  \<^item> \<open>Xor_Algebra\<close>, \<open>Checksum_Old\<close>, \<open>Checksum_New\<close>, \<open>Checksum_Ecc\<close>, \<open>Checksum_Routines\<close>,
    \<open>Checksum_Vector\<close>: the routines of \<open>checksum.cxx\<close>, \<open>checksum_amd64.cxx\<close> and
    \<open>checksum_avx.cxx\<close>, one definition per routine, and that all of them compute one
    specification.
  \<^item> \<open>Ecc_Repair\<close>, \<open>Page_Checksum\<close>, \<open>Page_Repair\<close>: the decoding of a mismatch, the model of
    \<open>checksumu.cxx\<close> on the bytes of a page, and the properties C1 to C8.
  \<^item> \<open>Cpage\<close>: the model of \<open>cpage.cxx\<close>. The record \<open>CPAGE\<close> has the page header, the bytes behind
    it and the members of the object. \<open>Cpage_Tags\<close>, \<open>Cpage_Reorg\<close>, \<open>Cpage_Lines\<close>,
    \<open>Cpage_Change\<close>, \<open>Cpage_Space\<close>: the invariant \<open>page_inv\<close> and one lemma per operation.
    \<open>Cpage_Ops\<close>: the locale \<open>line_store\<close>, the contract of a page as an editable list, and its
    interpretation. \<open>Cpage_Properties\<close>: C9 to C21.
  \<^item> \<open>Keys\<close>: keys in two pieces and their comparison, from \<open>inc/daedef.hxx\<close>, with the
    lexicographic order as reference. \<open>Node\<close>: reading, encoding and searching nodes of \<open>node.cxx\<close>.
    \<open>Node_Codec\<close>: lines as nodes. \<open>Node_Seek\<close>: the locale \<open>probe_order\<close> and the searches.
    \<open>Node_Properties\<close>: C22 to C24.
  \<^item> \<open>Page_Check\<close>: the model of \<open>CPAGE::ErrCheckPage\<close>, the validation of a page that was read.
    \<open>Page_Check_Ok\<close>: what an accepted page satisfies, and that well-formed pages are accepted.
    \<open>Page_Check_Properties\<close>: C25 to C28.
  \<^item> \<open>Node_Ops\<close>: the operations of \<open>node.cxx\<close> that change a page, with and without logging, and the
    accounting of uncommitted space of \<open>ver.cxx\<close>. \<open>Node_Header\<close>: the fields of the external header,
    reserved tags and scrubbing. \<open>Node_Edit\<close>: nodes written to a page read back, and the second
    interpretation of \<open>line_store\<close>, on pages of nodes. \<open>Node_Change\<close>, \<open>Node_Replace\<close>,
    \<open>Node_Header_Ok\<close>: one lemma per operation. \<open>Node_Ops_Properties\<close>: C29 to C34.
  \<^item> \<open>Fldnorm\<close>: the segment of a column of each type. \<open>Fldkey\<close>: limits and the search key, which
    \<open>ErrIsamMakeKey\<close> makes column by column. \<open>Fldread\<close>: the key of a record (\<open>ErrRECIRetrieveKey\<close>) and
    the columns read back from a key (\<open>RECIRetrieveColumnFromKey\<close>). \<open>Fldnorm_Order\<close>: byte strings whose
    order does not depend on what follows them, and the locales \<open>segment_code\<close> and \<open>directed_code\<close>, the
    contract of segments that can be put one after the other, ascending or descending.
    \<open>Fldnorm_Codes\<close>, \<open>Fldnorm_Bytes\<close>: numbers, binary data and text keep their order.
    \<open>Fldnorm_Keys\<close>: the order of values, the interpretation of the locales on the columns of an index,
    and whole keys. \<open>Fldnorm_Read\<close>, \<open>Fldnorm_Make\<close>: the way back, and the search key.
    \<open>Fldnorm_Properties\<close>: C35 to C40.

  \<^bold>\<open>Environment of the node layer.\<close> The record \<open>ND_ENV\<close> stands for what an operation asks of the
  layers that are not modelled: the modes of the database file, the clock, the reserves of the
  version store and the logging routine. The theorems assume of the logging routine only that it
  keeps the lines of the page and all of its header but the time stamps, the scrubbed flag and
  the count of uncommitted bytes (\<open>log_harmless\<close>); it may fail.

  \<^bold>\<open>Environment of key normalisation.\<close> The values of the columns are arguments, None for a null. The
  mapping of Unicode text to sort keys is the function \<open>ErrNORMMapString\<close>, an argument about which nothing
  is assumed; the theorems on order and on reading back are about text of other code pages. What a
  buffer holds behind the bytes that were written is the argument \<open>pbRest\<close>, and the theorems
  hold for all of it.

  \<^bold>\<open>Loops and bounds.\<close> Every loop of the code but one is a terminating function of the model; there is
  no fuel. The loop of \<open>ErrRECIRetrieveKey\<close>, which doubles a word, is a partial function with a theorem
  that it returns (C39). A failing \<open>Enforce\<close> is the result None. Header counters of 16 bits are natural numbers
  that are cut on every store; sizes that may wrap are words of their width. The theorems on
  pages hold for every size the format allows: up to 8191 bytes behind the header of a small
  page and 32767 of a large one.

  \<^bold>\<open>Not modelled.\<close> Latching, buffer management and I/O, tracing, event reports, dumps and test
  hooks; the routines for processors without the instruction sets of the build; the layers
  above the node layer; of key normalisation, the retrieval of column values from records and long
  values, tuple and multi-value sequences and conditional columns.
\<close>

end
